(* ===== verification/Prelude.thy ===== *)
theory Prelude
  imports Main "HOL-Library.Word"
begin

text \<open>
  Shared ground of the development.

  The first part fixes the machine types of the 32-bit ARM target (\<open>xloader.c\<close> is written for
  \<open>sizeof(long) = 4\<close>) and the C error values.  The second part models the functions of the C
  library the sources call on strings: a C string is a \<^typ>\<open>string\<close> without the terminating NUL, a
  \<open>char\<close> array is a \<^typ>\<open>string\<close> of the array's size in which the string ends at the first NUL.
  Reads that have no NUL in range are explicit (\<open>None\<close>).  The third part has the generic lemmas on
  lists and words that several components use; \<open>cstr\<close> collects the simplification rules for
  C strings, \<open>bytes_of\<close> those for the byte layout of machine words.
\<close>

unbundle bit_operations_syntax

named_theorems cstr \<open>rewrite rules for C strings and char arrays\<close>
named_theorems bytes_of \<open>rewrite rules for the little-endian byte layout of words\<close>

section \<open>Machine types\<close>

type_synonym byte = "8 word"
type_synonym u16 = "16 word"
type_synonym u32 = "32 word"

abbreviation NUL :: char where
  "NUL \<equiv> CHR 0x00"

abbreviation NL :: char where
  "NL \<equiv> CHR 0x0A"

abbreviation CR :: char where
  "CR \<equiv> CHR 0x0D"

abbreviation (input) INT_MAX :: int where
  "INT_MAX \<equiv> 2147483647"

abbreviation (input) INT_MIN :: int where
  "INT_MIN \<equiv> - 2147483648"

definition is_int32 :: "int \<Rightarrow> bool" where
  "is_int32 i \<longleftrightarrow> INT_MIN \<le> i \<and> i \<le> INT_MAX"

text \<open>The value of an \<open>int\<close> variable after an assignment: it wraps around.\<close>

definition int32 :: "int \<Rightarrow> int" where
  "int32 i = sint (word_of_int i :: 32 word)"

text \<open>The error numbers the sources name (Linux values).\<close>

abbreviation (input) EPERM :: int where "EPERM \<equiv> 1"
abbreviation (input) ENOENT :: int where "ENOENT \<equiv> 2"
abbreviation (input) ENOMEM :: int where "ENOMEM \<equiv> 12"
abbreviation (input) EBUSY :: int where "EBUSY \<equiv> 16"
abbreviation (input) EEXIST :: int where "EEXIST \<equiv> 17"
abbreviation (input) EISDIR :: int where "EISDIR \<equiv> 21"
abbreviation (input) EINVAL :: int where "EINVAL \<equiv> 22"
abbreviation (input) ENAMETOOLONG :: int where "ENAMETOOLONG \<equiv> 36"

section \<open>C strings\<close>

definition is_cstr :: "string \<Rightarrow> bool" where
  "is_cstr s \<longleftrightarrow> NUL \<notin> set s"

text \<open>\<open>isspace\<close> of \<open>ctype.h\<close> in the C locale: space, tab, newline, vertical tab, form feed, return.\<close>

definition isspace :: "char \<Rightarrow> bool" where
  "isspace c \<longleftrightarrow> c \<in> set [CHR '' '', CHR 0x09, CHR 0x0A, CHR 0x0B, CHR 0x0C, CHR 0x0D]"

text \<open>The string that starts at index \<open>i\<close> of a char array; \<open>None\<close> when no NUL follows.\<close>

definition cstr_at :: "string \<Rightarrow> nat \<Rightarrow> string option" where
  "cstr_at buf i =
     (if NUL \<in> set (drop i buf) then Some (takeWhile (\<lambda>c. c \<noteq> NUL) (drop i buf)) else None)"

definition strchr :: "string \<Rightarrow> char \<Rightarrow> string option" where
  "strchr s c = (if c \<in> set s then Some (dropWhile (\<lambda>d. d \<noteq> c) s) else None)"

definition strrchr :: "string \<Rightarrow> char \<Rightarrow> string option" where
  "strrchr s c =
     (if c \<in> set s then Some (c # rev (takeWhile (\<lambda>d. d \<noteq> c) (rev s))) else None)"

fun starts_with :: "string \<Rightarrow> string \<Rightarrow> bool" where
  "starts_with [] s = True"
| "starts_with (p # ps) [] = False"
| "starts_with (p # ps) (c # cs) = (p = c \<and> starts_with ps cs)"

fun strstr :: "string \<Rightarrow> string \<Rightarrow> string option" where
  "strstr [] needle = (if needle = [] then Some [] else None)"
| "strstr (c # cs) needle =
     (if starts_with needle (c # cs) then Some (c # cs) else strstr cs needle)"

text \<open>\<open>strncpy\<close> into a zeroed array of \<open>n\<close> chars: the string, cut at \<open>n\<close> and padded with NULs.\<close>

definition strncpy :: "nat \<Rightarrow> string \<Rightarrow> string" where
  "strncpy n s = take n s @ replicate (n - length s) NUL"

text \<open>\<open>strlcpy\<close>: at most \<open>n - 1\<close> chars are copied; the copy is always terminated.\<close>

definition strlcpy :: "nat \<Rightarrow> string \<Rightarrow> string" where
  "strlcpy n s = take (n - 1) s"

text \<open>
  \<open>fgets(buf, n, fp)\<close> on the unread text of a stream: a line with its newline, or its first
  \<open>n - 1\<close> chars; \<open>None\<close> at the end of the file.
\<close>

definition fgets :: "nat \<Rightarrow> string \<Rightarrow> (string \<times> string) option" where
  "fgets n s =
     (if s = [] then None
      else let l = takeWhile (\<lambda>c. c \<noteq> NL) s;
               full = (if length l < length s then l @ [NL] else l);
               line = take (n - 1) full
           in Some (line, drop (length line) s))"

text \<open>The string in a buffer: the chars before the first NUL.\<close>

abbreviation cut :: "string \<Rightarrow> string" where
  "cut \<equiv> takeWhile (\<lambda>c. c \<noteq> NUL)"

section \<open>Decimal and hexadecimal numbers\<close>

definition digit_char :: "nat \<Rightarrow> char" where
  "digit_char d = char_of (48 + d)"

fun dec_nat :: "nat \<Rightarrow> string" where
  "dec_nat n = (if n < 10 then [digit_char n] else dec_nat (n div 10) @ [digit_char (n mod 10)])"

declare dec_nat.simps [simp del]

text \<open>\<open>printf("%d")\<close>\<close>

definition show_int :: "int \<Rightarrow> string" where
  "show_int i = (if i < 0 then CHR ''-'' # dec_nat (nat (- i)) else dec_nat (nat i))"

definition digit_val :: "char \<Rightarrow> nat option" where
  "digit_val c =
     (let k = (of_char c :: nat) in if 48 \<le> k \<and> k \<le> 57 then Some (k - 48) else None)"

definition hex_val :: "char \<Rightarrow> nat option" where
  "hex_val c =
     (let k = (of_char c :: nat)
      in if 48 \<le> k \<and> k \<le> 57 then Some (k - 48)
         else if 97 \<le> k \<and> k \<le> 102 then Some (k - 87)
         else if 65 \<le> k \<and> k \<le> 70 then Some (k - 55)
         else None)"

fun read_digits :: "(char \<Rightarrow> nat option) \<Rightarrow> nat \<Rightarrow> nat \<Rightarrow> string \<Rightarrow> nat" where
  "read_digits val base acc [] = acc"
| "read_digits val base acc (c # cs) =
     (case val c of None \<Rightarrow> acc | Some d \<Rightarrow> read_digits val base (acc * base + d) cs)"

definition read_sign :: "string \<Rightarrow> bool \<times> string" where
  "read_sign s =
     (case s of
        [] \<Rightarrow> (False, [])
      | c # cs \<Rightarrow> (if c = CHR ''-'' then (True, cs) else if c = CHR ''+'' then (False, cs) else (False, s)))"

text \<open>\<open>atoi\<close>, which is \<open>(int) strtol(s, NULL, 10)\<close>: \<open>long\<close> has 32 bits and \<open>strtol\<close> saturates.\<close>

definition atoi :: "string \<Rightarrow> int" where
  "atoi s =
     (let (neg, ds) = read_sign (dropWhile isspace s);
          n = int (read_digits digit_val 10 0 ds)
      in max INT_MIN (min INT_MAX (if neg then - n else n)))"

definition skip_0x :: "string \<Rightarrow> string" where
  "skip_0x s = (if starts_with ''0x'' s \<or> starts_with ''0X'' s then drop 2 s else s)"

text \<open>\<open>strtoul(s, NULL, 16)\<close> with a 32-bit \<open>unsigned long\<close>: saturating, negated after a minus.\<close>

definition strtoul16 :: "string \<Rightarrow> u32" where
  "strtoul16 s =
     (let (neg, ds) = read_sign (dropWhile isspace s);
          n = read_digits hex_val 16 0 (skip_0x ds)
      in if n \<ge> 2 ^ 32 then - 1 else if neg then - word_of_nat n else word_of_nat n)"

section \<open>Bytes of machine words\<close>

text \<open>The little-endian layout of a 32-bit \<open>long\<close> and of a 16-bit \<open>unsigned short\<close>.\<close>

definition byte_of_char :: "char \<Rightarrow> byte" where
  "byte_of_char c = word_of_nat (of_char c)"

definition char_of_byte :: "byte \<Rightarrow> char" where
  "char_of_byte b = char_of (unat b)"

definition long_bytes :: "u32 \<Rightarrow> byte list" where
  "long_bytes w =
     [ucast w, ucast (drop_bit 8 w), ucast (drop_bit 16 w), ucast (drop_bit 24 w)]"

definition bytes_long :: "byte list \<Rightarrow> u32" where
  "bytes_long bs =
     ucast (bs ! 0) OR push_bit 8 (ucast (bs ! 1)) OR push_bit 16 (ucast (bs ! 2))
     OR push_bit 24 (ucast (bs ! 3))"

definition short_bytes :: "u16 \<Rightarrow> byte list" where
  "short_bytes w = [ucast w, ucast (drop_bit 8 w)]"

definition bytes_short :: "byte list \<Rightarrow> u16" where
  "bytes_short bs = ucast (bs ! 0) OR push_bit 8 (ucast (bs ! 1))"

section \<open>Lemmas on C strings\<close>

lemma is_cstr_simps [simp, cstr]:
  "is_cstr []"
  "is_cstr (c # cs) \<longleftrightarrow> c \<noteq> NUL \<and> is_cstr cs"
  "is_cstr (s @ t) \<longleftrightarrow> is_cstr s \<and> is_cstr t"
  by (auto simp: is_cstr_def)

lemma isspace_not_NUL [simp]: "\<not> isspace NUL"
  by (simp add: isspace_def)

lemma isspace_blank [simp]: "isspace CHR '' ''"
  by (simp add: isspace_def)

lemma takeWhile_cstr [cstr]:
  "is_cstr s \<Longrightarrow> takeWhile (\<lambda>c. c \<noteq> NUL) (s @ NUL # t) = s"
  by (induction s) auto

lemma cstr_at_append [cstr]:
  "is_cstr s \<Longrightarrow> cstr_at (pre @ s @ NUL # t) (length pre) = Some s"
  by (simp add: cstr_at_def takeWhile_cstr)

lemma cstr_at_SomeD:
  assumes "cstr_at buf i = Some s"
  shows "is_cstr s" "\<exists>t. drop i buf = s @ NUL # t"
proof -
  from assms have nul: "NUL \<in> set (drop i buf)" and s: "s = takeWhile (\<lambda>c. c \<noteq> NUL) (drop i buf)"
    by (auto simp: cstr_at_def split: if_splits)
  show "is_cstr s" using s by (auto simp: is_cstr_def dest: set_takeWhileD)
  have "drop i buf = s @ dropWhile (\<lambda>c. c \<noteq> NUL) (drop i buf)" using s by simp
  moreover obtain t where "dropWhile (\<lambda>c. c \<noteq> NUL) (drop i buf) = NUL # t"
    using nul hd_dropWhile [of "\<lambda>c. c \<noteq> NUL" "drop i buf"]
    by (cases "dropWhile (\<lambda>c. c \<noteq> NUL) (drop i buf)") (auto simp: dropWhile_eq_Nil_conv)
  ultimately show "\<exists>t. drop i buf = s @ NUL # t" by metis
qed

lemma starts_with_iff [cstr]: "starts_with p s \<longleftrightarrow> (\<exists>t. s = p @ t)"
  by (induction p s rule: starts_with.induct) auto

lemma strstr_None_iff: "strstr s p = None \<longleftrightarrow> (\<nexists>u v. s = u @ p @ v)"
proof (induction s)
  case Nil
  show ?case by simp
next
  case (Cons c cs)
  have "(\<exists>u v. c # cs = u @ p @ v) \<longleftrightarrow> starts_with p (c # cs) \<or> (\<exists>u v. cs = u @ p @ v)"
    by (auto simp: starts_with_iff Cons_eq_append_conv)
  with Cons show ?case by auto
qed

lemma length_strncpy [simp]: "length (strncpy n s) = n"
  by (simp add: strncpy_def)

text \<open>A copied string can be read back exactly when it leaves room for the terminator.\<close>

lemma cstr_at_strncpy [cstr]:
  assumes "is_cstr s"
  shows "cstr_at (strncpy n s) 0 = (if length s < n then Some s else None)"
proof (cases "length s < n")
  case True
  then obtain k where "n - length s = Suc k" by (metis Suc_diff_Suc)
  with True assms show ?thesis
    using cstr_at_append [of s "[]" "replicate k NUL"] by (simp add: strncpy_def)
next
  case False
  with assms show ?thesis
    by (auto simp: strncpy_def cstr_at_def is_cstr_def dest: in_set_takeD)
qed

lemma cstr_at_prefix: "length pre = n \<Longrightarrow> cstr_at (pre @ buf) n = cstr_at buf 0"
  by (simp add: cstr_at_def)

lemma cstr_at_extend: "cstr_at buf 0 = Some s \<Longrightarrow> cstr_at (buf @ t) 0 = Some s"
  by (auto simp: cstr_at_def takeWhile_append1 split: if_splits)

lemma cstr_at_run_on:
  "is_cstr pre \<Longrightarrow> cstr_at buf 0 = Some s \<Longrightarrow> cstr_at (pre @ buf) 0 = Some (pre @ s)"
  by (induction pre) (auto simp: cstr_at_def split: if_splits)

lemma strrchr_split:
  assumes "c \<notin> set t"
  shows "strrchr (s @ c # t) c = Some (c # t)"
proof -
  have "takeWhile (\<lambda>d. d \<noteq> c) (rev t @ c # rev s) = rev t"
    using assms by (subst takeWhile_append2) auto
  then show ?thesis by (simp add: strrchr_def)
qed

lemma fgets_decreases:
  assumes "fgets n s = Some (line, rest)" and "1 < n"
  shows "length rest < length s"
proof -
  let ?l = "takeWhile (\<lambda>c. c \<noteq> NL) s"
  let ?full = "if length ?l < length s then ?l @ [NL] else ?l"
  from assms have s: "s \<noteq> []" by (auto simp: fgets_def)
  then have "fgets n s = Some (take (n - 1) ?full, drop (length (take (n - 1) ?full)) s)"
    by (simp only: fgets_def Let_def if_False)
  with assms(1) have line: "line = take (n - 1) ?full" and rest: "rest = drop (length line) s"
    by (auto simp only: option.inject prod.inject)
  have "?full \<noteq> []" using s by auto
  with line \<open>1 < n\<close> have "0 < length line" by simp
  with s rest show ?thesis by simp
qed

lemma fgets_line:
  assumes "NL \<notin> set l" "length l + 1 < n"
  shows "fgets n (l @ NL # rest) = Some (l @ [NL], rest)"
proof -
  have "takeWhile (\<lambda>c. c \<noteq> NL) (l @ NL # rest) = l"
    using assms(1) by (induction l) auto
  moreover have "take (n - 1) (l @ [NL]) = l @ [NL]" using assms(2) by simp
  moreover have "length l < length (l @ NL # rest)" "l @ NL # rest \<noteq> []" by simp_all
  moreover have "drop (length (l @ [NL])) (l @ NL # rest) = rest" by simp
  ultimately show ?thesis by (simp only: fgets_def Let_def if_True if_False)
qed

text \<open>The strings a loop over \<open>fgets\<close> finds in its buffer, until the end of the file.\<close>

function fgets_lines :: "nat \<Rightarrow> string \<Rightarrow> string list" where
  "fgets_lines n s =
     (case fgets n s of
        None \<Rightarrow> []
      | Some (line, rest) \<Rightarrow> if n \<le> 1 then [] else cut line # fgets_lines n rest)"
  by pat_completeness auto
termination
  by (relation "measure (\<lambda>(_, s). length s)") (auto dest: fgets_decreases)

declare fgets_lines.simps [simp del]

definition unlines :: "string list \<Rightarrow> string" where
  "unlines ls = concat (map (\<lambda>l. l @ [NL]) ls)"

lemma unlines_simps [simp]: "unlines [] = []" "unlines (l # ls) = l @ NL # unlines ls"
  by (simp_all add: unlines_def)

definition text_line :: "nat \<Rightarrow> string \<Rightarrow> bool" where
  "text_line n l \<longleftrightarrow> NL \<notin> set l \<and> is_cstr l \<and> length l + 1 < n"

lemma cut_cstr: "is_cstr l \<Longrightarrow> cut l = l"
  by (auto simp: is_cstr_def takeWhile_eq_all_conv)

lemma fgets_lines_unlines:
  assumes "list_all (text_line n) ls"
  shows "fgets_lines n (unlines ls) = map (\<lambda>l. l @ [NL]) ls"
  using assms
proof (induction ls)
  case Nil
  show ?case by (simp add: fgets_lines.simps fgets_def)
next
  case (Cons l ls)
  then have l: "NL \<notin> set l" "is_cstr l" "length l + 1 < n" by (simp_all add: text_line_def)
  have "cut (l @ [NL]) = l @ [NL]" using l(2) by (intro cut_cstr) simp
  with Cons l show ?case by (subst fgets_lines.simps) (simp add: fgets_line)
qed

section \<open>Lemmas on decimal numbers\<close>

lemma digit_val_char [simp]: "d < 10 \<Longrightarrow> digit_val (digit_char d) = Some d"
  by (simp add: digit_val_def digit_char_def)

lemma read_digits_append:
  assumes "\<forall>c \<in> set s. val c \<noteq> None"
  shows "read_digits val base acc (s @ t) = read_digits val base (read_digits val base acc s) t"
  using assms by (induction s arbitrary: acc) auto

lemma dec_nat_digits: "c \<in> set (dec_nat n) \<Longrightarrow> \<exists>d < 10. c = digit_char d"
proof (induction n rule: dec_nat.induct)
  case (1 n)
  show ?case
  proof (cases "n < 10")
    case True
    with "1.prems" show ?thesis by (auto simp: dec_nat.simps [of n])
  next
    case False
    with 1 show ?thesis
      by (auto simp: dec_nat.simps [of n] intro: exI [of _ "n mod 10"])
  qed
qed

lemma dec_nat_not_Nil [simp]: "dec_nat n \<noteq> []"
  by (simp add: dec_nat.simps [of n])

lemma digit_char_not_special:
  assumes "d < 10"
  shows "digit_char d \<noteq> NUL" "\<not> isspace (digit_char d)" "digit_char d \<noteq> CHR ''-''" "digit_char d \<noteq> CHR ''+''"
proof -
  have *: "of_char (digit_char d) = 48 + d"
    using assms by (simp add: digit_char_def)
  then have **: "digit_char d \<noteq> c" if "of_char c \<noteq> 48 + d" for c
    using that by metis
  show "digit_char d \<noteq> NUL" "digit_char d \<noteq> CHR ''-''" "digit_char d \<noteq> CHR ''+''"
    by (rule **; simp)+
  show "\<not> isspace (digit_char d)"
    unfolding isspace_def by (auto dest!: arg_cong [where f = "of_char :: char \<Rightarrow> nat"] simp: *)
qed

lemma dec_nat_cstr [simp]: "is_cstr (dec_nat n)"
  unfolding is_cstr_def using dec_nat_digits digit_char_not_special(1) by metis

lemma read_digits_dec_nat [simp]: "read_digits digit_val 10 0 (dec_nat n) = n"
proof (induction n rule: dec_nat.induct)
  case (1 n)
  show ?case
  proof (cases "n < 10")
    case True
    then show ?thesis by (simp add: dec_nat.simps [of n])
  next
    case False
    have "\<forall>c \<in> set (dec_nat (n div 10)). digit_val c \<noteq> None"
      using dec_nat_digits by fastforce
    with False 1 show ?thesis
      by (simp add: dec_nat.simps [of n] read_digits_append)
  qed
qed

lemma dec_nat_head:
  obtains d cs where "dec_nat n = digit_char d # cs" "d < 10"
proof (cases "dec_nat n")
  case Nil
  then show ?thesis by simp
next
  case (Cons c cs)
  then have "c \<in> set (dec_nat n)" by simp
  with that Cons show ?thesis using dec_nat_digits by blast
qed

lemma length_dec_nat_le:
  assumes "n < 10 ^ k" "0 < k"
  shows "length (dec_nat n) \<le> k"
  using assms
proof (induction n arbitrary: k rule: dec_nat.induct)
  case (1 n)
  show ?case
  proof (cases "n < 10")
    case True
    with "1.prems" show ?thesis by (simp add: dec_nat.simps [of n])
  next
    case False
    with "1.prems" obtain j where k: "k = Suc j" by (cases k) auto
    with "1.prems" have lt: "n div 10 < 10 ^ j"
      by (simp add: less_mult_imp_div_less mult.commute)
    with False have "0 < j" by (cases j) auto
    with 1 False k lt have "length (dec_nat (n div 10)) \<le> j" by blast
    with False k show ?thesis by (simp add: dec_nat.simps [of n])
  qed
qed

lemma show_int_cstr [simp]: "is_cstr (show_int i)"
  by (simp add: show_int_def)

lemma show_int_not_Nil [simp]: "show_int i \<noteq> []"
  by (simp add: show_int_def)

lemma int32_id: "is_int32 i \<Longrightarrow> int32 i = i"
proof -
  assume "is_int32 i"
  then have "- (2 ^ 31) \<le> i" "i < 2 ^ 31" by (simp_all add: is_int32_def)
  then show ?thesis unfolding int32_def by (simp add: signed_of_int signed_take_bit_int_eq_self)
qed

lemma length_show_int_le: "is_int32 i \<Longrightarrow> length (show_int i) \<le> 11"
proof (cases "i < 0")
  case True
  assume "is_int32 i"
  with True have "nat (- i) < 10 ^ 10" by (simp add: is_int32_def)
  with True show ?thesis
    using length_dec_nat_le [of "nat (- i)" 10] by (simp add: show_int_def)
next
  case False
  assume "is_int32 i"
  with False have "nat i < 10 ^ 10" by (simp add: is_int32_def)
  with False show ?thesis
    using length_dec_nat_le [of "nat i" 10] by (simp add: show_int_def)
qed

text \<open>What \<open>%d\<close> prints, \<open>atoi\<close> reads back.\<close>

lemma atoi_show_int:
  assumes "is_int32 i"
  shows "atoi (show_int i) = i"
proof (cases "i < 0")
  case True
  have "dropWhile isspace (show_int i) = show_int i"
    using True by (simp add: show_int_def isspace_def)
  with True assms show ?thesis
    by (simp add: atoi_def read_sign_def show_int_def is_int32_def)
next
  case False
  obtain d cs where d: "dec_nat (nat i) = digit_char d # cs" "d < 10"
    by (rule dec_nat_head)
  note nd = digit_char_not_special [OF d(2)]
  have "read_digits digit_val 10 0 (digit_char d # cs) = nat i"
    using read_digits_dec_nat [of "nat i"] d(1) by simp
  with False d nd assms show ?thesis
    by (simp add: atoi_def read_sign_def show_int_def is_int32_def)
qed

section \<open>Lemmas on the byte layout\<close>

lemma char_of_byte_of_char [simp]: "char_of_byte (byte_of_char c) = c"
proof -
  have "unat (word_of_nat (of_char c) :: byte) = of_char c"
    by (simp add: unat_of_nat)
  then show ?thesis by (simp add: char_of_byte_def byte_of_char_def)
qed

lemma byte_of_char_of_byte [simp]: "byte_of_char (char_of_byte b) = b"
proof -
  have "(of_char (char_of (unat b)) :: nat) = unat b"
    using unsigned_less [of b, where ?'a = nat] by simp
  then show ?thesis by (simp add: char_of_byte_def byte_of_char_def)
qed

lemma map_char_of_byte_of_char [simp]: "map char_of_byte (map byte_of_char s) = s"
  by (induction s) auto

lemma char_of_byte_comp [simp]: "char_of_byte \<circ> byte_of_char = id"
  by (simp add: fun_eq_iff)

lemma length_long_bytes [simp]: "length (long_bytes w) = 4"
  by (simp add: long_bytes_def)

lemma length_short_bytes [simp]: "length (short_bytes w) = 2"
  by (simp add: short_bytes_def)

lemma bytes_long_long_bytes [simp, bytes_of]: "bytes_long (long_bytes w) = w"
proof (rule bit_word_eqI)
  fix n
  assume "n < LENGTH(32)"
  then have "n < 8 \<or> 8 \<le> n \<and> n < 16 \<or> 16 \<le> n \<and> n < 24 \<or> 24 \<le> n \<and> n < 32" by auto
  then show "bit (bytes_long (long_bytes w)) n = bit w n"
    by (elim disjE; simp add: bytes_long_def long_bytes_def bit_or_iff bit_push_bit_iff
          bit_drop_bit_eq bit_ucast_iff; linarith)
qed

lemma long_bytes_bytes_long [bytes_of]:
  "long_bytes (bytes_long [a, b, c, d]) = [a, b, c, d]"
proof -
  have "ucast (bytes_long [a, b, c, d]) = a"
    by (rule bit_word_eqI) (auto simp: bytes_long_def bit_simps dest: bit_imp_le_length)
  moreover have "ucast (drop_bit 8 (bytes_long [a, b, c, d])) = b"
    by (rule bit_word_eqI) (auto simp: bytes_long_def bit_simps dest: bit_imp_le_length)
  moreover have "ucast (drop_bit 16 (bytes_long [a, b, c, d])) = c"
    by (rule bit_word_eqI) (auto simp: bytes_long_def bit_simps dest: bit_imp_le_length)
  moreover have "ucast (drop_bit 24 (bytes_long [a, b, c, d])) = d"
    by (rule bit_word_eqI) (auto simp: bytes_long_def bit_simps dest: bit_imp_le_length)
  ultimately show ?thesis by (simp add: long_bytes_def)
qed

lemma long_bytes_inverse [bytes_of]:
  assumes "length bs = 4"
  shows "long_bytes (bytes_long bs) = bs"
proof -
  from assms obtain a b c d where "bs = [a, b, c, d]"
    by (auto simp: numeral_eq_Suc length_Suc_conv)
  then show ?thesis by (simp add: long_bytes_bytes_long)
qed

lemma bytes_short_short_bytes [simp, bytes_of]: "bytes_short (short_bytes w) = w"
  by (rule bit_word_eqI)
    (auto simp: bytes_short_def short_bytes_def bit_simps)

end
