(* ===== verification/Ptrace.thy ===== *)
theory Ptrace
  imports Prelude
begin

text \<open>
  The ptrace layer of \<open>src/xloaderFramework/xloaderd/xloader.c\<close>: the word-by-word transfer of data
  to and from a traced process (\<open>ptrace_readdata\<close>, \<open>ptrace_writedata\<close>), the register requests,
  and the remote function call of the ARM build (\<open>ptrace_call\<close>, \<open>ptrace_call2\<close>).

  The two transfer loops are written over the requests \<open>PTRACE_PEEKTEXT\<close> and
  \<open>PTRACE_POKETEXT\<close>; the locale \<open>text_memory\<close> states what the loops need of them.  The
  record \<open>tracee\<close> is the traced process as the kernel shows it to the tracer.  What the process does
  while it runs is not code of the repository: a run is any entry of the list \<open>p_runs\<close>, the stop status
  with the registers, the memory and the memory map at that stop, and the outcomes of the requests that
  can fail are any list \<open>p_results\<close>.  A wait for a stop that never comes is \<open>None\<close>.  \<open>p_reqs\<close>
  is the history of the control requests the tracer made; a \<open>PTRACE_CONT\<close> in it carries the registers and
  the memory the process was let run with.
\<close>

section \<open>Transfer of data, word by word\<close>

type_synonym memory = "u32 \<Rightarrow> byte option"

fun read_words :: "('s \<Rightarrow> u32 \<Rightarrow> u32) \<Rightarrow> 's \<Rightarrow> u32 \<Rightarrow> nat \<Rightarrow> byte list" where
  "read_words peek s src 0 = []"
| "read_words peek s src (Suc j) = long_bytes (peek s src) @ read_words peek s (src + 4) j"

definition ptrace_readdata :: "('s \<Rightarrow> u32 \<Rightarrow> u32) \<Rightarrow> 's \<Rightarrow> u32 \<Rightarrow> nat \<Rightarrow> byte list" where
  "ptrace_readdata peek s src sz =
     (let j = sz div 4; remain = sz mod 4
      in read_words peek s src j @
         (if remain > 0 then take remain (long_bytes (peek s (src + 4 * word_of_nat j))) else []))"

fun write_words :: "('s \<Rightarrow> u32 \<Rightarrow> u32 \<Rightarrow> 's) \<Rightarrow> 's \<Rightarrow> u32 \<Rightarrow> byte list \<Rightarrow> nat \<Rightarrow> 's" where
  "write_words poke s dest laddr 0 = s"
| "write_words poke s dest laddr (Suc j) =
     write_words poke (poke s dest (bytes_long (take 4 laddr))) (dest + 4) (drop 4 laddr) j"

definition ptrace_writedata ::
  "('s \<Rightarrow> u32 \<Rightarrow> u32) \<Rightarrow> ('s \<Rightarrow> u32 \<Rightarrow> u32 \<Rightarrow> 's) \<Rightarrow> 's \<Rightarrow> u32 \<Rightarrow> byte list \<Rightarrow> nat \<Rightarrow> 's" where
  "ptrace_writedata peek poke s dest data sz =
     (let j = sz div 4; remain = sz mod 4;
          s1 = write_words poke s dest data j;
          dest1 = dest + 4 * word_of_nat j
      in if remain > 0
         then poke s1 dest1
                (bytes_long (take remain (drop (4 * j) data) @ drop remain (long_bytes (peek s1 dest1))))
         else s1)"

section \<open>The traced process\<close>

text \<open>\<open>struct pt_regs\<close> of ARM: \<open>uregs[0..17]\<close>, with \<open>sp\<close>, \<open>lr\<close>, \<open>pc\<close>, \<open>cpsr\<close> at 13 to 16.\<close>

record pt_regs =
  uregs :: "nat \<Rightarrow> u32"

abbreviation ARM_r0 :: "pt_regs \<Rightarrow> u32" where "ARM_r0 r \<equiv> uregs r 0"
abbreviation ARM_sp :: "pt_regs \<Rightarrow> u32" where "ARM_sp r \<equiv> uregs r 13"
abbreviation ARM_lr :: "pt_regs \<Rightarrow> u32" where "ARM_lr r \<equiv> uregs r 14"
abbreviation ARM_pc :: "pt_regs \<Rightarrow> u32" where "ARM_pc r \<equiv> uregs r 15"
abbreviation ARM_cpsr :: "pt_regs \<Rightarrow> u32" where "ARM_cpsr r \<equiv> uregs r 16"

definition CPSR_T_MASK :: u32 where
  "CPSR_T_MASK = push_bit 5 1"

datatype ptrace_req =
    PTRACE_ATTACH
  | PTRACE_GETREGS
  | PTRACE_SETREGS pt_regs
  | PTRACE_CONT pt_regs memory
  | PTRACE_DETACH

text \<open>A run of the process up to its next stop.\<close>

record run =
  r_status :: int
  r_regs :: pt_regs
  r_mem :: memory
  r_maps :: string

record tracee =
  p_regs :: pt_regs
  p_mem :: memory
  p_maps :: string
  p_attached :: bool
  p_results :: "bool list"
  p_runs :: "run list"
  p_reqs :: "ptrace_req list"

definition mapped :: "memory \<Rightarrow> u32 \<Rightarrow> nat \<Rightarrow> bool" where
  "mapped m a n \<longleftrightarrow> list_all (\<lambda>k. m (a + word_of_nat k) \<noteq> None) [0..<n]"

definition overlay :: "memory \<Rightarrow> u32 \<Rightarrow> byte list \<Rightarrow> memory" where
  "overlay m a bs = (\<lambda>x. if unat (x - a) < length bs then Some (bs ! unat (x - a)) else m x)"

definition view_bytes :: "memory \<Rightarrow> u32 \<Rightarrow> nat \<Rightarrow> byte list" where
  "view_bytes m a n = map (\<lambda>k. the (m (a + word_of_nat k))) [0..<n]"

text \<open>
  The kernel's side of the two data requests: a peek of an unmapped word fails with \<open>-1\<close>, a poke of one
  changes nothing; \<open>xloader.c\<close> checks neither.
\<close>

definition peektext :: "tracee \<Rightarrow> u32 \<Rightarrow> u32" where
  "peektext t a = (if mapped (p_mem t) a 4 then bytes_long (view_bytes (p_mem t) a 4) else - 1)"

definition poketext :: "tracee \<Rightarrow> u32 \<Rightarrow> u32 \<Rightarrow> tracee" where
  "poketext t a w =
     (if mapped (p_mem t) a 4 then t\<lparr>p_mem := overlay (p_mem t) a (long_bytes w)\<rparr> else t)"

text \<open>The outcome of the next request that can fail; requests beyond the list succeed.\<close>

definition request :: "ptrace_req \<Rightarrow> tracee \<Rightarrow> bool \<times> tracee" where
  "request q t =
     (case p_results t of
        [] \<Rightarrow> (True, t\<lparr>p_reqs := p_reqs t @ [q]\<rparr>)
      | r # rs \<Rightarrow> (r, t\<lparr>p_reqs := p_reqs t @ [q], p_results := rs\<rparr>))"

definition waitpid :: "tracee \<Rightarrow> (int \<times> tracee) option" where
  "waitpid t =
     (case p_runs t of
        [] \<Rightarrow> None
      | r # rs \<Rightarrow>
          Some (r_status r, t\<lparr>p_regs := r_regs r, p_mem := r_mem r, p_maps := r_maps r, p_runs := rs\<rparr>))"

section \<open>Register and control requests\<close>

definition ptrace_getregs :: "tracee \<Rightarrow> pt_regs option \<times> tracee" where
  "ptrace_getregs t =
     (case request PTRACE_GETREGS t of
        (False, t1) \<Rightarrow> (None, t1)
      | (True, t1) \<Rightarrow> (Some (p_regs t1), t1))"

definition ptrace_setregs :: "pt_regs \<Rightarrow> tracee \<Rightarrow> bool \<times> tracee" where
  "ptrace_setregs regs t =
     (case request (PTRACE_SETREGS regs) t of
        (False, t1) \<Rightarrow> (False, t1)
      | (True, t1) \<Rightarrow> (True, t1\<lparr>p_regs := regs\<rparr>))"

definition ptrace_continue :: "tracee \<Rightarrow> bool \<times> tracee" where
  "ptrace_continue t = request (PTRACE_CONT (p_regs t) (p_mem t)) t"

definition ptrace_attach :: "tracee \<Rightarrow> (bool \<times> tracee) option" where
  "ptrace_attach t =
     (case request PTRACE_ATTACH t of
        (False, t1) \<Rightarrow> Some (False, t1)
      | (True, t1) \<Rightarrow>
          (case waitpid (t1\<lparr>p_attached := True\<rparr>) of
             None \<Rightarrow> None
           | Some (status, t2) \<Rightarrow> Some (True, t2)))"

definition ptrace_detach :: "tracee \<Rightarrow> bool \<times> tracee" where
  "ptrace_detach t =
     (case request PTRACE_DETACH t of
        (False, t1) \<Rightarrow> (False, t1)
      | (True, t1) \<Rightarrow> (True, t1\<lparr>p_attached := False\<rparr>))"

section \<open>Calling a function in the traced process\<close>

text \<open>The stop a call ends with: stopped by SIGSEGV, at the return address 0.\<close>

definition CALL_STOP :: int where
  "CALL_STOP = 0xb7f"

text \<open>The loop \<open>waitpid; while (stat != 0xb7f) { continue; waitpid }\<close>.\<close>

function wait_call :: "tracee \<Rightarrow> (bool \<times> tracee) option" where
  "wait_call t =
     (case waitpid t of
        None \<Rightarrow> None
      | Some (stat, t1) \<Rightarrow>
          if stat = CALL_STOP then Some (True, t1)
          else (case ptrace_continue t1 of
                  (False, t2) \<Rightarrow> Some (False, t2)
                | (True, t2) \<Rightarrow> wait_call t2))"
  by pat_completeness auto
termination
  by (relation "measure (\<lambda>t. length (p_runs t))")
    (auto simp: waitpid_def ptrace_continue_def request_def split: list.splits)

declare wait_call.simps [simp del]

definition set_params :: "u32 list \<Rightarrow> pt_regs \<Rightarrow> pt_regs" where
  "set_params params regs =
     regs\<lparr>uregs := \<lambda>k. if k < length params \<and> k < 4 then params ! k else uregs regs k\<rparr>"

definition set_target :: "u32 \<Rightarrow> pt_regs \<Rightarrow> pt_regs" where
  "set_target addr regs =
     (if addr AND 1 \<noteq> 0
      then regs\<lparr>uregs := (uregs regs)(15 := addr AND NOT 1, 16 := ARM_cpsr regs OR CPSR_T_MASK)\<rparr>
      else regs\<lparr>uregs := (uregs regs)(15 := addr, 16 := ARM_cpsr regs AND NOT CPSR_T_MASK)\<rparr>)"

text \<open>
  The part of \<open>ptrace_call\<close> before the registers are written: the first four parameters go to
  \<open>r0\<close>--\<open>r3\<close>, the others are pushed on the stack of the process, \<open>lr\<close> is 0.
\<close>

definition call_setup :: "u32 \<Rightarrow> u32 list \<Rightarrow> pt_regs \<Rightarrow> tracee \<Rightarrow> pt_regs \<times> tracee" where
  "call_setup addr params regs t =
     (let num_params = length params;
          i = min num_params 4;
          regs1 = set_params params regs;
          (regs2, t1) =
            (if i < num_params
             then let sp = ARM_sp regs1 - word_of_nat (num_params - i) * 4
                  in (regs1\<lparr>uregs := (uregs regs1)(13 := sp)\<rparr>,
                      ptrace_writedata peektext poketext t sp
                        (concat (map long_bytes (drop i params))) ((num_params - i) * 4))
             else (regs1, t));
          regs3 = set_target addr regs2
      in (regs3\<lparr>uregs := (uregs regs3)(14 := 0)\<rparr>, t1))"

definition ptrace_call ::
  "u32 \<Rightarrow> u32 list \<Rightarrow> pt_regs \<Rightarrow> tracee \<Rightarrow> (bool \<times> pt_regs \<times> tracee) option" where
  "ptrace_call addr params regs t =
     (let (regs1, t1) = call_setup addr params regs t
      in case ptrace_setregs regs1 t1 of
           (False, t2) \<Rightarrow> Some (False, regs1, t2)
         | (True, t2) \<Rightarrow>
             (case ptrace_continue t2 of
                (False, t3) \<Rightarrow> Some (False, regs1, t3)
              | (True, t3) \<Rightarrow>
                  (case wait_call t3 of
                     None \<Rightarrow> None
                   | Some (ok, t4) \<Rightarrow> Some (ok, regs1, t4))))"

definition ptrace_retval :: "pt_regs \<Rightarrow> u32" where
  "ptrace_retval regs = ARM_r0 regs"

definition ptrace_ip :: "pt_regs \<Rightarrow> u32" where
  "ptrace_ip regs = ARM_pc regs"

definition ptrace_call2 ::
  "u32 \<Rightarrow> u32 list \<Rightarrow> pt_regs \<Rightarrow> tracee \<Rightarrow> (bool \<times> pt_regs \<times> tracee) option" where
  "ptrace_call2 func_addr parameters regs t =
     (case ptrace_call func_addr parameters regs t of
        None \<Rightarrow> None
      | Some (False, regs1, t1) \<Rightarrow> Some (False, regs1, t1)
      | Some (True, regs1, t1) \<Rightarrow>
          (case ptrace_getregs t1 of
             (None, t2) \<Rightarrow> Some (False, regs1, t2)
           | (Some regs2, t2) \<Rightarrow> Some (True, regs2, t2)))"

section \<open>Overlays of memory\<close>

lemma unat_word_of_nat: "n < 2 ^ 32 \<Longrightarrow> unat (word_of_nat n :: u32) = n"
  by (simp add: unat_of_nat)

lemma unat_sub_of_nat:
  fixes y :: u32
  assumes "n < 2 ^ 32"
  shows "unat (y - word_of_nat n) = (if n \<le> unat y then unat y - n else 2 ^ 32 + unat y - n)"
  unfolding unat_sub_if' unat_word_of_nat [OF assms]
  by (simp only: add.commute len_num0 len_num1 len_bit0 len_bit1) simp

lemma mapped_iff: "mapped m a n \<longleftrightarrow> (\<forall>k < n. m (a + word_of_nat k) \<noteq> None)"
  by (auto simp: mapped_def list_all_iff)

lemma mapped_le: "mapped m a n \<Longrightarrow> k \<le> n \<Longrightarrow> mapped m a k"
  by (auto simp: mapped_iff)

lemma mapped_shift: "mapped m a (i + n) \<Longrightarrow> mapped m (a + word_of_nat i) n"
  unfolding mapped_iff by (metis add.assoc nat_add_left_cancel_less of_nat_add)

lemma mapped_overlay: "mapped m a n \<Longrightarrow> mapped (overlay m b bs) a n"
  by (auto simp: mapped_iff overlay_def)

lemma overlay_Nil [simp]: "overlay m a [] = m"
  by (simp add: overlay_def)

lemma overlay_append:
  assumes "length bs + length cs \<le> 2 ^ 32"
  shows "overlay (overlay m a bs) (a + word_of_nat (length bs)) cs = overlay m a (bs @ cs)"
proof (cases "cs = []")
  case True
  then show ?thesis by simp
next
  case False
  with assms have len: "length bs < 2 ^ 32" by (cases cs) auto
  show ?thesis
  proof (rule ext)
    fix x
    have "unat (x - (a + word_of_nat (length bs))) =
        (if length bs \<le> unat (x - a) then unat (x - a) - length bs
         else 2 ^ 32 + unat (x - a) - length bs)"
      using unat_sub_of_nat [OF len, of "x - a"] by (simp add: diff_diff_eq)
    with assms show "overlay (overlay m a bs) (a + word_of_nat (length bs)) cs x = overlay m a (bs @ cs) x"
      by (auto simp: overlay_def nth_append)
  qed
qed

lemma overlay_at:
  assumes "k < length bs" "length bs \<le> 2 ^ 32"
  shows "overlay m a bs (a + word_of_nat k) = Some (bs ! k)"
proof -
  have "unat (word_of_nat k :: u32) = k" using assms by (simp add: unat_word_of_nat)
  then show ?thesis using assms by (simp add: overlay_def)
qed

lemma overlay_outside: "length bs \<le> unat (x - a) \<Longrightarrow> overlay m a bs x = m x"
  by (simp add: overlay_def)

lemma length_view_bytes [simp]: "length (view_bytes m a n) = n"
  by (simp add: view_bytes_def)

lemma view_bytes_add:
  "view_bytes m a (i + n) = view_bytes m a i @ view_bytes m (a + word_of_nat i) n"
  by (rule nth_equalityI) (auto simp: view_bytes_def nth_append algebra_simps simp flip: of_nat_add)

lemma view_bytes_take: "i \<le> n \<Longrightarrow> take i (view_bytes m a n) = view_bytes m a i"
  by (rule nth_equalityI) (auto simp: view_bytes_def)

lemma view_bytes_overlay:
  assumes "length bs \<le> 2 ^ 32"
  shows "view_bytes (overlay m a bs) a (length bs) = bs"
  by (rule nth_equalityI) (auto simp: view_bytes_def overlay_at [OF _ assms])

text \<open>Writing back what the memory holds changes nothing.\<close>

lemma overlay_view_drop:
  assumes "mapped m a n" "length bs \<le> n" "n \<le> 2 ^ 32"
  shows "overlay m a (bs @ drop (length bs) (view_bytes m a n)) = overlay m a bs"
proof (rule ext)
  fix x
  let ?k = "unat (x - a)"
  have x: "a + word_of_nat ?k = x" by simp
  have "?k < n \<Longrightarrow> m x = Some (view_bytes m a n ! ?k)"
    using assms(1) x by (auto simp: mapped_iff view_bytes_def)
  then show "overlay m a (bs @ drop (length bs) (view_bytes m a n)) x = overlay m a bs x"
    using assms(2) by (auto simp: overlay_def nth_append)
qed

section \<open>The contract of peek and poke, and the transfer loops\<close>

text \<open>The number of bytes the loops touch for a transfer of \<open>sz\<close> bytes: whole words.\<close>

definition word_span :: "nat \<Rightarrow> nat" where
  "word_span sz = 4 * ((sz + 3) div 4)"

lemma word_span_bounds: "sz \<le> word_span sz" "word_span sz < sz + 4"
  by (auto simp: word_span_def)

lemma word_span_split:
  "word_span sz = 4 * (sz div 4) + (if sz mod 4 > 0 then 4 else 0)"
  unfolding word_span_def by presburger

locale text_memory =
  fixes peek :: "'s \<Rightarrow> u32 \<Rightarrow> u32"
    and poke :: "'s \<Rightarrow> u32 \<Rightarrow> u32 \<Rightarrow> 's"
    and view :: "'s \<Rightarrow> memory"
  assumes peek_bytes: "mapped (view s) a 4 \<Longrightarrow> long_bytes (peek s a) = view_bytes (view s) a 4"
    and poke_view: "mapped (view s) a 4 \<Longrightarrow> view (poke s a w) = overlay (view s) a (long_bytes w)"
begin

lemma read_words_bytes:
  "mapped (view s) src (4 * j) \<Longrightarrow> read_words peek s src j = view_bytes (view s) src (4 * j)"
proof (induction j arbitrary: src)
  case 0
  show ?case by (simp add: view_bytes_def)
next
  case (Suc j)
  have "mapped (view s) (src + 4) (4 * j)" "mapped (view s) src 4"
    using Suc.prems mapped_shift [of "view s" src 4 "4 * j"] mapped_le by auto
  then show ?case
    using Suc.IH view_bytes_add [of "view s" src 4 "4 * j"] peek_bytes by simp
qed

lemma readdata_bytes:
  assumes "mapped (view s) src (word_span sz)"
  shows "ptrace_readdata peek s src sz = view_bytes (view s) src sz"
proof -
  let ?j = "sz div 4" and ?r = "sz mod 4"
  have whole: "mapped (view s) src (4 * ?j)"
    using assms mapped_le by (auto simp: word_span_split)
  show ?thesis
  proof (cases "?r > 0")
    case True
    with assms have "mapped (view s) (src + word_of_nat (4 * ?j)) 4"
      by (intro mapped_shift) (simp add: word_span_split)
    then have "take ?r (long_bytes (peek s (src + 4 * word_of_nat ?j))) =
        view_bytes (view s) (src + word_of_nat (4 * ?j)) ?r"
      using True by (simp add: peek_bytes view_bytes_take)
    moreover have "view_bytes (view s) src (4 * ?j + ?r) =
        view_bytes (view s) src (4 * ?j) @ view_bytes (view s) (src + word_of_nat (4 * ?j)) ?r"
      by (rule view_bytes_add)
    ultimately show ?thesis
      using True read_words_bytes [OF whole] by (simp add: ptrace_readdata_def Let_def)
  next
    case False
    then have "sz = 4 * ?j" by auto
    with False show ?thesis
      using read_words_bytes [OF whole] by (simp add: ptrace_readdata_def Let_def)
  qed
qed

lemma write_words_view:
  assumes "mapped (view s) dest (4 * j)" "4 * j \<le> length data" "4 * j \<le> 2 ^ 32"
  shows "view (write_words poke s dest data j) = overlay (view s) dest (take (4 * j) data)"
  using assms
proof (induction j arbitrary: s dest data)
  case 0
  show ?case by simp
next
  case (Suc j)
  let ?bs = "take 4 data" and ?s = "poke s dest (bytes_long (take 4 data))"
  have len: "length ?bs = 4" using Suc.prems by simp
  have first: "view ?s = overlay (view s) dest ?bs"
    using Suc.prems mapped_le [of "view s" dest "4 * Suc j" 4] len
    by (simp add: poke_view long_bytes_inverse)
  have "mapped (view ?s) (dest + 4) (4 * j)"
    using Suc.prems mapped_shift [of "view s" dest 4 "4 * j"] by (simp add: first mapped_overlay)
  then have "view (write_words poke ?s (dest + 4) (drop 4 data) j) =
      overlay (overlay (view s) dest ?bs) (dest + 4) (take (4 * j) (drop 4 data))"
    using Suc.IH [of ?s "dest + 4" "drop 4 data"] Suc.prems by (simp add: first)
  also have "\<dots> = overlay (view s) dest (?bs @ take (4 * j) (drop 4 data))"
    using overlay_append [of ?bs "take (4 * j) (drop 4 data)" "view s" dest] Suc.prems len by simp
  also have "?bs @ take (4 * j) (drop 4 data) = take (4 * Suc j) data"
    using take_add [of 4 "4 * j" data] by (simp add: algebra_simps)
  finally show ?case by simp
qed

lemma writedata_view:
  assumes "mapped (view s) dest (word_span sz)" "sz \<le> length data" "word_span sz \<le> 2 ^ 32"
  shows "view (ptrace_writedata peek poke s dest data sz) = overlay (view s) dest (take sz data)"
proof -
  let ?j = "sz div 4" and ?r = "sz mod 4"
  let ?s = "write_words poke s dest data ?j" and ?d = "dest + 4 * word_of_nat ?j"
  have span: "4 * ?j \<le> word_span sz" by (simp add: word_span_split)
  have v: "view ?s = overlay (view s) dest (take (4 * ?j) data)"
    using assms span by (intro write_words_view) (auto intro: mapped_le)
  show ?thesis
  proof (cases "?r > 0")
    case True
    let ?t = "take ?r (drop (4 * ?j) data)"
    have "?r \<le> length data - 4 * ?j" using assms(2) mult_div_mod_eq [of 4 sz] by linarith
    then have len: "length ?t = ?r" by (simp add: min_absorb2)
    have d: "?d = dest + word_of_nat (length (take (4 * ?j) data))" using assms(2) by simp
    have "mapped (view s) (dest + word_of_nat (4 * ?j)) 4"
      using assms(1) True by (intro mapped_shift) (simp add: word_span_split)
    then have m: "mapped (view ?s) ?d 4" by (simp add: v mapped_overlay)
    have "view (poke ?s ?d (bytes_long (?t @ drop ?r (long_bytes (peek ?s ?d))))) =
        overlay (view ?s) ?d (?t @ drop (length ?t) (view_bytes (view ?s) ?d 4))"
      using m len by (simp add: poke_view peek_bytes long_bytes_inverse)
    also have "\<dots> = overlay (view ?s) ?d ?t"
      using m len by (intro overlay_view_drop) auto
    also have "\<dots> = overlay (view s) dest (take (4 * ?j) data @ ?t)"
      unfolding v d using assms(2,3) len span True
      by (intro overlay_append) (simp add: word_span_split)
    also have "take (4 * ?j) data @ ?t = take sz data"
      using take_add [of "4 * ?j" ?r data] by simp
    finally show ?thesis using True by (simp add: ptrace_writedata_def Let_def)
  next
    case False
    then have "4 * ?j = sz" by auto
    with False v show ?thesis by (simp add: ptrace_writedata_def Let_def)
  qed
qed

lemma read_back:
  assumes "mapped (view s) dest (word_span sz)" "sz \<le> length data" "word_span sz \<le> 2 ^ 32"
  shows "ptrace_readdata peek (ptrace_writedata peek poke s dest data sz) dest sz = take sz data"
proof -
  let ?s = "ptrace_writedata peek poke s dest data sz"
  have v: "view ?s = overlay (view s) dest (take sz data)" by (rule writedata_view [OF assms])
  then have "mapped (view ?s) dest (word_span sz)" using assms by (simp add: mapped_overlay)
  then have "ptrace_readdata peek ?s dest sz = view_bytes (view ?s) dest sz"
    by (rule readdata_bytes)
  also have "\<dots> = take sz data"
    using v assms word_span_bounds(1) [of sz] view_bytes_overlay [of "take sz data" "view s" dest]
    by (simp add: min_absorb2)
  finally show ?thesis .
qed

end

text \<open>The kernel's peek and poke of a traced process meet the contract.\<close>

interpretation tm: text_memory peektext poketext p_mem
proof
  fix t :: tracee and a :: u32
  assume "mapped (p_mem t) a 4"
  then show "long_bytes (peektext t a) = view_bytes (p_mem t) a 4"
    by (simp add: peektext_def long_bytes_inverse)
next
  fix t :: tracee and a w :: u32
  assume "mapped (p_mem t) a 4"
  then show "p_mem (poketext t a w) = overlay (p_mem t) a (long_bytes w)"
    by (simp add: poketext_def)
qed

section \<open>Frame lemmas: data transfer leaves the control state alone\<close>

lemma poketext_frame [simp]:
  "p_regs (poketext t a w) = p_regs t" "p_attached (poketext t a w) = p_attached t"
  "p_results (poketext t a w) = p_results t" "p_runs (poketext t a w) = p_runs t"
  "p_reqs (poketext t a w) = p_reqs t" "p_maps (poketext t a w) = p_maps t"
  by (simp_all add: poketext_def)

lemma write_words_frame [simp]:
  "p_regs (write_words poketext t d bs j) = p_regs t" "p_attached (write_words poketext t d bs j) = p_attached t"
  "p_results (write_words poketext t d bs j) = p_results t" "p_runs (write_words poketext t d bs j) = p_runs t"
  "p_reqs (write_words poketext t d bs j) = p_reqs t" "p_maps (write_words poketext t d bs j) = p_maps t"
  by (induction j arbitrary: t d bs) simp_all

lemma writedata_frame [simp]:
  "p_regs (ptrace_writedata peektext poketext t d bs n) = p_regs t"
  "p_attached (ptrace_writedata peektext poketext t d bs n) = p_attached t"
  "p_results (ptrace_writedata peektext poketext t d bs n) = p_results t"
  "p_runs (ptrace_writedata peektext poketext t d bs n) = p_runs t"
  "p_reqs (ptrace_writedata peektext poketext t d bs n) = p_reqs t"
  "p_maps (ptrace_writedata peektext poketext t d bs n) = p_maps t"
  by (simp_all add: ptrace_writedata_def Let_def)

section \<open>The calling convention of a remote call\<close>

text \<open>
  The word a callee reads as its argument \<open>k\<close> under the ARM procedure call standard: a register
  for the first four, the stack for the others.
\<close>

definition call_argument :: "pt_regs \<Rightarrow> memory \<Rightarrow> nat \<Rightarrow> u32" where
  "call_argument regs m k =
     (if k < 4 then uregs regs k
      else bytes_long (view_bytes m (ARM_sp regs + 4 * word_of_nat (k - 4)) 4))"

lemma length_concat_long_bytes [simp]: "length (concat (map long_bytes ws)) = 4 * length ws"
  by (induction ws) simp_all

lemma concat_long_bytes_chunk:
  "k < length ws \<Longrightarrow> take 4 (drop (4 * k) (concat (map long_bytes ws))) = long_bytes (ws ! k)"
proof (induction ws arbitrary: k)
  case Nil
  then show ?case by simp
next
  case (Cons w ws)
  then show ?case by (cases k) auto
qed

lemma view_bytes_overlay_chunk:
  assumes "i + n \<le> length bs" "length bs \<le> 2 ^ 32"
  shows "view_bytes (overlay m a bs) (a + word_of_nat i) n = take n (drop i bs)"
proof -
  have "view_bytes (overlay m a bs) a (i + n) = take (i + n) bs"
    using assms view_bytes_overlay [OF assms(2), of m a] view_bytes_take [of "i + n" "length bs"] by metis
  then have "drop i (view_bytes (overlay m a bs) a (i + n)) = drop i (take (i + n) bs)" by simp
  then show ?thesis by (simp add: view_bytes_add drop_take)
qed

lemma set_target_frame [simp]:
  "k \<noteq> 15 \<Longrightarrow> k \<noteq> 16 \<Longrightarrow> uregs (set_target addr regs) k = uregs regs k"
  by (simp add: set_target_def)

lemma and_one_iff: "addr AND 1 \<noteq> 0 \<longleftrightarrow> bit (addr :: u32) 0"
  by (simp add: and_one_eq bit_0 even_iff_mod_2_eq_zero)

lemma set_target_pc: "ARM_pc (set_target addr regs) = addr AND NOT 1"
proof (cases "bit addr 0")
  case True
  then show ?thesis by (simp add: set_target_def and_one_iff)
next
  case False
  have "addr AND NOT 1 = addr"
  proof (rule bit_word_eqI)
    fix n
    assume "n < LENGTH(32)"
    with False show "bit (addr AND NOT 1) n = bit addr n"
      by (cases "n = 0") (simp_all add: bit_and_iff bit_not_iff bit_1_iff)
  qed
  with False show ?thesis by (simp add: set_target_def and_one_iff)
qed

lemma set_target_thumb: "bit (ARM_cpsr (set_target addr regs)) 5 = bit addr 0"
  by (simp add: set_target_def and_one_iff CPSR_T_MASK_def bit_or_iff bit_and_iff bit_not_iff
      bit_push_bit_iff)

lemma call_setup_target:
  "ARM_lr (fst (call_setup addr params regs t)) = 0"
  "ARM_pc (fst (call_setup addr params regs t)) = addr AND NOT 1"
  "bit (ARM_cpsr (fst (call_setup addr params regs t))) 5 = bit addr 0"
  by (simp_all add: call_setup_def Let_def set_target_pc set_target_thumb split: prod.splits)

lemma call_setup_small:
  assumes "length params \<le> 4"
  shows "snd (call_setup addr params regs t) = t"
    and "k < length params \<Longrightarrow> uregs (fst (call_setup addr params regs t)) k = params ! k"
  using assms by (simp_all add: call_setup_def set_params_def Let_def)

lemma call_setup_stack:
  fixes regs :: pt_regs and params :: "u32 list"
  assumes "4 < length params"
  defines "sp \<equiv> ARM_sp regs - word_of_nat (length params - 4) * 4"
  shows "ARM_sp (fst (call_setup addr params regs t)) = sp"
    and "snd (call_setup addr params regs t) =
      ptrace_writedata peektext poketext t sp (concat (map long_bytes (drop 4 params))) ((length params - 4) * 4)"
    and "k < 4 \<Longrightarrow> uregs (fst (call_setup addr params regs t)) k = params ! k"
  using assms by (simp_all add: call_setup_def set_params_def Let_def)

lemma call_setup_frame [simp]:
  "p_regs (snd (call_setup addr params regs t)) = p_regs t"
  "p_attached (snd (call_setup addr params regs t)) = p_attached t"
  "p_results (snd (call_setup addr params regs t)) = p_results t"
  "p_runs (snd (call_setup addr params regs t)) = p_runs t"
  "p_reqs (snd (call_setup addr params regs t)) = p_reqs t"
  "p_maps (snd (call_setup addr params regs t)) = p_maps t"
  by (simp_all add: call_setup_def Let_def)

text \<open>The process is about to execute the call of \<open>addr\<close> with the arguments \<open>params\<close>.\<close>

definition is_call :: "u32 \<Rightarrow> u32 list \<Rightarrow> pt_regs \<Rightarrow> memory \<Rightarrow> bool" where
  "is_call addr params regs m \<longleftrightarrow>
     (\<forall>k < length params. call_argument regs m k = params ! k) \<and>
     ARM_lr regs = 0 \<and> ARM_pc regs = addr AND NOT 1 \<and> bit (ARM_cpsr regs) 5 = bit addr 0"

lemma call_setup_stack_argument:
  fixes params :: "u32 list" and regs :: pt_regs
  defines "n \<equiv> length params - 4"
  defines "sp \<equiv> ARM_sp regs - word_of_nat n * 4"
  assumes "length params \<le> 10" "mapped (p_mem t) sp (n * 4)" "4 \<le> k" "k < length params"
  shows "call_argument (fst (call_setup addr params regs t)) (p_mem (snd (call_setup addr params regs t))) k = params ! k"
proof -
  let ?bs = "concat (map long_bytes (drop 4 params))"
  have n: "4 < length params" "k - 4 < n" using assms by simp_all
  have span: "word_span ((length params - 4) * 4) = (length params - 4) * 4" by (simp add: word_span_def)
  have "p_mem (ptrace_writedata peektext poketext t sp ?bs (n * 4)) = overlay (p_mem t) sp ?bs"
    using assms by (subst tm.writedata_view) (simp_all add: span)
  then have m: "p_mem (snd (call_setup addr params regs t)) = overlay (p_mem t) sp ?bs"
    using call_setup_stack(2) [OF n(1), of addr regs t] by (simp add: n_def sp_def)
  have "view_bytes (overlay (p_mem t) sp ?bs) (sp + word_of_nat (4 * (k - 4))) 4 =
      take 4 (drop (4 * (k - 4)) ?bs)"
    using n assms by (intro view_bytes_overlay_chunk) auto
  also have "\<dots> = long_bytes (drop 4 params ! (k - 4))"
    using n by (intro concat_long_bytes_chunk) (simp add: n_def)
  finally show ?thesis
    using assms(5,6) call_setup_stack(1) [OF n(1), of addr regs t]
    by (simp add: call_argument_def m n_def sp_def)
qed

lemma call_setup_is_call:
  assumes "length params \<le> 10"
    and "mapped (p_mem t) (ARM_sp regs - word_of_nat (length params - 4) * 4) ((length params - 4) * 4)"
  shows "is_call addr params (fst (call_setup addr params regs t)) (p_mem (snd (call_setup addr params regs t)))"
  unfolding is_call_def
proof (intro conjI allI impI call_setup_target)
  fix k
  assume k: "k < length params"
  show "call_argument (fst (call_setup addr params regs t)) (p_mem (snd (call_setup addr params regs t))) k =
      params ! k"
  proof (cases "k < 4")
    case True
    with k show ?thesis
      using call_setup_small(2) call_setup_stack(3)
      by (cases "length params \<le> 4") (simp_all add: call_argument_def)
  next
    case False
    with assms k show ?thesis by (intro call_setup_stack_argument) simp_all
  qed
qed

lemma call_setup_is_small_call:
  assumes "length params \<le> 4"
  shows "is_call addr params (fst (call_setup addr params regs t)) m"
  using assms call_setup_small(2) [OF assms] call_setup_target
  by (auto simp: is_call_def call_argument_def)

section \<open>What a remote call does to the process and to the history\<close>

text \<open>The requests a call consists of; attaching and detaching are not among them.\<close>

fun call_req :: "ptrace_req \<Rightarrow> bool" where
  "call_req PTRACE_ATTACH = False"
| "call_req PTRACE_DETACH = False"
| "call_req _ = True"

text \<open>From \<open>t\<close> to \<open>t'\<close> the tracer made only requests of calls, and is attached as before.\<close>

definition called :: "tracee \<Rightarrow> tracee \<Rightarrow> bool" where
  "called t t' \<longleftrightarrow>
     p_attached t' = p_attached t \<and> (p_results t = [] \<longrightarrow> p_results t' = []) \<and>
     (\<exists>qs. p_reqs t' = p_reqs t @ qs \<and> list_all call_req qs)"

lemma called_refl [simp]: "called t t"
  by (simp add: called_def)

lemma called_trans: "called t u \<Longrightarrow> called u v \<Longrightarrow> called t v"
  unfolding called_def by (metis append.assoc list_all_append)

lemma called_frame:
  "p_attached t' = p_attached t \<Longrightarrow> p_results t' = p_results t \<Longrightarrow> p_reqs t' = p_reqs t \<Longrightarrow> called t t'"
  by (simp add: called_def)

lemma request_called: "call_req q \<Longrightarrow> called t (snd (request q t))"
  by (auto simp: called_def request_def split: list.splits)

lemma request_frame [simp]:
  "p_runs (snd (request q t)) = p_runs t" "p_regs (snd (request q t)) = p_regs t"
  "p_mem (snd (request q t)) = p_mem t" "p_maps (snd (request q t)) = p_maps t"
  "p_attached (snd (request q t)) = p_attached t" "p_reqs (snd (request q t)) = p_reqs t @ [q]"
  by (simp_all add: request_def split: list.splits)

lemma getregs_called: "called t (snd (ptrace_getregs t))"
  using request_called [of PTRACE_GETREGS t] by (auto simp: ptrace_getregs_def split: prod.splits bool.splits)

lemma setregs_called: "called t (snd (ptrace_setregs regs t))"
  by (auto simp: ptrace_setregs_def request_def called_def split: list.splits bool.splits)

lemma continue_called: "called t (snd (ptrace_continue t))"
  unfolding ptrace_continue_def by (rule request_called) simp

lemma waitpid_called: "waitpid t = Some (stat, t') \<Longrightarrow> called t t'"
  by (auto simp: waitpid_def split: list.splits intro!: called_frame)

lemma wait_call_called: "wait_call t = Some (ok, t') \<Longrightarrow> called t t'"
proof (induction t rule: wait_call.induct)
  case (1 t)
  from "1.prems" obtain stat t1 where w: "waitpid t = Some (stat, t1)"
    by (subst (asm) wait_call.simps) (auto split: option.splits)
  obtain b t2 where c: "ptrace_continue t1 = (b, t2)" by force
  have "called t t1" using w by (rule waitpid_called)
  moreover have "called t1 t2" using continue_called [of t1] c by simp
  moreover have "t' = t1 \<or> t' = t2 \<or> called t2 t'"
    using "1.prems" "1.IH" [OF w refl] c
    by (subst (asm) wait_call.simps) (auto simp: w split: if_splits bool.splits)
  ultimately show ?case by (metis called_trans)
qed

lemma call_called:
  assumes "ptrace_call addr params regs t = Some (ok, regs', t')"
  shows "called t t'"
proof -
  obtain regs1 t1 where s: "call_setup addr params regs t = (regs1, t1)" by force
  obtain b t2 where sr: "ptrace_setregs regs1 t1 = (b, t2)" by force
  obtain c t3 where co: "ptrace_continue t2 = (c, t3)" by force
  have "called t t1" using s call_setup_frame(2,3,5) [of addr params regs t] by (intro called_frame) simp_all
  moreover have "called t1 t2" using setregs_called [of t1 regs1] sr by simp
  moreover have "called t2 t3" using continue_called [of t2] co by simp
  moreover have "t' = t2 \<or> t' = t3 \<or> called t3 t'"
    using assms wait_call_called [of t3]
    by (auto simp: ptrace_call_def s sr co split: bool.splits option.splits)
  ultimately show ?thesis by (metis called_trans)
qed

lemma call2_called:
  assumes "ptrace_call2 addr params regs t = Some (ok, regs', t')"
  shows "called t t'"
proof -
  from assms obtain ok1 regs1 t1 where c: "ptrace_call addr params regs t = Some (ok1, regs1, t1)"
    by (auto simp: ptrace_call2_def split: option.splits)
  have "called t t1" using c by (rule call_called)
  moreover have "t' = t1 \<or> t' = snd (ptrace_getregs t1)"
    using assms by (auto simp: ptrace_call2_def c split: bool.splits prod.splits option.splits)
  ultimately show ?thesis using getregs_called called_trans by metis
qed

text \<open>The number of stops still to come that end a call.\<close>

definition stops :: "tracee \<Rightarrow> nat" where
  "stops t = length (filter (\<lambda>r. r_status r = CALL_STOP) (p_runs t))"

lemma stops_frame: "p_runs t' = p_runs t \<Longrightarrow> stops t' = stops t"
  by (simp add: stops_def)

lemma wait_call_returns:
  "0 < stops t \<Longrightarrow> \<exists>ok t'. wait_call t = Some (ok, t') \<and> (ok \<longrightarrow> Suc (stops t') = stops t)"
proof (induction t rule: wait_call.induct)
  case (1 t)
  then obtain r rs where runs: "p_runs t = r # rs" by (cases "p_runs t") (auto simp: stops_def)
  then obtain t1 where w: "waitpid t = Some (r_status r, t1)" and t1: "p_runs t1 = rs"
    by (auto simp: waitpid_def)
  obtain b t2 where c: "ptrace_continue t1 = (b, t2)" by force
  then have t2: "stops t2 = stops t1" by (metis ptrace_continue_def request_frame(1) snd_conv stops_frame)
  show ?case
  proof (cases "r_status r = CALL_STOP")
    case True
    then have "wait_call t = Some (True, t1)" by (subst wait_call.simps) (simp add: w)
    with True show ?thesis by (auto simp: stops_def runs t1)
  next
    case False
    then have "stops t1 = stops t" by (simp add: stops_def runs t1)
    with t2 "1.prems" have pos: "0 < stops t2" "stops t2 = stops t" by simp_all
    have step: "wait_call t = (if b then wait_call t2 else Some (False, t2))"
      using False by (subst wait_call.simps) (simp add: w c split: bool.splits)
    show ?thesis
    proof (cases b)
      case True
      with "1.IH" [OF w refl False, of True t2] c pos step show ?thesis by simp
    next
      case False
      with step show ?thesis by auto
    qed
  qed
qed

lemma call2_returns:
  assumes "0 < stops t"
  shows "\<exists>ok regs' t'. ptrace_call2 addr params regs t = Some (ok, regs', t') \<and> (ok \<longrightarrow> Suc (stops t') = stops t)"
proof -
  obtain regs1 t1 where s: "call_setup addr params regs t = (regs1, t1)" by force
  obtain b t2 where sr: "ptrace_setregs regs1 t1 = (b, t2)" by force
  obtain c t3 where co: "ptrace_continue t2 = (c, t3)" by force
  have "p_runs t1 = p_runs t" using call_setup_frame(4) s by (metis snd_conv)
  moreover have "p_runs t2 = p_runs t1"
    using sr by (auto simp: ptrace_setregs_def request_def split: list.splits bool.splits)
  moreover have "p_runs t3 = p_runs t2" using co by (metis ptrace_continue_def request_frame(1) snd_conv)
  ultimately have st: "stops t3 = stops t" by (simp add: stops_def)
  with assms obtain ok t4 where w: "wait_call t3 = Some (ok, t4)" "ok \<longrightarrow> Suc (stops t4) = stops t"
    using wait_call_returns [of t3] by auto
  have g: "stops (snd (ptrace_getregs t4)) = stops t4"
    by (auto simp: ptrace_getregs_def request_def stops_def split: list.splits bool.splits)
  show ?thesis using w g
    by (cases "ptrace_getregs t4")
      (auto simp: ptrace_call2_def ptrace_call_def s sr co split: bool.splits option.splits)
qed

text \<open>When no request fails and the next stop ends the call, the call has a closed form.\<close>

lemma call2_ok:
  assumes "p_results t = []" "p_runs t = r # rs" "r_status r = CALL_STOP"
    and "call_setup addr params regs t = (regs1, t1)"
  shows "ptrace_call2 addr params regs t =
    Some (True, r_regs r,
      t1\<lparr>p_regs := r_regs r, p_mem := r_mem r, p_maps := r_maps r, p_runs := rs,
         p_reqs := p_reqs t @ [PTRACE_SETREGS regs1, PTRACE_CONT regs1 (p_mem t1), PTRACE_GETREGS]\<rparr>)"
proof -
  have f: "p_results t1 = []" "p_runs t1 = r # rs" "p_reqs t1 = p_reqs t"
    using assms call_setup_frame(3,4,5) [of addr params regs t] by simp_all
  show ?thesis
    by (simp add: ptrace_call2_def ptrace_call_def assms ptrace_setregs_def ptrace_continue_def
        request_def f wait_call.simps waitpid_def ptrace_getregs_def)
qed

section \<open>Properties\<close>

text \<open>
  C6 \<open>ptrace_writedata\<close> writes exactly the requested bytes: after it, the memory of the traced
  process is the old memory with \<open>data\<close> laid over \<open>[dest, dest + sz)\<close>.  The bytes of the last,
  partly written word keep their values, although the request writes whole words.
\<close>

theorem writedata_overlays_memory:
  assumes "mapped (p_mem t) dest (word_span sz)" "sz \<le> length data" "word_span sz \<le> 2 ^ 32"
  shows "p_mem (ptrace_writedata peektext poketext t dest data sz) = overlay (p_mem t) dest (take sz data)"
  using assms by (rule tm.writedata_view)

text \<open>A buffer of eight zero bytes at \<open>0x4000\<close>, into which six bytes are written.\<close>

definition demo_regs :: pt_regs where
  "demo_regs = \<lparr>uregs = (\<lambda>_. 0)\<rparr>"

definition demo_tracee :: tracee where
  "demo_tracee =
     \<lparr>p_regs = demo_regs, p_mem = (\<lambda>x. if 0x4000 \<le> x \<and> x < 0x4008 then Some 0 else None), p_maps = [],
      p_attached = True, p_results = [], p_runs = [], p_reqs = []\<rparr>"

lemma demo_mapped: "mapped (p_mem demo_tracee) 0x4000 8"
  by (simp add: mapped_def demo_tracee_def upt_rec)

theorem writedata_overlays_memory_witness:
  "p_mem (ptrace_writedata peektext poketext demo_tracee 0x4000 [1, 2, 3, 4, 5, 6] 6) =
     overlay (p_mem demo_tracee) 0x4000 [1, 2, 3, 4, 5, 6]"
proof -
  have "mapped (p_mem demo_tracee) 0x4000 (word_span 6)"
    using demo_mapped by (simp add: word_span_def)
  then show ?thesis
    using writedata_overlays_memory [of demo_tracee "0x4000" 6 "[1, 2, 3, 4, 5, 6]"]
    by (simp add: word_span_def)
qed

text \<open>
  What \<open>ptrace_writedata\<close> wrote, \<open>ptrace_readdata\<close> reads back, for every size: whole words,
  a remainder, or both.
\<close>

theorem readdata_writedata:
  assumes "mapped (p_mem t) dest (word_span sz)" "sz \<le> length data" "word_span sz \<le> 2 ^ 32"
  shows "ptrace_readdata peektext (ptrace_writedata peektext poketext t dest data sz) dest sz = take sz data"
  using assms by (rule tm.read_back)

theorem readdata_writedata_witness:
  "ptrace_readdata peektext (ptrace_writedata peektext poketext demo_tracee 0x4000 [1, 2, 3, 4, 5, 6, 7] 7)
     0x4000 7 = [1, 2, 3, 4, 5, 6, 7]"
proof -
  have "mapped (p_mem demo_tracee) 0x4000 (word_span 7)"
    using demo_mapped by (simp add: word_span_def)
  then show ?thesis
    using readdata_writedata [of demo_tracee "0x4000" 7 "[1, 2, 3, 4, 5, 6, 7]"]
    by (simp add: word_span_def)
qed

text \<open>
  C7 The state in which \<open>ptrace_call\<close> lets the process run is a call under the ARM procedure call
  standard: argument \<open>k\<close> of the callee is \<open>params[k]\<close>, in a register or on the stack of the process;
  the return address is 0, which is where the call is caught; the program counter is the target without its
  mode bit, and the T bit of the status register is the mode bit.
\<close>

theorem remote_call_convention:
  fixes addr :: u32 and params :: "u32 list" and regs :: pt_regs
  assumes "length params \<le> 10"
    and "mapped (p_mem t) (ARM_sp regs - word_of_nat (length params - 4) * 4) ((length params - 4) * 4)"
    and "call_setup addr params regs t = (regs', t')"
  shows "(\<forall>k < length params. call_argument regs' (p_mem t') k = params ! k) \<and>
    ARM_lr regs' = 0 \<and> ARM_pc regs' = addr AND NOT 1 \<and> bit (ARM_cpsr regs') 5 = bit addr 0"
  using call_setup_is_call [OF assms(1,2), of addr] assms(3) by (simp add: is_call_def)

theorem remote_call_convention_witness:
  "let c = call_setup 0x8001 [1, 2, 3, 4, 5, 6] \<lparr>uregs = (\<lambda>_. 0)(13 := 0x4008)\<rparr> demo_tracee
   in call_argument (fst c) (p_mem (snd c)) 1 = 2 \<and> call_argument (fst c) (p_mem (snd c)) 5 = 6 \<and>
      ARM_pc (fst c) = 0x8000 \<and> bit (ARM_cpsr (fst c)) 5"
proof -
  let ?r = "\<lparr>uregs = (\<lambda>_. 0)(13 := 0x4008)\<rparr> :: pt_regs" and ?p = "[1, 2, 3, 4, 5, 6] :: u32 list"
  let ?c = "call_setup 0x8001 ?p ?r demo_tracee"
  have "(\<forall>k < length ?p. call_argument (fst ?c) (p_mem (snd ?c)) k = ?p ! k) \<and>
      ARM_lr (fst ?c) = 0 \<and> ARM_pc (fst ?c) = 0x8001 AND NOT 1 \<and>
      bit (ARM_cpsr (fst ?c)) 5 = bit (0x8001 :: u32) 0"
    using demo_mapped by (intro remote_call_convention [of ?p demo_tracee ?r]) simp_all
  then show ?thesis by (auto simp: Let_def dest: spec [of _ 1] spec [of _ 5])
qed

end
