(* ===== verification/Xloader.thy ===== *)
theory Xloader
  imports Ptrace "HOL-Library.Monad_Syntax"
begin

text \<open>
  The loader of \<open>src/xloaderFramework/xloaderd/xloader.c\<close>: finding the target process and the base
  addresses of its modules, the injection of the client library (\<open>trace_remote_process\<close>), the entry
  \<open>xload\<close> and the command line of the stand-alone binary.

  The record \<open>env\<close> is what the loader sees of the device: which paths \<open>stat\<close> finds, what files hold,
  the entries of \<open>/proc\<close>, the addresses of the loader's own \<open>mmap\<close>, \<open>dlopen\<close>, \<dots>, and the other
  processes by their id.  A result \<open>None\<close> means that the call does not return.  The build modelled is the
  one of \<open>Android.mk\<close>: ARM, \<open>MODE_XPOSED\<close> and \<open>DEBUG\<close>.
\<close>

section \<open>Constants of xloader.h\<close>

abbreviation (input) SUCCESS :: int where "SUCCESS \<equiv> 0"
abbreviation (input) ERROR_XLOADER_CLIENT_NOT_FOUND :: int where "ERROR_XLOADER_CLIENT_NOT_FOUND \<equiv> 1"
abbreviation (input) ERROR_XLOADER_BRIDEG_NOT_FOUND :: int where "ERROR_XLOADER_BRIDEG_NOT_FOUND \<equiv> 2"
abbreviation (input) ERROR_XLOADER_MODULE_NOT_FOUND :: int where "ERROR_XLOADER_MODULE_NOT_FOUND \<equiv> 3"
abbreviation (input) ERROR_XLOADER_PROCESS_NOT_FOUND :: int where "ERROR_XLOADER_PROCESS_NOT_FOUND \<equiv> 4"
abbreviation (input) ERROR_XLOADER_PROCESS_LOADED :: int where "ERROR_XLOADER_PROCESS_LOADED \<equiv> 5"
abbreviation (input) ERROR_XLOADER_PTRACE_FAILED :: int where "ERROR_XLOADER_PTRACE_FAILED \<equiv> 6"
abbreviation (input) ERROR_XLOADER_MMAP_FAILED :: int where "ERROR_XLOADER_MMAP_FAILED \<equiv> 7"
abbreviation (input) ERROR_XLOADER_REMOTE_CALL_FAILED :: int where "ERROR_XLOADER_REMOTE_CALL_FAILED \<equiv> 8"
abbreviation (input) ERROR_XLOADER_DL_NOT_LOADED :: int where "ERROR_XLOADER_DL_NOT_LOADED \<equiv> 8"
abbreviation (input) ERROR_XLOADER_DLOPEN_FAILED :: int where "ERROR_XLOADER_DLOPEN_FAILED \<equiv> 9"
abbreviation (input) ERROR_XLOADER_DLERROR_FAILED :: int where "ERROR_XLOADER_DLERROR_FAILED \<equiv> 10"
abbreviation (input) ERROR_XLOADER_DLSYM_FAILED :: int where "ERROR_XLOADER_DLSYM_FAILED \<equiv> 11"

definition CLIENT_PATH_CURRENT :: string where "CLIENT_PATH_CURRENT = ''/system/lib/libclient.so''"
definition CLIENT_ENTRY_FUNC :: string where "CLIENT_ENTRY_FUNC = ''client_entry''"
definition BRIDGE_PATH_CURRENT :: string where
  "BRIDGE_PATH_CURRENT = ''/system/framework/XposedBridge.jar''"
definition BRIDGE_LIB_PATH_CURRENT :: string where
  "BRIDGE_LIB_PATH_CURRENT = ''/system/lib/libxposed.so''"

abbreviation (input) STR_LEN_LIMIT :: nat where "STR_LEN_LIMIT \<equiv> 256"

definition libc_path :: string where "libc_path = ''/system/lib/libc.so''"
definition linker_path :: string where "linker_path = ''/system/bin/linker''"

text \<open>\<open>struct XloaderInfo\<close>: three char arrays of \<open>STR_LEN_LIMIT\<close> chars, laid out one after the other.\<close>

record XloaderInfo =
  packageName :: string
  bridgePath :: string
  modulePath :: string

definition info_bytes :: "XloaderInfo \<Rightarrow> byte list" where
  "info_bytes info = map byte_of_char (packageName info @ bridgePath info @ modulePath info)"

section \<open>The device\<close>

record env =
  e_stat :: "string \<Rightarrow> bool"
  e_fopen :: "string \<Rightarrow> string option"
  e_proc :: "string list option"
  e_cmdline :: string
  e_mmap :: u32
  e_dlopen :: u32
  e_dlsym :: u32
  e_dlclose :: u32
  e_dlerror :: u32
  e_procs :: "int \<Rightarrow> tracee"

text \<open>\<open>e_cmdline\<close> is what the uninitialised buffer \<open>cmdline\<close> of \<open>find_pid_of\<close> reads as.\<close>

definition maps_file :: "int \<Rightarrow> string" where
  "maps_file pid = ''/proc/'' @ show_int pid @ ''/maps''"

definition cmdline_file :: "int \<Rightarrow> string" where
  "cmdline_file pid = ''/proc/'' @ show_int pid @ ''/cmdline''"

text \<open>The files as the loader can open them while it traces \<open>pid\<close>, whose memory map changes as it runs.\<close>

definition files :: "env \<Rightarrow> int \<Rightarrow> string \<Rightarrow> string \<Rightarrow> string option" where
  "files E pid maps = (e_fopen E)(maps_file pid := Some maps)"

section \<open>Modules of a process\<close>

text \<open>\<open>strtok(line, "-")\<close>, first call.\<close>

definition strtok_dash :: "string \<Rightarrow> string option" where
  "strtok_dash s =
     (let s1 = dropWhile (\<lambda>c. c = CHR ''-'') s
      in if s1 = [] then None else Some (takeWhile (\<lambda>c. c \<noteq> CHR ''-'') s1))"

text \<open>The loop over the lines of a maps file; \<open>strtoul\<close> of a NULL token would be a crash, \<open>None\<close>.\<close>

function scan_maps :: "string \<Rightarrow> string \<Rightarrow> u32 option" where
  "scan_maps module_name fp =
     (case fgets 1024 fp of
        None \<Rightarrow> Some 0
      | Some (line, fp1) \<Rightarrow>
          if strstr (cut line) module_name \<noteq> None
          then do { pch \<leftarrow> strtok_dash (cut line);
                    let addr = strtoul16 pch;
                    Some (if addr = 0x8000 then 0 else addr) }
          else scan_maps module_name fp1)"
  by pat_completeness auto
termination
  by (relation "measure (\<lambda>(_, fp). length fp)") (auto dest: fgets_decreases)

declare scan_maps.simps [simp del]

definition get_module_base :: "(string \<Rightarrow> string option) \<Rightarrow> int \<Rightarrow> string \<Rightarrow> u32 option" where
  "get_module_base fopen pid module_name =
     (let filename = (if pid < 0 then ''/proc/self/maps'' else maps_file pid)
      in case fopen filename of
           None \<Rightarrow> Some 0
         | Some fp \<Rightarrow> scan_maps module_name fp)"

definition get_remote_addr ::
  "(string \<Rightarrow> string option) \<Rightarrow> int \<Rightarrow> string \<Rightarrow> u32 \<Rightarrow> u32 option" where
  "get_remote_addr fopen target_pid module_name local_addr =
     do { local_handle \<leftarrow> get_module_base fopen (- 1) module_name;
          remote_handle \<leftarrow> get_module_base fopen target_pid module_name;
          Some (local_addr + remote_handle - local_handle) }"

section \<open>Finding a process by its command line\<close>

text \<open>The buffer \<open>cmdline\<close> keeps its contents when \<open>fgets\<close> reads nothing.\<close>

fun find_pid_loop :: "(string \<Rightarrow> string option) \<Rightarrow> string \<Rightarrow> string \<Rightarrow> string list \<Rightarrow> int" where
  "find_pid_loop fopen process_name cmdline [] = - 1"
| "find_pid_loop fopen process_name cmdline (d_name # entries) =
     (let id = atoi d_name
      in if id \<noteq> 0
         then case fopen (cmdline_file id) of
                None \<Rightarrow> find_pid_loop fopen process_name cmdline entries
              | Some fp \<Rightarrow>
                  let cmdline1 = (case fgets 256 fp of None \<Rightarrow> cmdline | Some (line, _) \<Rightarrow> cut line)
                  in if process_name = cmdline1 then id
                     else find_pid_loop fopen process_name cmdline1 entries
         else find_pid_loop fopen process_name cmdline entries)"

definition find_pid_of :: "env \<Rightarrow> string option \<Rightarrow> int" where
  "find_pid_of E process_name =
     (case process_name of
        None \<Rightarrow> - 1
      | Some name \<Rightarrow>
          (case e_proc E of
             None \<Rightarrow> - 1
           | Some entries \<Rightarrow> find_pid_loop (e_fopen E) name (e_cmdline E) entries))"

section \<open>The injection\<close>

text \<open>
  A remote call that jumps to \<open>exit_regs\<close> with \<open>err\<close> when it fails.  A stage of the injection returns the
  value of \<open>ret\<close> at \<open>exit_regs\<close>.
\<close>

definition call_or ::
  "u32 \<Rightarrow> u32 list \<Rightarrow> pt_regs \<Rightarrow> tracee \<Rightarrow> int \<Rightarrow> (pt_regs \<Rightarrow> tracee \<Rightarrow> (int \<times> tracee) option) \<Rightarrow> (int \<times> tracee) option"
  where
  "call_or addr parameters regs t err k =
     (case ptrace_call2 addr parameters regs t of
        None \<Rightarrow> None
      | Some (False, regs1, t1) \<Rightarrow> Some (err, t1)
      | Some (True, regs1, t1) \<Rightarrow> k regs1 t1)"

definition cstring_bytes :: "string \<Rightarrow> byte list" where
  "cstring_bytes s = map byte_of_char (s @ [NUL])"

text \<open>The message \<open>dlerror\<close> points to is read into \<open>perrbuf\<close> for the log only.\<close>

definition report_dlerror :: "u32 \<Rightarrow> int \<Rightarrow> pt_regs \<Rightarrow> tracee \<Rightarrow> (int \<times> tracee) option" where
  "report_dlerror dlerror_addr err regs t =
     call_or dlerror_addr [] regs t (- ERROR_XLOADER_DLERROR_FAILED) (\<lambda>regs1 t1. Some (err, t1))"

abbreviation (input) FUNCTION_NAME_ADDR_OFFSET :: u32 where "FUNCTION_NAME_ADDR_OFFSET \<equiv> 0x100"
abbreviation (input) FUNCTION_PARAM_ADDR_OFFSET :: u32 where "FUNCTION_PARAM_ADDR_OFFSET \<equiv> 0x200"

definition call_entry ::
  "env \<Rightarrow> u32 \<Rightarrow> u32 \<Rightarrow> byte list \<Rightarrow> u32 \<Rightarrow> pt_regs \<Rightarrow> tracee \<Rightarrow> (int \<times> tracee) option" where
  "call_entry E map_base sohandle param client_entry_addr regs t =
     (let t1 = ptrace_writedata peektext poketext t (map_base + FUNCTION_PARAM_ADDR_OFFSET) param (length param)
      in call_or client_entry_addr [map_base + FUNCTION_PARAM_ADDR_OFFSET] regs t1
           (- ERROR_XLOADER_REMOTE_CALL_FAILED)
           (\<lambda>regs2 t2.
              let ret = sint (ptrace_retval regs2)
              in call_or (e_dlclose E) [sohandle] regs2 t2 (- ERROR_XLOADER_REMOTE_CALL_FAILED)
                   (\<lambda>regs3 t3. Some (ret, t3))))"

definition call_dlsym ::
  "env \<Rightarrow> u32 \<Rightarrow> u32 \<Rightarrow> u32 \<Rightarrow> u32 \<Rightarrow> string \<Rightarrow> byte list \<Rightarrow> pt_regs \<Rightarrow> tracee \<Rightarrow> (int \<times> tracee) option" where
  "call_dlsym E dlsym_addr dlerror_addr map_base sohandle function_name param regs t =
     (let t1 = ptrace_writedata peektext poketext t (map_base + FUNCTION_NAME_ADDR_OFFSET)
                 (cstring_bytes function_name) (length function_name + 1)
      in call_or dlsym_addr [sohandle, map_base + FUNCTION_NAME_ADDR_OFFSET] regs t1
           (- ERROR_XLOADER_REMOTE_CALL_FAILED)
           (\<lambda>regs2 t2.
              let client_entry_addr = ptrace_retval regs2
              in if client_entry_addr = 0
                 then report_dlerror dlerror_addr (- ERROR_XLOADER_DLSYM_FAILED) regs2 t2
                 else call_entry E map_base sohandle param client_entry_addr regs2 t2))"

definition call_dlopen ::
  "env \<Rightarrow> u32 \<Rightarrow> u32 \<Rightarrow> u32 \<Rightarrow> u32 \<Rightarrow> string \<Rightarrow> string \<Rightarrow> byte list \<Rightarrow> pt_regs \<Rightarrow> tracee \<Rightarrow> (int \<times> tracee) option"
  where
  "call_dlopen E dlopen_addr dlsym_addr dlerror_addr map_base library_path function_name param regs t =
     (let t1 = ptrace_writedata peektext poketext t map_base (cstring_bytes library_path) (length library_path + 1)
      in call_or dlopen_addr [map_base, 2] regs t1 (- ERROR_XLOADER_REMOTE_CALL_FAILED)
           (\<lambda>regs2 t2.
              let sohandle = ptrace_retval regs2
              in if sohandle = 0
                 then report_dlerror dlerror_addr (- ERROR_XLOADER_DLOPEN_FAILED) regs2 t2
                 else call_dlsym E dlsym_addr dlerror_addr map_base sohandle function_name param regs2 t2))"

definition inject ::
  "env \<Rightarrow> int \<Rightarrow> string \<Rightarrow> string \<Rightarrow> byte list \<Rightarrow> pt_regs \<Rightarrow> tracee \<Rightarrow> (int \<times> tracee) option" where
  "inject E target_pid library_path function_name param regs t =
     do { mmap_addr \<leftarrow> get_remote_addr (files E target_pid (p_maps t)) target_pid libc_path (e_mmap E);
          call_or mmap_addr [0, 0x4000, 7, 0x22, 0, 0] regs t (- ERROR_XLOADER_MMAP_FAILED)
            (\<lambda>regs1 t1.
               let map_base = ptrace_retval regs1; fs = files E target_pid (p_maps t1)
               in do { dlopen_addr \<leftarrow> get_remote_addr fs target_pid linker_path (e_dlopen E);
                       dlsym_addr \<leftarrow> get_remote_addr fs target_pid linker_path (e_dlsym E);
                       dlclose_addr \<leftarrow> get_remote_addr fs target_pid linker_path (e_dlclose E);
                       dlerror_addr \<leftarrow> get_remote_addr fs target_pid linker_path (e_dlerror E);
                       if dlopen_addr = 0 \<or> dlsym_addr = 0 \<or> dlclose_addr = 0 \<or> dlerror_addr = 0
                       then Some (- ERROR_XLOADER_DL_NOT_LOADED, t1)
                       else call_dlopen E dlopen_addr dlsym_addr dlerror_addr map_base
                              library_path function_name param regs1 t1 }) }"

definition trace_remote_process ::
  "env \<Rightarrow> int \<Rightarrow> string \<Rightarrow> string \<Rightarrow> byte list \<Rightarrow> tracee \<Rightarrow> (int \<times> tracee) option" where
  "trace_remote_process E target_pid library_path function_name param t =
     do { remote_library \<leftarrow> get_module_base (files E target_pid (p_maps t)) target_pid library_path;
          if remote_library \<noteq> 0 then Some (ERROR_XLOADER_PROCESS_LOADED, t)
          else do {
            (attached, t1) \<leftarrow> ptrace_attach t;
            if \<not> attached then Some (- ERROR_XLOADER_PTRACE_FAILED, t1)
            else case ptrace_getregs t1 of
                   (None, t2) \<Rightarrow> Some (- ERROR_XLOADER_PTRACE_FAILED, snd (ptrace_detach t2))
                 | (Some original_regs, t2) \<Rightarrow>
                     do { (ret, t3) \<leftarrow> inject E target_pid library_path function_name param original_regs t2;
                          let t4 = snd (ptrace_setregs original_regs t3);
                          Some (ret, snd (ptrace_detach t4)) } } }"

section \<open>xload\<close>

definition make_info :: "string \<Rightarrow> string \<Rightarrow> XloaderInfo" where
  "make_info package_name module_path =
     \<lparr>packageName = strncpy STR_LEN_LIMIT package_name,
      bridgePath = strncpy STR_LEN_LIMIT BRIDGE_PATH_CURRENT,
      modulePath = strncpy STR_LEN_LIMIT module_path\<rparr>"

definition xload :: "env \<Rightarrow> string \<Rightarrow> string option \<Rightarrow> string \<Rightarrow> (int \<times> env) option" where
  "xload E package_name process_name module_path =
     (if \<not> e_stat E CLIENT_PATH_CURRENT then Some (- ERROR_XLOADER_CLIENT_NOT_FOUND, E)
      else if \<not> e_stat E BRIDGE_PATH_CURRENT then Some (- ERROR_XLOADER_BRIDEG_NOT_FOUND, E)
      else if \<not> e_stat E BRIDGE_LIB_PATH_CURRENT then Some (- ERROR_XLOADER_BRIDEG_NOT_FOUND, E)
      else if \<not> e_stat E module_path then Some (- ERROR_XLOADER_MODULE_NOT_FOUND, E)
      else let target_pid = find_pid_of E (Some (case process_name of None \<Rightarrow> package_name | Some p \<Rightarrow> p))
           in if target_pid = - 1 then Some (ERROR_XLOADER_PROCESS_NOT_FOUND, E)
              else do { (ret, t) \<leftarrow> trace_remote_process E target_pid CLIENT_PATH_CURRENT CLIENT_ENTRY_FUNC
                                     (info_bytes (make_info package_name module_path)) (e_procs E target_pid);
                        Some (ret, E\<lparr>e_procs := (e_procs E)(target_pid := t)\<rparr>) })"

section \<open>The command line of the loader\<close>

text \<open>
  \<open>getopt(argc, argv, "p:")\<close> with the option loop of \<open>main\<close>: \<open>None\<close> when an option is unknown or its
  argument is missing; otherwise the last \<open>-p\<close> argument and the operands.  Options end at the first operand.
\<close>

fun getopt_loop :: "string option \<Rightarrow> string list \<Rightarrow> (string option \<times> string list) option" where
  "getopt_loop process_name [] = Some (process_name, [])"
| "getopt_loop process_name (arg # args) =
     (case arg of
        c # o1 # rest \<Rightarrow>
          if c = CHR ''-''
          then if o1 = CHR ''-'' \<and> rest = [] then Some (process_name, args)
               else if o1 = CHR ''p''
               then if rest \<noteq> [] then getopt_loop (Some rest) args
                    else (case args of
                            [] \<Rightarrow> None
                          | optarg # args1 \<Rightarrow> getopt_loop (Some optarg) args1)
               else None
          else Some (process_name, arg # args)
      | _ \<Rightarrow> Some (process_name, arg # args))"

definition usage :: int where
  "usage = 1"

definition xloader_main :: "env \<Rightarrow> string list \<Rightarrow> (int \<times> env) option" where
  "xloader_main E argv =
     (case getopt_loop None (tl argv) of
        None \<Rightarrow> Some (usage, E)
      | Some (process_name, [package_name, module_path]) \<Rightarrow> xload E package_name process_name module_path
      | Some (process_name, _) \<Rightarrow> Some (usage, E))"

section \<open>Reading the memory map\<close>

lemma strtok_dash_returns:
  assumes "strstr s name \<noteq> None" "\<exists>c \<in> set name. c \<noteq> CHR ''-''"
  shows "strtok_dash s \<noteq> None"
proof -
  from assms(1) obtain u v where "s = u @ name @ v" unfolding strstr_None_iff by blast
  with assms(2) have "\<exists>c \<in> set s. c \<noteq> CHR ''-''" by auto
  then show ?thesis by (simp add: strtok_dash_def Let_def)
qed

lemma scan_maps_returns:
  assumes "\<exists>c \<in> set name. c \<noteq> CHR ''-''"
  shows "\<exists>a. scan_maps name fp = Some a"
  using assms
proof (induction name fp rule: scan_maps.induct)
  case (1 name fp)
  show ?case
  proof (cases "fgets 1024 fp")
    case None
    then show ?thesis by (subst scan_maps.simps) simp
  next
    case (Some p)
    then obtain line fp1 where f: "fgets 1024 fp = Some (line, fp1)" by (cases p) auto
    show ?thesis
    proof (cases "strstr (cut line) name = None")
      case True
      with 1 f show ?thesis by (subst scan_maps.simps) simp
    next
      case False
      then obtain pch where "strtok_dash (cut line) = Some pch"
        using strtok_dash_returns [OF False] "1.prems" by auto
      with False f show ?thesis by (subst scan_maps.simps) (simp add: Let_def)
    qed
  qed
qed

lemma get_module_base_returns:
  "\<exists>c \<in> set name. c \<noteq> CHR ''-'' \<Longrightarrow> \<exists>a. get_module_base fopen pid name = Some a"
  using scan_maps_returns by (simp add: get_module_base_def split: option.splits)

lemma get_remote_addr_returns:
  "\<exists>c \<in> set name. c \<noteq> CHR ''-'' \<Longrightarrow> \<exists>a. get_remote_addr fopen pid name addr = Some a"
  using get_module_base_returns [of name fopen "- 1"] get_module_base_returns [of name fopen pid]
  by (auto simp: get_remote_addr_def)

lemma strstr_newline:
  assumes "NL \<notin> set name" "name \<noteq> []"
  shows "strstr (l @ [NL]) name = None \<longleftrightarrow> strstr l name = None"
proof -
  have "(\<exists>u v. l @ [NL] = u @ name @ v) \<longleftrightarrow> (\<exists>u v. l = u @ name @ v)"
  proof
    assume "\<exists>u v. l @ [NL] = u @ name @ v"
    then obtain u v where eq: "l @ [NL] = u @ name @ v" by blast
    have "v \<noteq> []"
    proof
      assume "v = []"
      with arg_cong [OF eq, of last] assms(2) have "last name = NL" by simp
      with assms last_in_set [of name] show False by simp
    qed
    then obtain v' x where "v = v' @ [x]" by (metis rev_exhaust)
    with eq show "\<exists>u v. l = u @ name @ v" by auto
  next
    assume "\<exists>u v. l = u @ name @ v"
    then obtain u v where "l @ [NL] = u @ name @ (v @ [NL])" by auto
    then show "\<exists>u v. l @ [NL] = u @ name @ v" by blast
  qed
  then show ?thesis by (simp add: strstr_None_iff)
qed

lemma read_hex_bound:
  assumes "\<forall>c \<in> set ds. hex_val c \<noteq> None"
  shows "read_digits hex_val 16 acc ds < (acc + 1) * 16 ^ length ds"
  using assms
proof (induction ds arbitrary: acc)
  case Nil
  show ?case by simp
next
  case (Cons c ds)
  then obtain d where d: "hex_val c = Some d" by auto
  then have "d < 16" by (auto simp: hex_val_def Let_def split: if_splits)
  then have "(acc * 16 + d + 1) * 16 ^ length ds \<le> ((acc + 1) * 16) * 16 ^ length ds"
    by (intro mult_right_mono) auto
  moreover have "read_digits hex_val 16 (acc * 16 + d) ds < (acc * 16 + d + 1) * 16 ^ length ds"
    using Cons by simp
  ultimately have "read_digits hex_val 16 (acc * 16 + d) ds < ((acc + 1) * 16) * 16 ^ length ds"
    by linarith
  with d show ?case by (simp add: algebra_simps)
qed

definition hex_digits :: "string \<Rightarrow> bool" where
  "hex_digits ds \<longleftrightarrow> ds \<noteq> [] \<and> length ds \<le> 8 \<and> list_all (\<lambda>c. hex_val c \<noteq> None) ds"

lemma hex_val_not_special:
  "hex_val CHR ''-'' = None" "hex_val CHR ''+'' = None" "hex_val CHR ''x'' = None" "hex_val CHR ''X'' = None"
  "isspace c \<Longrightarrow> hex_val c = None" "hex_val NUL = None" "hex_val NL = None"
  by (auto simp: hex_val_def isspace_def)

lemma strtoul16_digits:
  assumes "hex_digits ds"
  shows "strtoul16 ds = word_of_nat (read_digits hex_val 16 0 ds)"
proof -
  from assms obtain c cs where ds: "ds = c # cs" by (cases ds) (auto simp: hex_digits_def)
  have hex: "\<forall>d \<in> set ds. hex_val d \<noteq> None" and len: "length ds \<le> 8"
    using assms by (simp_all add: hex_digits_def list_all_iff)
  have "dropWhile isspace ds = ds" using hex ds hex_val_not_special(5) by auto
  moreover have "read_sign ds = (False, ds)"
    using hex ds hex_val_not_special(1,2) by (auto simp: read_sign_def)
  moreover have "skip_0x ds = ds"
    using hex ds hex_val_not_special(3,4) by (cases cs) (auto simp: skip_0x_def)
  moreover have "read_digits hex_val 16 0 ds < 2 ^ 32"
  proof -
    have "read_digits hex_val 16 0 ds < 16 ^ length ds" using read_hex_bound [OF hex, of 0] by simp
    also have "(16::nat) ^ length ds \<le> 16 ^ 8" using len by (intro power_increasing) auto
    finally show ?thesis by simp
  qed
  ultimately show ?thesis by (simp add: strtoul16_def)
qed

text \<open>A line of a maps file: the start address, a dash, and the rest.\<close>

definition maps_line :: "string \<times> string \<Rightarrow> bool" where
  "maps_line = (\<lambda>(ds, rest). hex_digits ds \<and> NL \<notin> set rest \<and> NUL \<notin> set rest \<and> length ds + length rest + 2 < 1024)"

definition line_text :: "string \<times> string \<Rightarrow> string" where
  "line_text = (\<lambda>(ds, rest). ds @ CHR ''-'' # rest)"

definition maps_text :: "(string \<times> string) list \<Rightarrow> string" where
  "maps_text ms = concat (map (\<lambda>m. line_text m @ [NL]) ms)"

lemma scan_maps_line:
  assumes "maps_line m" "NL \<notin> set name" "name \<noteq> []"
  shows "scan_maps name (line_text m @ NL # fp) =
    (if strstr (line_text m) name \<noteq> None
     then let a = word_of_nat (read_digits hex_val 16 0 (fst m)) in Some (if a = 0x8000 then 0 else a)
     else scan_maps name fp)"
proof -
  obtain ds rest where m: "m = (ds, rest)" by force
  then have fst_m: "fst m = ds" by simp
  have hex: "\<forall>d \<in> set ds. hex_val d \<noteq> None" "ds \<noteq> []"
    using assms(1) by (simp_all add: m maps_line_def hex_digits_def list_all_iff)
  then have no: "NL \<notin> set ds" "NUL \<notin> set ds" "CHR ''-'' \<notin> set ds"
    using hex_val_not_special(1,6,7) by auto
  have f: "fgets 1024 (line_text m @ NL # fp) = Some (line_text m @ [NL], fp)"
    using assms(1) no by (intro fgets_line) (auto simp: m maps_line_def line_text_def)
  have c: "cut (line_text m @ [NL]) = line_text m @ [NL]"
    using assms(1) no by (subst takeWhile_eq_all_conv) (auto simp: m maps_line_def line_text_def)
  have "dropWhile (\<lambda>c. c = CHR ''-'') (ds @ CHR ''-'' # rest @ [NL]) = ds @ CHR ''-'' # rest @ [NL]"
    using no(3) hex(2) by (cases ds) auto
  moreover have "takeWhile (\<lambda>c. c \<noteq> CHR ''-'') (ds @ CHR ''-'' # rest @ [NL]) = ds"
    using no(3) by (induction ds) auto
  ultimately have t: "strtok_dash (line_text m @ [NL]) = Some ds"
    by (simp add: strtok_dash_def m line_text_def Let_def)
  have "strtoul16 ds = word_of_nat (read_digits hex_val 16 0 ds)"
    using assms(1) by (intro strtoul16_digits) (simp add: m maps_line_def)
  with strstr_newline [OF assms(2,3), of "line_text m"] show ?thesis
    by (cases "strstr (line_text m) name = None"; subst scan_maps.simps)
      (auto simp: f c t fst_m Let_def)
qed

definition first_match :: "(string \<times> string) list \<Rightarrow> string \<Rightarrow> u32" where
  "first_match ms name =
     (case find (\<lambda>m. strstr (line_text m) name \<noteq> None) ms of
        None \<Rightarrow> 0
      | Some m \<Rightarrow> let a = word_of_nat (read_digits hex_val 16 0 (fst m)) in if a = 0x8000 then 0 else a)"

lemma scan_maps_text:
  assumes "list_all maps_line ms" "NL \<notin> set name" "name \<noteq> []"
  shows "scan_maps name (maps_text ms) = Some (first_match ms name)"
  using assms(1)
proof (induction ms)
  case Nil
  show ?case by (subst scan_maps.simps) (simp add: maps_text_def first_match_def fgets_def)
next
  case (Cons m ms)
  have "maps_text (m # ms) = line_text m @ NL # maps_text ms" by (simp add: maps_text_def)
  with Cons scan_maps_line [OF _ assms(2,3), of m "maps_text ms"] show ?case
    by (simp add: first_match_def Let_def)
qed

section \<open>The injection as a sequence of calls\<close>

lemma call_or_called:
  assumes "call_or addr ps regs t err k = Some (ret, t')"
    and "\<And>regs1 t1. k regs1 t1 = Some (ret, t') \<Longrightarrow> called t1 t'"
  shows "called t t'"
proof -
  from assms(1) obtain ok regs1 t1 where c: "ptrace_call2 addr ps regs t = Some (ok, regs1, t1)"
    by (auto simp: call_or_def split: option.splits)
  have "called t t1" using c by (rule call2_called)
  moreover have "t' = t1 \<or> called t1 t'"
    using assms c by (auto simp: call_or_def split: bool.splits)
  ultimately show ?thesis using called_trans by blast
qed

lemma writedata_called: "called t (ptrace_writedata peektext poketext t d bs n)"
  by (rule called_frame) simp_all

lemma report_dlerror_called: "report_dlerror a err regs t = Some (ret, t') \<Longrightarrow> called t t'"
  unfolding report_dlerror_def by (erule call_or_called) simp

lemma call_entry_called:
  assumes "call_entry E b h param a regs t = Some (ret, t')"
  shows "called t t'"
  using assms unfolding call_entry_def Let_def
  by (elim call_or_called [THEN called_trans [OF writedata_called]] call_or_called) simp

lemma call_dlsym_called:
  assumes "call_dlsym E a1 a2 b h fn param regs t = Some (ret, t')"
  shows "called t t'"
  using assms unfolding call_dlsym_def Let_def
  by (elim call_or_called [THEN called_trans [OF writedata_called]])
    (auto split: if_splits intro: report_dlerror_called call_entry_called)

lemma call_dlopen_called:
  assumes "call_dlopen E a1 a2 a3 b lib fn param regs t = Some (ret, t')"
  shows "called t t'"
  using assms unfolding call_dlopen_def Let_def
  by (elim call_or_called [THEN called_trans [OF writedata_called]])
    (auto split: if_splits intro: report_dlerror_called call_dlsym_called)

lemma inject_called:
  assumes "inject E pid lib fn param regs t = Some (ret, t')"
  shows "called t t'"
proof -
  from assms obtain a k where "call_or a [0, 0x4000, 7, 0x22, 0, 0] regs t (- ERROR_XLOADER_MMAP_FAILED) k = Some (ret, t')"
      and "k = (\<lambda>regs1 t1. let map_base = ptrace_retval regs1; fs = files E pid (p_maps t1)
        in do { dlopen_addr \<leftarrow> get_remote_addr fs pid linker_path (e_dlopen E);
                dlsym_addr \<leftarrow> get_remote_addr fs pid linker_path (e_dlsym E);
                dlclose_addr \<leftarrow> get_remote_addr fs pid linker_path (e_dlclose E);
                dlerror_addr \<leftarrow> get_remote_addr fs pid linker_path (e_dlerror E);
                if dlopen_addr = 0 \<or> dlsym_addr = 0 \<or> dlclose_addr = 0 \<or> dlerror_addr = 0
                then Some (- ERROR_XLOADER_DL_NOT_LOADED, t1)
                else call_dlopen E dlopen_addr dlsym_addr dlerror_addr map_base lib fn param regs1 t1 })"
    unfolding inject_def bind_eq_Some_conv by blast
  then show ?thesis
    by (elim call_or_called)
      (auto simp: bind_eq_Some_conv Let_def split: if_splits intro: call_dlopen_called)
qed

text \<open>Five stops that end a call are enough for the injection to return.\<close>

lemma call_or_returns:
  assumes "n < stops t" and "\<And>regs1 t1. n \<le> stops t1 \<Longrightarrow> \<exists>r. k regs1 t1 = Some r"
  shows "\<exists>r. call_or addr ps regs t err k = Some r"
proof -
  obtain ok regs1 t1 where c: "ptrace_call2 addr ps regs t = Some (ok, regs1, t1)"
      "ok \<longrightarrow> Suc (stops t1) = stops t"
    using call2_returns [of t addr ps regs] assms(1) by auto
  then show ?thesis using assms by (cases ok) (auto simp: call_or_def)
qed

lemma stops_writedata [simp]: "stops (ptrace_writedata peektext poketext t d bs n) = stops t"
  by (simp add: stops_def)

lemma report_dlerror_returns: "1 \<le> stops t \<Longrightarrow> \<exists>r. report_dlerror a err regs t = Some r"
  unfolding report_dlerror_def by (rule call_or_returns [of 0]) auto

lemma call_entry_returns: "2 \<le> stops t \<Longrightarrow> \<exists>r. call_entry E b h param a regs t = Some r"
  unfolding call_entry_def Let_def
  by (rule call_or_returns [of 1], simp, rule call_or_returns [of 0]) auto

lemma call_dlsym_returns: "3 \<le> stops t \<Longrightarrow> \<exists>r. call_dlsym E a1 a2 b h fn param regs t = Some r"
  unfolding call_dlsym_def Let_def
  by (rule call_or_returns [of 2]) (auto simp del: split_paired_Ex intro: report_dlerror_returns call_entry_returns)

lemma call_dlopen_returns:
  "4 \<le> stops t \<Longrightarrow> \<exists>r. call_dlopen E a1 a2 a3 b lib fn param regs t = Some r"
  unfolding call_dlopen_def Let_def
  by (rule call_or_returns [of 3]) (auto simp del: split_paired_Ex intro: report_dlerror_returns call_dlsym_returns)

lemma path_dash:
  "\<exists>c \<in> set libc_path. c \<noteq> CHR ''-''" "\<exists>c \<in> set linker_path. c \<noteq> CHR ''-''"
  "\<exists>c \<in> set CLIENT_PATH_CURRENT. c \<noteq> CHR ''-''"
  by (simp_all add: libc_path_def linker_path_def CLIENT_PATH_CURRENT_def)

lemma inject_returns: "5 \<le> stops t \<Longrightarrow> \<exists>r. inject E pid lib fn param regs t = Some r"
proof -
  assume st: "5 \<le> stops t"
  let ?addr = "\<lambda>t name. get_remote_addr (files E pid (p_maps t)) pid name"
  have dl: "\<exists>a. ?addr t1 linker_path l = Some a" for t1 l
    by (rule get_remote_addr_returns) (rule path_dash)
  obtain a where a: "?addr t libc_path (e_mmap E) = Some a"
    using get_remote_addr_returns path_dash(1) by blast
  show ?thesis
    unfolding inject_def a bind.bind_lunit
  proof (rule call_or_returns [of 4])
    show "4 < stops t" using st by simp
    fix regs1 t1
    assume "4 \<le> stops t1"
    then show "\<exists>r. (let map_base = ptrace_retval regs1; fs = files E pid (p_maps t1)
       in do { dlopen_addr \<leftarrow> get_remote_addr fs pid linker_path (e_dlopen E);
               dlsym_addr \<leftarrow> get_remote_addr fs pid linker_path (e_dlsym E);
               dlclose_addr \<leftarrow> get_remote_addr fs pid linker_path (e_dlclose E);
               dlerror_addr \<leftarrow> get_remote_addr fs pid linker_path (e_dlerror E);
               if dlopen_addr = 0 \<or> dlsym_addr = 0 \<or> dlclose_addr = 0 \<or> dlerror_addr = 0
               then Some (- ERROR_XLOADER_DL_NOT_LOADED, t1)
               else call_dlopen E dlopen_addr dlsym_addr dlerror_addr map_base lib fn param regs1 t1 }) = Some r"
      using dl [of t1 "e_dlopen E"] dl [of t1 "e_dlsym E"] dl [of t1 "e_dlclose E"] dl [of t1 "e_dlerror E"]
      by (auto simp: Let_def simp del: split_paired_Ex intro: call_dlopen_returns)
  qed
qed

text \<open>The states in which a history lets the process run.\<close>

fun resumed :: "ptrace_req list \<Rightarrow> (pt_regs \<times> memory) list" where
  "resumed [] = []"
| "resumed (PTRACE_CONT regs m # qs) = (regs, m) # resumed qs"
| "resumed (_ # qs) = resumed qs"

lemma resumed_append [simp]: "resumed (qs @ qs') = resumed qs @ resumed qs'"
  by (induction qs rule: resumed.induct) simp_all

lemma call_or_step:
  assumes "p_results t = []" "p_runs t = r # rs" "r_status r = CALL_STOP"
    and "length ps \<le> 10" "mapped (p_mem t) (ARM_sp regs - word_of_nat (length ps - 4) * 4) ((length ps - 4) * 4)"
  obtains t2 regs1 m1 where "call_or a ps regs t err k = k (r_regs r) t2"
    and "p_results t2 = []" "p_runs t2 = rs" "p_mem t2 = r_mem r" "p_maps t2 = r_maps r"
    and "resumed (p_reqs t2) = resumed (p_reqs t) @ [(regs1, m1)]" "is_call a ps regs1 m1"
    and "length ps \<le> 4 \<Longrightarrow> m1 = p_mem t"
proof -
  obtain regs1 t1 where c: "call_setup a ps regs t = (regs1, t1)" by force
  note res = call2_ok [OF assms(1-3) c]
  have "is_call a ps regs1 (p_mem t1)" using call_setup_is_call [OF assms(4,5), of a] c by simp
  moreover have "p_results t1 = []" using call_setup_frame(3) [of a ps regs t] assms(1) c by simp
  moreover have "length ps \<le> 4 \<Longrightarrow> p_mem t1 = p_mem t" using call_setup_small(1) [of ps a regs t] c by simp
  ultimately show ?thesis
    by (intro that [of "t1\<lparr>p_regs := r_regs r, p_mem := r_mem r, p_maps := r_maps r, p_runs := rs,
         p_reqs := p_reqs t @ [PTRACE_SETREGS regs1, PTRACE_CONT regs1 (p_mem t1), PTRACE_GETREGS]\<rparr>"
          regs1 "p_mem t1"])
      (simp_all add: call_or_def res)
qed

lemma length_cstring_bytes [simp]: "length (cstring_bytes s) = length s + 1"
  by (simp add: cstring_bytes_def)

lemma writedata_placed:
  assumes "mapped (p_mem t) d (word_span (length bs))" "length bs \<le> 0x4000"
  shows "view_bytes (p_mem (ptrace_writedata peektext poketext t d bs (length bs))) d (length bs) = bs"
proof -
  have "word_span (length bs) \<le> 2 ^ 32" using assms(2) word_span_bounds(2) [of "length bs"] by simp
  with assms show ?thesis by (simp add: tm.writedata_view view_bytes_overlay)
qed

lemma call_entry_run:
  assumes "p_results t = []" "p_runs t = r4 # r5 # rs" "r_status r4 = CALL_STOP" "r_status r5 = CALL_STOP"
    and "mapped (p_mem t) (base + 0x200) (word_span (length param))" "length param \<le> 0x3e00"
  shows "\<exists>t' g4 m4 g5 m5. call_entry E base handle param entry regs t = Some (sint (ptrace_retval (r_regs r4)), t') \<and>
    p_results t' = [] \<and> resumed (p_reqs t') = resumed (p_reqs t) @ [(g4, m4), (g5, m5)] \<and>
    is_call entry [base + 0x200] g4 m4 \<and> view_bytes m4 (base + 0x200) (length param) = param \<and>
    is_call (e_dlclose E) [handle] g5 m5"
proof -
  let ?t = "ptrace_writedata peektext poketext t (base + 0x200) param (length param)"
  let ?k = "\<lambda>regs2 t2. let ret = sint (ptrace_retval regs2)
      in call_or (e_dlclose E) [handle] regs2 t2 (- ERROR_XLOADER_REMOTE_CALL_FAILED) (\<lambda>regs3 t3. Some (ret, t3))"
  obtain t4 g4 m4 where 4: "call_or entry [base + 0x200] regs ?t (- ERROR_XLOADER_REMOTE_CALL_FAILED) ?k = ?k (r_regs r4) t4"
      "p_results t4 = []" "p_runs t4 = r5 # rs" "resumed (p_reqs t4) = resumed (p_reqs t) @ [(g4, m4)]"
      "is_call entry [base + 0x200] g4 m4" "m4 = p_mem ?t"
    by (rule call_or_step [of ?t r4 "r5 # rs" "[base + 0x200]" regs entry _ ?k])
      (use assms in \<open>simp_all add: mapped_def\<close>)
  let ?k5 = "\<lambda>regs3 t3. Some (sint (ptrace_retval (r_regs r4)), t3)"
  obtain t5 g5 m5 where 5: "call_or (e_dlclose E) [handle] (r_regs r4) t4 (- ERROR_XLOADER_REMOTE_CALL_FAILED) ?k5 = ?k5 (r_regs r5) t5"
      "p_results t5 = []" "resumed (p_reqs t5) = resumed (p_reqs t4) @ [(g5, m5)]" "is_call (e_dlclose E) [handle] g5 m5"
    by (rule call_or_step [of t4 r5 rs "[handle]" "r_regs r4" "e_dlclose E" _ ?k5])
      (use assms 4 in \<open>simp_all add: mapped_def\<close>)
  have "view_bytes m4 (base + 0x200) (length param) = param"
    using assms(5,6) writedata_placed [of t "base + 0x200" param] by (simp add: 4)
  moreover have "call_entry E base handle param entry regs t = Some (sint (ptrace_retval (r_regs r4)), t5)"
    using 4(1) 5(1) by (simp add: call_entry_def Let_def)
  ultimately show ?thesis using 4 5 by auto
qed

lemma call_dlsym_run:
  assumes "p_results t = []" "p_runs t = r3 # rs" "r_status r3 = CALL_STOP" "ptrace_retval (r_regs r3) \<noteq> 0"
    and "mapped (p_mem t) (base + 0x100) (word_span (length fn + 1))" "length fn < 0x100"
  obtains t3 g3 m3 where "call_dlsym E a_sym a_err base handle fn param regs t =
      call_entry E base handle param (ptrace_retval (r_regs r3)) (r_regs r3) t3"
    and "p_results t3 = []" "p_runs t3 = rs" "p_mem t3 = r_mem r3"
    and "resumed (p_reqs t3) = resumed (p_reqs t) @ [(g3, m3)]" "is_call a_sym [handle, base + 0x100] g3 m3"
    and "view_bytes m3 (base + 0x100) (length fn + 1) = cstring_bytes fn"
proof -
  let ?t = "ptrace_writedata peektext poketext t (base + 0x100) (cstring_bytes fn) (length fn + 1)"
  let ?k = "\<lambda>regs2 t2. let client_entry_addr = ptrace_retval regs2
      in if client_entry_addr = 0 then report_dlerror a_err (- ERROR_XLOADER_DLSYM_FAILED) regs2 t2
         else call_entry E base handle param client_entry_addr regs2 t2"
  obtain t3 g3 m3 where 3: "call_or a_sym [handle, base + 0x100] regs ?t (- ERROR_XLOADER_REMOTE_CALL_FAILED) ?k = ?k (r_regs r3) t3"
      "p_results t3 = []" "p_runs t3 = rs" "p_mem t3 = r_mem r3" "resumed (p_reqs t3) = resumed (p_reqs t) @ [(g3, m3)]"
      "is_call a_sym [handle, base + 0x100] g3 m3" "m3 = p_mem ?t"
    by (rule call_or_step [of ?t r3 rs "[handle, base + 0x100]" regs a_sym _ ?k])
      (use assms in \<open>simp_all add: mapped_def\<close>)
  have "view_bytes m3 (base + 0x100) (length fn + 1) = cstring_bytes fn"
    using assms(5,6) writedata_placed [of t "base + 0x100" "cstring_bytes fn"] by (simp add: 3)
  moreover have "call_dlsym E a_sym a_err base handle fn param regs t =
      call_entry E base handle param (ptrace_retval (r_regs r3)) (r_regs r3) t3"
    using 3(1) assms(4) by (simp add: call_dlsym_def Let_def)
  ultimately show ?thesis using 3 by (intro that)
qed

lemma call_dlopen_run:
  assumes "p_results t = []" "p_runs t = r2 # rs" "r_status r2 = CALL_STOP" "ptrace_retval (r_regs r2) \<noteq> 0"
    and "mapped (p_mem t) base (word_span (length lib + 1))" "length lib < 0x100"
  obtains t2 g2 m2 where "call_dlopen E a_open a_sym a_err base lib fn param regs t =
      call_dlsym E a_sym a_err base (ptrace_retval (r_regs r2)) fn param (r_regs r2) t2"
    and "p_results t2 = []" "p_runs t2 = rs" "p_mem t2 = r_mem r2"
    and "resumed (p_reqs t2) = resumed (p_reqs t) @ [(g2, m2)]" "is_call a_open [base, 2] g2 m2"
    and "view_bytes m2 base (length lib + 1) = cstring_bytes lib"
proof -
  let ?t = "ptrace_writedata peektext poketext t base (cstring_bytes lib) (length lib + 1)"
  let ?k = "\<lambda>regs2 t2. let sohandle = ptrace_retval regs2
      in if sohandle = 0 then report_dlerror a_err (- ERROR_XLOADER_DLOPEN_FAILED) regs2 t2
         else call_dlsym E a_sym a_err base sohandle fn param regs2 t2"
  obtain t2 g2 m2 where 2: "call_or a_open [base, 2] regs ?t (- ERROR_XLOADER_REMOTE_CALL_FAILED) ?k = ?k (r_regs r2) t2"
      "p_results t2 = []" "p_runs t2 = rs" "p_mem t2 = r_mem r2" "resumed (p_reqs t2) = resumed (p_reqs t) @ [(g2, m2)]"
      "is_call a_open [base, 2] g2 m2" "m2 = p_mem ?t"
    by (rule call_or_step [of ?t r2 rs "[base, 2]" regs a_open _ ?k])
      (use assms in \<open>simp_all add: mapped_def\<close>)
  have "view_bytes m2 base (length lib + 1) = cstring_bytes lib"
    using assms(5,6) writedata_placed [of t base "cstring_bytes lib"] by (simp add: 2)
  moreover have "call_dlopen E a_open a_sym a_err base lib fn param regs t =
      call_dlsym E a_sym a_err base (ptrace_retval (r_regs r2)) fn param (r_regs r2) t2"
    using 2(1) assms(4) by (simp add: call_dlopen_def Let_def)
  ultimately show ?thesis using 2 by (intro that)
qed

text \<open>The addresses of the dynamic linker's functions in the process, all of them found.\<close>

definition dl_found :: "env \<Rightarrow> int \<Rightarrow> string \<Rightarrow> u32 \<Rightarrow> u32 \<Rightarrow> bool" where
  "dl_found E pid maps a_open a_sym \<longleftrightarrow>
     (let addr = get_remote_addr (files E pid maps) pid linker_path
      in addr (e_dlopen E) = Some a_open \<and> a_open \<noteq> 0 \<and> addr (e_dlsym E) = Some a_sym \<and> a_sym \<noteq> 0 \<and>
         addr (e_dlclose E) \<noteq> Some 0 \<and> addr (e_dlerror E) \<noteq> Some 0)"

lemma inject_run:
  assumes "p_results t = []" "p_runs t = r1 # rs" "r_status r1 = CALL_STOP"
    and "get_remote_addr (files E pid (p_maps t)) pid libc_path (e_mmap E) = Some a_mmap"
    and "dl_found E pid (r_maps r1) a_open a_sym"
    and "mapped (p_mem t) (ARM_sp regs - 8) 8"
  obtains t1 a_err g1 m1 where "inject E pid lib fn param regs t =
      call_dlopen E a_open a_sym a_err (ptrace_retval (r_regs r1)) lib fn param (r_regs r1) t1"
    and "p_results t1 = []" "p_runs t1 = rs" "p_mem t1 = r_mem r1"
    and "resumed (p_reqs t1) = resumed (p_reqs t) @ [(g1, m1)]" "is_call a_mmap [0, 0x4000, 7, 0x22, 0, 0] g1 m1"
proof -
  let ?k = "\<lambda>regs1 t1. let map_base = ptrace_retval regs1; fs = files E pid (p_maps t1)
        in do { dlopen_addr \<leftarrow> get_remote_addr fs pid linker_path (e_dlopen E);
                dlsym_addr \<leftarrow> get_remote_addr fs pid linker_path (e_dlsym E);
                dlclose_addr \<leftarrow> get_remote_addr fs pid linker_path (e_dlclose E);
                dlerror_addr \<leftarrow> get_remote_addr fs pid linker_path (e_dlerror E);
                if dlopen_addr = 0 \<or> dlsym_addr = 0 \<or> dlclose_addr = 0 \<or> dlerror_addr = 0
                then Some (- ERROR_XLOADER_DL_NOT_LOADED, t1)
                else call_dlopen E dlopen_addr dlsym_addr dlerror_addr map_base lib fn param regs1 t1 }"
  let ?ps = "[0, 0x4000, 7, 0x22, 0, 0]"
  obtain t1 g1 m1 where 1: "call_or a_mmap ?ps regs t (- ERROR_XLOADER_MMAP_FAILED) ?k = ?k (r_regs r1) t1"
      "p_results t1 = []" "p_runs t1 = rs" "p_mem t1 = r_mem r1" "p_maps t1 = r_maps r1"
      "resumed (p_reqs t1) = resumed (p_reqs t) @ [(g1, m1)]" "is_call a_mmap ?ps g1 m1"
    by (rule call_or_step [of t r1 rs ?ps regs a_mmap _ ?k]) (use assms in simp_all)
  obtain a_close a_err where "get_remote_addr (files E pid (r_maps r1)) pid linker_path (e_dlclose E) = Some a_close"
      "get_remote_addr (files E pid (r_maps r1)) pid linker_path (e_dlerror E) = Some a_err"
    using get_remote_addr_returns path_dash(2) by metis
  then have "?k (r_regs r1) t1 =
      call_dlopen E a_open a_sym a_err (ptrace_retval (r_regs r1)) lib fn param (r_regs r1) t1"
    using assms(5) by (auto simp: Let_def 1(5) dl_found_def)
  then have "inject E pid lib fn param regs t =
      call_dlopen E a_open a_sym a_err (ptrace_retval (r_regs r1)) lib fn param (r_regs r1) t1"
    unfolding inject_def assms(4) bind.bind_lunit 1(1) by simp
  with 1 show ?thesis by (intro that)
qed

section \<open>The parameter block\<close>

lemma info_fields:
  assumes "is_cstr package_name" "is_cstr module_path"
  shows "let buf = map char_of_byte (info_bytes (make_info package_name module_path))
    in length buf = 768 \<and>
       cstr_at buf 0 = Some (if length package_name < 256 then package_name
                             else take 256 package_name @ BRIDGE_PATH_CURRENT) \<and>
       cstr_at buf 256 = Some BRIDGE_PATH_CURRENT \<and>
       cstr_at buf 512 = (if length module_path < 256 then Some module_path else None)"
proof -
  let ?p = "strncpy 256 package_name" and ?b = "strncpy 256 BRIDGE_PATH_CURRENT" and ?m = "strncpy 256 module_path"
  have buf: "map char_of_byte (info_bytes (make_info package_name module_path)) = ?p @ ?b @ ?m"
    by (simp add: info_bytes_def make_info_def comp_def)
  have "is_cstr BRIDGE_PATH_CURRENT" "length BRIDGE_PATH_CURRENT < 256"
    by (simp_all add: BRIDGE_PATH_CURRENT_def)
  then have b: "cstr_at (?b @ ?m) 0 = Some BRIDGE_PATH_CURRENT"
    by (intro cstr_at_extend) (simp add: cstr_at_strncpy)
  have "cstr_at (?p @ ?b @ ?m) 0 = Some (if length package_name < 256 then package_name
      else take 256 package_name @ BRIDGE_PATH_CURRENT)"
  proof (cases "length package_name < 256")
    case True
    with assms show ?thesis by (simp add: cstr_at_extend cstr_at_strncpy)
  next
    case False
    then have "?p = take 256 package_name" by (simp add: strncpy_def)
    moreover have "is_cstr (take 256 package_name)"
      using assms(1) by (auto simp: is_cstr_def dest: in_set_takeD)
    ultimately show ?thesis using False cstr_at_run_on [OF _ b] by simp
  qed
  moreover have "cstr_at (?p @ ?b @ ?m) 256 = Some BRIDGE_PATH_CURRENT"
    using b by (simp add: cstr_at_prefix)
  moreover have "cstr_at ((?p @ ?b) @ ?m) 512 = (if length module_path < 256 then Some module_path else None)"
    using assms(2) by (subst cstr_at_prefix) (simp_all add: cstr_at_strncpy)
  ultimately show ?thesis by (simp add: buf Let_def del: map_append)
qed

section \<open>Leaving the process\<close>

text \<open>The labels \<open>exit_regs\<close> and \<open>exit_detach\<close>.\<close>

lemma exit_regs_reqs:
  "p_reqs (snd (ptrace_detach (snd (ptrace_setregs regs t)))) = p_reqs t @ [PTRACE_SETREGS regs, PTRACE_DETACH]"
  by (auto simp: ptrace_detach_def ptrace_setregs_def request_def split: list.splits bool.splits)

lemma exit_regs_restores:
  assumes "p_results t = []"
  shows "p_regs (snd (ptrace_detach (snd (ptrace_setregs regs t)))) = regs"
    and "\<not> p_attached (snd (ptrace_detach (snd (ptrace_setregs regs t))))"
    and "p_mem (snd (ptrace_detach (snd (ptrace_setregs regs t)))) = p_mem t"
  using assms by (simp_all add: ptrace_detach_def ptrace_setregs_def request_def)

lemma attach_cases:
  assumes "ptrace_attach t = Some (ok, t1)"
  shows "p_reqs t1 = p_reqs t @ [PTRACE_ATTACH]" "p_results t = [] \<longrightarrow> p_results t1 = []"
    and "ok \<Longrightarrow> \<exists>r rs. p_runs t = r # rs \<and> p_regs t1 = r_regs r \<and> p_mem t1 = r_mem r \<and> p_maps t1 = r_maps r \<and> p_runs t1 = rs"
  using assms
  by (auto simp: ptrace_attach_def request_def waitpid_def split: list.splits bool.splits option.splits)

lemma attach_ok:
  "p_results t = [] \<Longrightarrow> p_runs t = r # rs \<Longrightarrow>
    ptrace_attach t = Some (True, t\<lparr>p_reqs := p_reqs t @ [PTRACE_ATTACH], p_attached := True,
      p_regs := r_regs r, p_mem := r_mem r, p_maps := r_maps r, p_runs := rs\<rparr>)"
  by (simp add: ptrace_attach_def request_def waitpid_def)

lemma attach_returns:
  assumes "p_runs t = r # rs"
  shows "\<exists>ok t1. ptrace_attach t = Some (ok, t1) \<and> (ok \<longrightarrow> p_runs t1 = rs)"
proof (cases "p_results t")
  case Nil
  with assms show ?thesis by (auto simp: attach_ok)
next
  case (Cons b bs)
  with assms show ?thesis by (cases b) (auto simp: ptrace_attach_def request_def waitpid_def)
qed

lemma trace_returns:
  assumes "p_runs t = r # rs" "5 \<le> length (filter (\<lambda>r. r_status r = CALL_STOP) rs)"
  shows "\<exists>r. trace_remote_process E pid CLIENT_PATH_CURRENT fn param t = Some r"
proof -
  obtain a where base: "get_module_base (files E pid (p_maps t)) pid CLIENT_PATH_CURRENT = Some a"
    using get_module_base_returns path_dash(3) by blast
  obtain ok t1 where at: "ptrace_attach t = Some (ok, t1)" "ok \<longrightarrow> p_runs t1 = rs"
    using attach_returns [OF assms(1)] by blast
  obtain g t2 where g: "ptrace_getregs t1 = (g, t2)" by force
  then have runs: "p_runs t2 = p_runs t1"
    by (auto simp: ptrace_getregs_def request_def split: list.splits bool.splits)
  show ?thesis
  proof (cases "a = 0 \<and> ok \<and> g \<noteq> None")
    case True
    then obtain regs where regs: "g = Some regs" by auto
    from True at(2) runs assms(2) have "5 \<le> stops t2" by (simp add: stops_def)
    then obtain ret t3 where "inject E pid CLIENT_PATH_CURRENT fn param regs t2 = Some (ret, t3)"
      using inject_returns by fastforce
    with True regs base at(1) g show ?thesis by (simp add: trace_remote_process_def)
  next
    case False
    with base at(1) g show ?thesis
      by (cases "a = 0"; cases ok) (auto simp: trace_remote_process_def)
  qed
qed

section \<open>Properties\<close>

text \<open>
  C2 Whatever ptrace request fails and wherever the injection stops, \<open>trace_remote_process\<close> leaves the
  target in one of four ways: untouched because the library is mapped already; never attached; attached and
  detached; or attached, called into, given back the registers it was stopped with, and detached last.  If no
  request fails, it runs on with exactly those registers.
\<close>

theorem trace_protocol:
  assumes "trace_remote_process E pid lib fn param t = Some (ret, t')"
  shows "ret = ERROR_XLOADER_PROCESS_LOADED \<and> t' = t \<or>
    ret = - ERROR_XLOADER_PTRACE_FAILED \<and> p_reqs t' = p_reqs t @ [PTRACE_ATTACH] \<or>
    ret = - ERROR_XLOADER_PTRACE_FAILED \<and> p_reqs t' = p_reqs t @ [PTRACE_ATTACH, PTRACE_GETREGS, PTRACE_DETACH] \<or>
    (\<exists>r rs qs. p_runs t = r # rs \<and> list_all call_req qs \<and>
       p_reqs t' = p_reqs t @ [PTRACE_ATTACH, PTRACE_GETREGS] @ qs @ [PTRACE_SETREGS (r_regs r), PTRACE_DETACH] \<and>
       (p_results t = [] \<longrightarrow> p_regs t' = r_regs r \<and> \<not> p_attached t'))"
proof -
  from assms obtain a where base: "get_module_base (files E pid (p_maps t)) pid lib = Some a"
    by (auto simp: trace_remote_process_def bind_eq_Some_conv)
  show ?thesis
  proof (cases "a = 0")
    case False
    with assms base show ?thesis by (auto simp: trace_remote_process_def)
  next
    case True
    with assms base obtain ok t1 where at: "ptrace_attach t = Some (ok, t1)"
      by (auto simp: trace_remote_process_def bind_eq_Some_conv)
    obtain g t2 where gr: "ptrace_getregs t1 = (g, t2)" by force
    have t2: "p_reqs t2 = p_reqs t @ [PTRACE_ATTACH, PTRACE_GETREGS]" "g = None \<or> g = Some (p_regs t1)"
        "p_results t = [] \<longrightarrow> p_results t2 = []"
      using gr attach_cases(1,2) [OF at]
      by (auto simp: ptrace_getregs_def request_def split: list.splits bool.splits)
    have D: "trace_remote_process E pid lib fn param t =
       (if \<not> ok then Some (- ERROR_XLOADER_PTRACE_FAILED, t1)
        else case g of None \<Rightarrow> Some (- ERROR_XLOADER_PTRACE_FAILED, snd (ptrace_detach t2))
             | Some original_regs \<Rightarrow> do { (ret, t3) \<leftarrow> inject E pid lib fn param original_regs t2;
                   Some (ret, snd (ptrace_detach (snd (ptrace_setregs original_regs t3)))) })"
      using base True at gr by (simp add: trace_remote_process_def Let_def split: option.splits)
    show ?thesis
    proof (cases "ok \<and> g \<noteq> None")
      case False
      with assms D t2(1) attach_cases(1) [OF at] show ?thesis
        by (auto simp: ptrace_detach_def request_def split: if_splits list.splits bool.splits)
    next
      case True
      with D assms t2(2) obtain t3 where inj: "inject E pid lib fn param (p_regs t1) t2 = Some (ret, t3)"
          and t': "t' = snd (ptrace_detach (snd (ptrace_setregs (p_regs t1) t3)))"
        by (cases "inject E pid lib fn param (p_regs t1) t2") auto
      from inject_called [OF inj] obtain qs where "p_reqs t3 = p_reqs t2 @ qs" "list_all call_req qs"
          "p_results t2 = [] \<longrightarrow> p_results t3 = []"
        by (auto simp: called_def)
      with True t' t2 attach_cases(3) [OF at] exit_regs_reqs exit_regs_restores(1,2) show ?thesis by auto
    qed
  qed
qed

text \<open>A device with one process, 77, whose libc and linker are at other addresses than the loader's.\<close>

definition demo_self_maps :: string where
  "demo_self_maps = maps_text [(''40000000'', ''40050000 r-xp /system/lib/libc.so''), (''50000000'', ''50010000 r-xp /system/bin/linker'')]"

definition demo_maps :: string where
  "demo_maps = maps_text [(''60000000'', ''60050000 r-xp /system/lib/libc.so''), (''70000000'', ''70010000 r-xp /system/bin/linker'')]"

definition demo_run :: "u32 \<Rightarrow> run" where
  "demo_run r0 = \<lparr>r_status = CALL_STOP, r_regs = \<lparr>uregs = (\<lambda>_. 0)(0 := r0, 13 := 0x9000)\<rparr>, r_mem = (\<lambda>_. Some 0), r_maps = demo_maps\<rparr>"

definition demo_target :: "bool list \<Rightarrow> tracee" where
  "demo_target results = \<lparr>p_regs = demo_regs, p_mem = (\<lambda>_. Some 0), p_maps = demo_maps, p_attached = False,
     p_results = results,
     p_runs = [demo_run 1, demo_run 0x80000000, demo_run 0x1234, demo_run 0x60001001, demo_run (- 13), demo_run 0],
     p_reqs = []\<rparr>"

definition demo_env :: "bool list \<Rightarrow> env" where
  "demo_env results = \<lparr>e_stat = (\<lambda>_. True),
     e_fopen = [''/proc/self/maps'' \<mapsto> demo_self_maps, ''/proc/77/cmdline'' \<mapsto> ''com.app''],
     e_proc = Some [''.'', ''self'', ''77''], e_cmdline = [],
     e_mmap = 0x40000100, e_dlopen = 0x50000200, e_dlsym = 0x50000300, e_dlclose = 0x50000400, e_dlerror = 0x50000500,
     e_procs = (\<lambda>_. demo_target results)\<rparr>"

lemma demo_files:
  "files (demo_env res) 77 demo_maps (maps_file 77) = Some demo_maps"
  "files (demo_env res) 77 demo_maps ''/proc/self/maps'' = Some demo_self_maps"
  by (simp_all add: files_def demo_env_def maps_file_def show_int_def dec_nat.simps digit_char_def)

lemma demo_scan:
  "scan_maps CLIENT_PATH_CURRENT demo_maps = Some 0"
  "scan_maps libc_path demo_maps = Some 0x60000000" "scan_maps libc_path demo_self_maps = Some 0x40000000"
  "scan_maps linker_path demo_maps = Some 0x70000000" "scan_maps linker_path demo_self_maps = Some 0x50000000"
  unfolding demo_maps_def demo_self_maps_def CLIENT_PATH_CURRENT_def libc_path_def linker_path_def
  by (subst scan_maps_text; simp add: maps_line_def hex_digits_def hex_val_def first_match_def line_text_def)+

lemma demo_module_bases:
  "get_module_base (files (demo_env res) 77 demo_maps) 77 CLIENT_PATH_CURRENT = Some 0"
  "get_remote_addr (files (demo_env res) 77 demo_maps) 77 libc_path 0x40000100 = Some 0x60000100"
  "get_remote_addr (files (demo_env res) 77 demo_maps) 77 linker_path 0x50000200 = Some 0x70000200"
  "get_remote_addr (files (demo_env res) 77 demo_maps) 77 linker_path 0x50000300 = Some 0x70000300"
  "get_remote_addr (files (demo_env res) 77 demo_maps) 77 linker_path 0x50000400 = Some 0x70000400"
  "get_remote_addr (files (demo_env res) 77 demo_maps) 77 linker_path 0x50000500 = Some 0x70000500"
  by (simp_all add: get_remote_addr_def get_module_base_def demo_files demo_scan)

lemma demo_env_simps [simp]:
  "e_mmap (demo_env res) = 0x40000100" "e_dlopen (demo_env res) = 0x50000200" "e_dlsym (demo_env res) = 0x50000300"
  "e_dlclose (demo_env res) = 0x50000400" "e_dlerror (demo_env res) = 0x50000500"
  "e_procs (demo_env res) pid = demo_target res"
  by (simp_all add: demo_env_def)

lemma demo_target_simps [simp]:
  "p_results (demo_target res) = res" "p_reqs (demo_target res) = []" "p_maps (demo_target res) = demo_maps"
  "p_runs (demo_target res) = [demo_run 1, demo_run 0x80000000, demo_run 0x1234, demo_run 0x60001001, demo_run (- 13), demo_run 0]"
  by (simp_all add: demo_target_def)

lemma demo_run_simps [simp]:
  "r_status (demo_run v) = CALL_STOP" "r_maps (demo_run v) = demo_maps" "mapped (r_mem (demo_run v)) a n"
  "ptrace_retval (r_regs (demo_run v)) = v"
  by (simp_all add: demo_run_def mapped_iff ptrace_retval_def)

lemma call_or_setregs_fails:
  assumes "p_results t = False # rs"
  shows "\<exists>t'. call_or a ps regs t err k = Some (err, t')"
proof -
  obtain regs1 t1 where c: "call_setup a ps regs t = (regs1, t1)" by force
  then have "p_results t1 = False # rs" using call_setup_frame(3) [of a ps regs t] assms by simp
  with c show ?thesis
    by (simp add: call_or_def ptrace_call2_def ptrace_call_def ptrace_setregs_def request_def)
qed

lemma inject_mmap_fails:
  assumes "p_results t = False # rs"
    and "get_remote_addr (files E pid (p_maps t)) pid libc_path (e_mmap E) = Some a"
  shows "\<exists>t'. inject E pid lib fn param regs t = Some (- ERROR_XLOADER_MMAP_FAILED, t')"
  unfolding inject_def assms(2) bind.bind_lunit by (rule call_or_setregs_fails [OF assms(1)])

theorem trace_protocol_witness:
  "\<exists>t'. trace_remote_process (demo_env []) 77 CLIENT_PATH_CURRENT CLIENT_ENTRY_FUNC [1, 2, 3] (demo_target [True, True, False]) =
      Some (- ERROR_XLOADER_MMAP_FAILED, t') \<and>
    (\<exists>qs. p_reqs t' = [PTRACE_ATTACH, PTRACE_GETREGS] @ qs @ [PTRACE_SETREGS (r_regs (demo_run 1)), PTRACE_DETACH])"
proof -
  let ?t = "demo_target [True, True, False]"
  obtain t1 where at: "ptrace_attach ?t = Some (True, t1)" and t1: "p_results t1 = [True, False]" "p_maps t1 = demo_maps"
    by (simp add: ptrace_attach_def request_def waitpid_def)
  obtain regs t2 where gr: "ptrace_getregs t1 = (Some regs, t2)" and t2: "p_results t2 = [False]" "p_maps t2 = demo_maps"
    using t1 by (simp add: ptrace_getregs_def request_def)
  obtain t3 where "inject (demo_env []) 77 CLIENT_PATH_CURRENT CLIENT_ENTRY_FUNC [1, 2, 3] regs t2 =
      Some (- ERROR_XLOADER_MMAP_FAILED, t3)"
    using inject_mmap_fails [OF t2(1)] demo_module_bases(2) t2(2) by fastforce
  with at gr obtain t' where t': "trace_remote_process (demo_env []) 77 CLIENT_PATH_CURRENT CLIENT_ENTRY_FUNC [1, 2, 3] ?t =
      Some (- ERROR_XLOADER_MMAP_FAILED, t')"
    by (simp add: trace_remote_process_def demo_module_bases)
  show ?thesis
    using trace_protocol [OF t'] t' by auto
qed

text \<open>
  C1 When the target answers every request, the injection lets it run exactly five times, each time as one
  call: \<open>mmap\<close> of 0x4000 bytes, readable, writable and executable; \<open>dlopen\<close> of the library path, which
  is in place in the target's memory at that moment; \<open>dlsym\<close> of the entry's name with the handle
  \<open>dlopen\<close> gave; the entry itself with the address of a copy of the parameter block; and \<open>dlclose\<close>
  of the handle.  The result is what the entry returned.  The last call goes to the address \<open>dlclose\<close> has
  in the loader's own address space, not to the one computed for the target.
\<close>

theorem injection_calls:
  assumes "p_results t = []" "p_runs t = r0 # r1 # r2 # r3 # r4 # r5 # rs"
    and "list_all (\<lambda>r. r_status r = CALL_STOP) [r1, r2, r3, r4, r5]"
    and "get_module_base (files E pid (p_maps t)) pid lib = Some 0"
    and "get_remote_addr (files E pid (r_maps r0)) pid libc_path (e_mmap E) = Some a_mmap"
    and "dl_found E pid (r_maps r1) a_open a_sym"
    and "base = ptrace_retval (r_regs r1)" "handle = ptrace_retval (r_regs r2)" "entry = ptrace_retval (r_regs r3)"
    and "handle \<noteq> 0" "entry \<noteq> 0"
    and "mapped (r_mem r0) (ARM_sp (r_regs r0) - 8) 8" "mapped (r_mem r1) base 0x4000"
    and "mapped (r_mem r2) base 0x4000" "mapped (r_mem r3) base 0x4000"
    and "length lib < 0x100" "length fn < 0x100" "length param \<le> 0x3e00"
  shows "\<exists>t' g1 m1 g2 m2 g3 m3 g4 m4 g5 m5.
    trace_remote_process E pid lib fn param t = Some (sint (ptrace_retval (r_regs r4)), t') \<and>
    resumed (p_reqs t') = resumed (p_reqs t) @ [(g1, m1), (g2, m2), (g3, m3), (g4, m4), (g5, m5)] \<and>
    is_call a_mmap [0, 0x4000, 7, 0x22, 0, 0] g1 m1 \<and>
    is_call a_open [base, 2] g2 m2 \<and> view_bytes m2 base (length lib + 1) = cstring_bytes lib \<and>
    is_call a_sym [handle, base + 0x100] g3 m3 \<and> view_bytes m3 (base + 0x100) (length fn + 1) = cstring_bytes fn \<and>
    is_call entry [base + 0x200] g4 m4 \<and> view_bytes m4 (base + 0x200) (length param) = param \<and>
    is_call (e_dlclose E) [handle] g5 m5"
proof -
  let ?ta = "t\<lparr>p_attached := True, p_regs := r_regs r0, p_mem := r_mem r0, p_maps := r_maps r0,
      p_runs := r1 # r2 # r3 # r4 # r5 # rs, p_reqs := p_reqs t @ [PTRACE_ATTACH, PTRACE_GETREGS]\<rparr>"
  have span: "word_span (length lib + 1) \<le> 0x4000" "0x100 + word_span (length fn + 1) \<le> 0x4000"
      "0x200 + word_span (length param) \<le> 0x4000"
    using assms(16-18) by (auto simp: word_span_def)
  have maps: "mapped (r_mem r1) base (word_span (length lib + 1))"
      "mapped (r_mem r2) (base + 0x100) (word_span (length fn + 1))"
      "mapped (r_mem r3) (base + 0x200) (word_span (length param))"
    using mapped_le [OF assms(13) span(1)] mapped_shift [OF mapped_le [OF assms(14) span(2)]]
      mapped_shift [OF mapped_le [OF assms(15) span(3)]] by simp_all
  obtain t1 a_err g1 m1 where 1: "inject E pid lib fn param (r_regs r0) ?ta =
      call_dlopen E a_open a_sym a_err base lib fn param (r_regs r1) t1"
      "p_results t1 = []" "p_runs t1 = r2 # r3 # r4 # r5 # rs" "p_mem t1 = r_mem r1"
      "resumed (p_reqs t1) = resumed (p_reqs ?ta) @ [(g1, m1)]" "is_call a_mmap [0, 0x4000, 7, 0x22, 0, 0] g1 m1"
    by (rule inject_run [of ?ta r1 _ E pid a_mmap a_open a_sym "r_regs r0"]) (use assms in simp_all)
  obtain t2 g2 m2 where 2: "call_dlopen E a_open a_sym a_err base lib fn param (r_regs r1) t1 =
      call_dlsym E a_sym a_err base handle fn param (r_regs r2) t2"
      "p_results t2 = []" "p_runs t2 = r3 # r4 # r5 # rs" "p_mem t2 = r_mem r2"
      "resumed (p_reqs t2) = resumed (p_reqs t1) @ [(g2, m2)]" "is_call a_open [base, 2] g2 m2"
      "view_bytes m2 base (length lib + 1) = cstring_bytes lib"
    by (rule call_dlopen_run [OF 1(2,3), of base lib E a_open a_sym a_err fn param "r_regs r1"])
      (use assms 1 maps in simp_all)
  obtain t3 g3 m3 where 3: "call_dlsym E a_sym a_err base handle fn param (r_regs r2) t2 =
      call_entry E base handle param entry (r_regs r3) t3"
      "p_results t3 = []" "p_runs t3 = r4 # r5 # rs" "p_mem t3 = r_mem r3"
      "resumed (p_reqs t3) = resumed (p_reqs t2) @ [(g3, m3)]" "is_call a_sym [handle, base + 0x100] g3 m3"
      "view_bytes m3 (base + 0x100) (length fn + 1) = cstring_bytes fn"
    by (rule call_dlsym_run [OF 2(2,3), of base fn E a_sym a_err handle param "r_regs r2"])
      (use assms 2 maps in simp_all)
  obtain t4 g4 m4 g5 m5 where 4: "call_entry E base handle param entry (r_regs r3) t3 =
      Some (sint (ptrace_retval (r_regs r4)), t4)"
      "resumed (p_reqs t4) = resumed (p_reqs t3) @ [(g4, m4), (g5, m5)]" "is_call entry [base + 0x200] g4 m4"
      "view_bytes m4 (base + 0x200) (length param) = param" "is_call (e_dlclose E) [handle] g5 m5"
    using call_entry_run [OF 3(2,3), of base param E handle entry "r_regs r3"] assms 3 maps by auto
  have "trace_remote_process E pid lib fn param t = Some (sint (ptrace_retval (r_regs r4)),
      snd (ptrace_detach (snd (ptrace_setregs (r_regs r0) t4))))"
    using assms(1,4) attach_ok [OF assms(1,2)] 1(1) 2(1) 3(1) 4(1)
    by (simp add: trace_remote_process_def ptrace_getregs_def request_def)
  with 1 2 3 4 show ?thesis by (simp add: exit_regs_reqs)
qed

theorem injection_calls_witness:
  "\<exists>t' g1 m1 g2 m2 g3 m3 g4 m4 g5 m5.
    trace_remote_process (demo_env []) 77 CLIENT_PATH_CURRENT ''client_entry'' [1, 2, 3] (demo_target []) = Some (- 13, t') \<and>
    resumed (p_reqs t') = [(g1, m1), (g2, m2), (g3, m3), (g4, m4), (g5, m5)] \<and>
    is_call 0x60000100 [0, 0x4000, 7, 0x22, 0, 0] g1 m1 \<and> is_call 0x60001001 [0x80000200] g4 m4 \<and>
    is_call 0x50000400 [0x1234] g5 m5"
proof -
  have "dl_found (demo_env []) 77 demo_maps 0x70000200 0x70000300"
    by (simp add: dl_found_def demo_module_bases)
  moreover have "length CLIENT_PATH_CURRENT < 0x100" by (simp add: CLIENT_PATH_CURRENT_def)
  ultimately show ?thesis
    using injection_calls [of "demo_target []" "demo_run 1" "demo_run 0x80000000" "demo_run 0x1234" "demo_run 0x60001001"
        "demo_run (- 13)" "demo_run 0" "[]" "demo_env []" 77 CLIENT_PATH_CURRENT "0x60000100" "0x70000200" "0x70000300"
        "0x80000000" "0x1234" "0x60001001" "''client_entry''" "[1, 2, 3]"]
    by (auto simp: demo_module_bases)
qed

text \<open>
  C3 \<open>xload\<close> returns: whatever the device looks like and whatever requests fail, it returns if the target
  stops once after the attach and at least five more times at the return address of a call.
\<close>

theorem xload_returns:
  assumes "p_runs (e_procs E (find_pid_of E (Some (case process_name of None \<Rightarrow> package_name | Some p \<Rightarrow> p)))) = r # rs"
    and "5 \<le> length (filter (\<lambda>r. r_status r = CALL_STOP) rs)"
  shows "\<exists>ret E'. xload E package_name process_name module_path = Some (ret, E')"
proof -
  let ?pid = "find_pid_of E (Some (case process_name of None \<Rightarrow> package_name | Some p \<Rightarrow> p))"
  let ?t = "e_procs E ?pid" and ?param = "info_bytes (make_info package_name module_path)"
  have "\<exists>r. trace_remote_process E ?pid CLIENT_PATH_CURRENT CLIENT_ENTRY_FUNC ?param ?t = Some r"
    using assms by (rule trace_returns)
  then show ?thesis by (auto simp: xload_def Let_def)
qed

theorem xload_returns_witness:
  "\<exists>ret E'. xload (demo_env [True, False]) ''com.app'' None ''/data/app/module.apk'' = Some (ret, E')"
proof (rule xload_returns)
  show "p_runs (e_procs (demo_env [True, False]) (find_pid_of (demo_env [True, False])
      (Some (case None of None \<Rightarrow> ''com.app'' | Some p \<Rightarrow> p)))) =
      demo_run 1 # [demo_run 0x80000000, demo_run 0x1234, demo_run 0x60001001, demo_run (- 13), demo_run 0]"
    by simp
  show "5 \<le> length (filter (\<lambda>r. r_status r = CALL_STOP)
      [demo_run 0x80000000, demo_run 0x1234, demo_run 0x60001001, demo_run (- 13), demo_run 0])"
    by simp
qed

text \<open>
  C5 \<open>get_module_base\<close> of a process is the start address of the first line of its memory map that
  mentions the module, as the hexadecimal number that line starts with, and 0 when no line does; a module at
  0x8000, the base of a non-relocated executable, counts as 0.
\<close>

theorem module_base_first_match:
  assumes "fopen (if pid < 0 then ''/proc/self/maps'' else maps_file pid) = Some (maps_text ms)"
    and "list_all maps_line ms" "NL \<notin> set module_name" "module_name \<noteq> []"
  shows "get_module_base fopen pid module_name = Some (first_match ms module_name)"
  using assms by (simp add: get_module_base_def scan_maps_text)

theorem module_base_first_match_witness:
  "get_module_base [''/proc/self/maps'' \<mapsto>
      maps_text [(''8000'', ''9000 r-xp /system/bin/app''), (''4f00a000'', ''4f00b000 r-xp /system/lib/libc.so'')]]
    (- 1) ''libc'' = Some 0x4f00a000"
proof -
  let ?ms = "[(''8000'', ''9000 r-xp /system/bin/app''), (''4f00a000'', ''4f00b000 r-xp /system/lib/libc.so'')]"
  have "get_module_base [''/proc/self/maps'' \<mapsto> maps_text ?ms] (- 1) ''libc'' = Some (first_match ?ms ''libc'')"
    by (rule module_base_first_match) (simp_all add: maps_line_def hex_digits_def hex_val_def)
  then show ?thesis by (simp add: first_match_def line_text_def hex_val_def)
qed

definition command_of :: "env \<Rightarrow> string \<Rightarrow> string option" where
  "command_of E d_name =
     (if atoi d_name = 0 then None
      else do { fp \<leftarrow> e_fopen E (cmdline_file (atoi d_name)); (line, _) \<leftarrow> fgets 256 fp; Some (cut line) })"

lemma find_pid_loop_first:
  "cmdline \<noteq> name \<Longrightarrow>
    find_pid_loop (e_fopen E) name cmdline entries =
      (case find (\<lambda>d. command_of E d = Some name) entries of None \<Rightarrow> - 1 | Some d \<Rightarrow> atoi d)"
  by (induction entries arbitrary: cmdline)
    (auto simp: command_of_def Let_def split: option.splits)

text \<open>
  C4 \<open>find_pid_of\<close> gives the id of the first entry of \<open>/proc\<close> whose command line starts with exactly
  the given name, and \<open>-1\<close> when there is none.  An empty command line never matches, although the buffer then
  still holds the one of the entry before: that one has been compared already.  The only exception is a buffer
  that happens to hold the name before anything is read into it.
\<close>

theorem find_pid_first_match:
  assumes "e_cmdline E \<noteq> name" "e_proc E = Some entries"
  shows "find_pid_of E (Some name) =
    (case find (\<lambda>d. command_of E d = Some name) entries of None \<Rightarrow> - 1 | Some d \<Rightarrow> atoi d)"
  using assms by (simp add: find_pid_of_def find_pid_loop_first)

theorem find_pid_first_match_witness:
  "find_pid_of (demo_env []) (Some ''com.app'') = 77"
proof -
  have p: "e_proc (demo_env []) = Some [''.'', ''self'', ''77'']" "e_cmdline (demo_env []) \<noteq> ''com.app''"
    by (simp_all add: demo_env_def)
  have a: "atoi ''.'' = 0" "atoi ''self'' = 0" "atoi ''77'' = 77"
    by (simp_all add: atoi_def read_sign_def isspace_def digit_val_def)
  have "cmdline_file 77 = ''/proc/77/cmdline''" by code_simp
  then have "e_fopen (demo_env []) (cmdline_file 77) = Some ''com.app''" by (simp add: demo_env_def)
  then have "command_of (demo_env []) ''77'' = Some ''com.app''"
    by (simp add: command_of_def a fgets_def)
  then have "find (\<lambda>d. command_of (demo_env []) d = Some ''com.app'') [''.'', ''self'', ''77''] = Some ''77''"
    by (simp add: command_of_def a)
  then show ?thesis using find_pid_first_match [OF p(2,1)] by (simp add: a)
qed

text \<open>
  The parameter block: three fields of 256 chars.  The client reads back the package name, the bridge path
  and the module path, as long as a path leaves room for its terminator.  A package name of 256 chars or more is
  read as its first 256 chars run together with the bridge path, and a module path of that length has no end.
\<close>

theorem loader_info_fields:
  assumes "is_cstr package_name" "is_cstr module_path"
  shows "let buf = map char_of_byte (info_bytes (make_info package_name module_path))
    in length buf = 768 \<and>
       cstr_at buf 0 = Some (if length package_name < 256 then package_name
                             else take 256 package_name @ BRIDGE_PATH_CURRENT) \<and>
       cstr_at buf 256 = Some BRIDGE_PATH_CURRENT \<and>
       cstr_at buf 512 = (if length module_path < 256 then Some module_path else None)"
  using assms by (rule info_fields)

theorem loader_info_fields_witness:
  "cstr_at (map char_of_byte (info_bytes (make_info ''com.app'' ''/data/app/m.apk''))) 0 = Some ''com.app'' \<and>
   cstr_at (map char_of_byte (info_bytes (make_info ''com.app'' ''/data/app/m.apk''))) 512 = Some ''/data/app/m.apk''"
  using loader_info_fields [of "''com.app''" "''/data/app/m.apk''"] by (simp add: Let_def)

end
