(* ===== verification/Xloaderd.thy ===== *)
theory Xloaderd
  imports Xloader
begin

text \<open>
  The daemon of \<open>src/xloaderFramework/xloaderd/xloaderd.c\<close>: it accepts connections, reads length-prefixed
  command lines, splits them in place and answers each with a length-prefixed number.

  A connection is a record of the bytes still to come, the bytes sent, and a schedule of what the system calls
  do: \<open>EINTR\<close>, an error, or a transfer of at most so many bytes (a schedule that has run out transfers
  everything asked for).  The command buffer is one array of \<open>BUFFER_MAX\<close> chars that keeps its contents from
  command to command.  An access outside of it is the fault \<open>Out_of_bounds\<close>; a call of \<open>xload\<close> that does
  not return is \<open>No_return\<close>.
\<close>

section \<open>Transfers on a connection\<close>

abbreviation (input) BUFFER_MAX :: nat where "BUFFER_MAX \<equiv> 1024"
abbreviation (input) TOKEN_MAX :: nat where "TOKEN_MAX \<equiv> 8"

datatype io = EINTR | EIO | Part nat

record sock =
  s_in :: "byte list"
  s_out :: "byte list"
  s_rd :: "io list"
  s_wr :: "io list"

datatype fault = Out_of_bounds | No_return

text \<open>The next outcome of a schedule for a transfer of \<open>count\<close> bytes.\<close>

definition next_io :: "io list \<Rightarrow> nat \<Rightarrow> io \<times> io list" where
  "next_io sch count =
     (case sch of
        [] \<Rightarrow> (Part count, [])
      | EINTR # rest \<Rightarrow> (EINTR, rest)
      | EIO # rest \<Rightarrow> (EIO, rest)
      | Part k # rest \<Rightarrow> (Part (min k count), rest))"

text \<open>
  \<open>readx(s, buf + n, count)\<close> and \<open>writex\<close>: \<open>acc\<close> is what has been read.  The first component is
  true for the return value 0.
\<close>

function readx :: "sock \<Rightarrow> nat \<Rightarrow> byte list \<Rightarrow> bool \<times> byte list \<times> sock" where
  "readx s count acc =
     (if count = 0 then (True, acc, s)
      else case next_io (s_rd s) count of
             (EINTR, sch) \<Rightarrow> readx (s\<lparr>s_rd := sch\<rparr>) count acc
           | (EIO, sch) \<Rightarrow> (False, acc, s\<lparr>s_rd := sch\<rparr>)
           | (Part k, sch) \<Rightarrow>
               let d = take k (s_in s); s1 = s\<lparr>s_rd := sch, s_in := drop k (s_in s)\<rparr>
               in if d = [] then (False, acc, s1) else readx s1 (count - length d) (acc @ d))"
  by pat_completeness auto
termination
  by (relation "measure (\<lambda>(s, count, _). count + length (s_rd s))")
    (auto simp: next_io_def split: list.splits io.splits)

function writex :: "sock \<Rightarrow> byte list \<Rightarrow> bool \<times> sock" where
  "writex s buf =
     (if buf = [] then (True, s)
      else case next_io (s_wr s) (length buf) of
             (EINTR, sch) \<Rightarrow> writex (s\<lparr>s_wr := sch\<rparr>) buf
           | (EIO, sch) \<Rightarrow> (False, s\<lparr>s_wr := sch\<rparr>)
           | (Part k, sch) \<Rightarrow> writex (s\<lparr>s_wr := sch, s_out := s_out s @ take k buf\<rparr>) (drop k buf))"
  by pat_completeness auto
termination
  by (relation "measure (\<lambda>(s, buf). length buf + length (s_wr s))")
    (auto simp: next_io_def split: list.splits io.splits)

declare readx.simps [simp del] writex.simps [simp del]

section \<open>Commands\<close>

datatype handler = Do_ping | Do_xload

record cmdinfo =
  c_name :: string
  c_numargs :: nat
  c_func :: handler

definition cmds :: "cmdinfo list" where
  "cmds = [\<lparr>c_name = ''ping'', c_numargs = 0, c_func = Do_ping\<rparr>,
           \<lparr>c_name = ''xload'', c_numargs = 3, c_func = Do_xload\<rparr>]"

text \<open>Neither handler writes to \<open>reply\<close>.\<close>

definition do_ping :: "env \<Rightarrow> string list \<Rightarrow> fault + int \<times> env" where
  "do_ping E arg = Inr (0, E)"

definition do_xload :: "env \<Rightarrow> string list \<Rightarrow> fault + int \<times> env" where
  "do_xload E arg =
     (case xload E (arg ! 0) (Some (arg ! 1)) (arg ! 2) of None \<Rightarrow> Inl No_return | Some r \<Rightarrow> Inr r)"

fun call_handler :: "handler \<Rightarrow> env \<Rightarrow> string list \<Rightarrow> fault + int \<times> env" where
  "call_handler Do_ping = do_ping"
| "call_handler Do_xload = do_xload"

text \<open>
  The loop \<open>while (*cmd)\<close>: \<open>cmd\<close> is an index into the buffer, \<open>arg\<close> the offsets of the arguments.
  The flag is false when it stops at too many arguments.
\<close>

function tokenize :: "string \<Rightarrow> nat \<Rightarrow> nat list \<Rightarrow> (string \<times> nat \<times> nat list \<times> bool) option" where
  "tokenize buf cmd arg =
     (if length buf \<le> cmd then None
      else if buf ! cmd = NUL then Some (buf, cmd, arg, True)
      else if isspace (buf ! cmd)
      then let buf1 = buf[cmd := NUL]; arg1 = arg @ [cmd + 1]
           in if length arg1 - 1 = TOKEN_MAX then Some (buf1, cmd + 1, arg1, False)
              else tokenize buf1 (cmd + 2) arg1
      else tokenize buf (cmd + 1) arg)"
  by pat_completeness auto
termination
  by (relation "measure (\<lambda>(buf, cmd, _). length buf - cmd)") auto

declare tokenize.simps [simp del]

definition dispatch :: "env \<Rightarrow> string \<Rightarrow> nat list \<Rightarrow> fault + int \<times> env" where
  "dispatch E buf arg =
     (case those (map (cstr_at buf) arg) of
        None \<Rightarrow> Inl Out_of_bounds
      | Some args \<Rightarrow>
          (case find (\<lambda>c. c_name c = hd args) cmds of
             None \<Rightarrow> Inr (- 1, E)
           | Some c \<Rightarrow>
               if length args - 1 \<noteq> c_numargs c then Inr (- 1, E)
               else call_handler (c_func c) E (tl args)))"

definition write_chars :: "string \<Rightarrow> nat \<Rightarrow> string \<Rightarrow> string" where
  "write_chars buf i s = take i buf @ s @ drop (i + length s) buf"

text \<open>
  From the label \<open>done\<close> on.  \<open>cmd\<close> is where the loop left the pointer; \<open>snprintf\<close> is given the size of
  the whole buffer for what starts there.
\<close>

definition send_reply :: "sock \<Rightarrow> string \<Rightarrow> nat \<Rightarrow> int \<Rightarrow> fault + bool \<times> sock \<times> string" where
  "send_reply s buf cmd ret =
     (let r = show_int ret; n = min (length r) BUFFER_MAX
      in if length buf < cmd + length r + 1 then Inl Out_of_bounds
         else let buf1 = write_chars buf cmd (r @ [NUL]); count = (word_of_nat n :: u16)
              in case writex s (short_bytes count) of
                   (False, s1) \<Rightarrow> Inr (False, s1, buf1)
                 | (True, s1) \<Rightarrow>
                     (case writex s1 (map byte_of_char (take (unat count) (drop cmd buf1))) of
                        (ok, s2) \<Rightarrow> Inr (ok, s2, buf1)))"

definition execute :: "env \<Rightarrow> sock \<Rightarrow> string \<Rightarrow> fault + bool \<times> env \<times> sock \<times> string" where
  "execute E s buf =
     (case tokenize buf 0 [0] of
        None \<Rightarrow> Inl Out_of_bounds
      | Some (buf1, cmd, arg, ok) \<Rightarrow>
          (case (if ok then dispatch E buf1 arg else Inr (- 1, E)) of
             Inl f \<Rightarrow> Inl f
           | Inr (ret, E1) \<Rightarrow>
               (case send_reply s buf1 cmd ret of
                  Inl f \<Rightarrow> Inl f
                | Inr (done, s1, buf2) \<Rightarrow> Inr (done, E1, s1, buf2))))"

section \<open>The connection loop and the daemon\<close>

lemma readx_consumes:
  "readx s count acc = (ok, d, s') \<Longrightarrow>
    length (s_in s') \<le> length (s_in s) \<and> (ok \<longrightarrow> length (s_in s') + count = length (s_in s)) \<and>
    s_out s' = s_out s \<and> s_wr s' = s_wr s"
proof (induction s count acc rule: readx.induct)
  case (1 s count acc)
  obtain i sch where n: "next_io (s_rd s) count = (i, sch)" by force
  have k: "i = Part k \<Longrightarrow> k \<le> count" for k using n by (auto simp: next_io_def split: list.splits io.splits)
  show ?case
  proof (cases "count = 0")
    case True
    with "1.prems" show ?thesis by (simp add: readx.simps)
  next
    case False
    show ?thesis
    proof (cases i)
      case EINTR
      with 1 False n show ?thesis by (subst (asm) (3) readx.simps) simp
    next
      case EIO
      with 1 False n show ?thesis by (subst (asm) (3) readx.simps) auto
    next
      case (Part j)
      with 1 False n k [OF Part] show ?thesis
        by (subst (asm) (3) readx.simps) (fastforce simp: Let_def split: if_splits)
    qed
  qed
qed

lemma writex_input: "writex s buf = (ok, s') \<Longrightarrow> s_in s' = s_in s \<and> s_rd s' = s_rd s"
proof (induction s buf rule: writex.induct)
  case (1 s buf)
  obtain i sch where n: "next_io (s_wr s) (length buf) = (i, sch)" by force
  with 1 show ?case
    by (subst (asm) (3) writex.simps) (cases i; fastforce split: if_splits)
qed

lemma send_reply_input: "send_reply s buf cmd ret = Inr (ok, s', buf') \<Longrightarrow> s_in s' = s_in s \<and> s_rd s' = s_rd s"
  by (auto simp: send_reply_def Let_def split: if_splits prod.splits bool.splits dest!: writex_input)

lemma execute_input: "execute E s buf = Inr (ok, E', s', buf') \<Longrightarrow> s_in s' = s_in s"
  by (auto simp: execute_def split: option.splits sum.splits prod.splits dest!: send_reply_input)

text \<open>The inner \<open>for (;;)\<close> of \<open>main\<close>, up to the close of the connection.\<close>

function serve :: "env \<Rightarrow> sock \<Rightarrow> string \<Rightarrow> fault + env \<times> sock \<times> string" where
  "serve E s buf =
     (case readx s 2 [] of
        (False, _, s1) \<Rightarrow> Inr (E, s1, buf)
      | (True, d, s1) \<Rightarrow>
          let count = unat (bytes_short d)
          in if count < 1 \<or> count \<ge> BUFFER_MAX then Inr (E, s1, buf)
             else case readx s1 count [] of
                    (False, d2, s2) \<Rightarrow> Inr (E, s2, write_chars buf 0 (map char_of_byte d2))
                  | (True, d2, s2) \<Rightarrow>
                      let buf1 = (write_chars buf 0 (map char_of_byte d2))[count := NUL]
                      in case execute E s2 buf1 of
                           Inl f \<Rightarrow> Inl f
                         | Inr (False, E1, s3, buf2) \<Rightarrow> Inr (E1, s3, buf2)
                         | Inr (True, E1, s3, buf2) \<Rightarrow> serve E1 s3 buf2)"
  by pat_completeness auto
termination
  by (relation "measure (\<lambda>(_, s, _). length (s_in s))")
    (auto dest!: readx_consumes [OF sym] execute_input)

declare serve.simps [simp del]

text \<open>The outer loop: what each \<open>accept\<close> gives, \<open>None\<close> for a failure; the connections as they are closed.\<close>

fun accept_loop :: "env \<Rightarrow> string \<Rightarrow> sock option list \<Rightarrow> fault + env \<times> string \<times> sock list" where
  "accept_loop E buf [] = Inr (E, buf, [])"
| "accept_loop E buf (None # accepts) = accept_loop E buf accepts"
| "accept_loop E buf (Some s # accepts) =
     (case serve E s buf of
        Inl f \<Rightarrow> Inl f
      | Inr (E1, s1, buf1) \<Rightarrow>
          (case accept_loop E1 buf1 accepts of
             Inl f \<Rightarrow> Inl f
           | Inr (E2, buf2, closed) \<Rightarrow> Inr (E2, buf2, s1 # closed)))"

section \<open>The private socket\<close>

datatype syscall =
    Socket
  | Fcntl_cloexec int
  | Unlink string
  | Bind int string
  | Close int
  | Seteuid int
  | Setresgid int
  | Setresuid int
  | Fork
  | Exec "string list"

text \<open>
  Functions of the daemon's start record the system calls they make; the outcomes are arguments.  \<open>Inl\<close> is
  an exit of the process with that code.
\<close>

definition set_identity :: "int \<Rightarrow> bool \<Rightarrow> bool \<Rightarrow> bool \<Rightarrow> (int + unit) \<times> syscall list" where
  "set_identity uid euid_ok gid_ok uid_ok =
     (if \<not> euid_ok then (Inl 1, [Seteuid 0])
      else if \<not> gid_ok then (Inl 1, [Seteuid 0, Setresgid uid])
      else if \<not> uid_ok then (Inl 1, [Seteuid 0, Setresgid uid, Setresuid uid])
      else (Inr (), [Seteuid 0, Setresgid uid, Setresuid uid]))"

text \<open>The daemon's side of \<open>silent_run\<close>, and the program the child executes.\<close>

definition silent_run :: "string list \<Rightarrow> bool \<Rightarrow> bool \<Rightarrow> bool \<Rightarrow> int \<Rightarrow> (int + int) \<times> syscall list" where
  "silent_run args euid_ok gid_ok uid_ok pid =
     (case set_identity 0 euid_ok gid_ok uid_ok of
        (Inl code, calls) \<Rightarrow> (Inl code, calls)
      | (Inr _, calls) \<Rightarrow>
          if pid < 0 then (Inr (- 1), calls @ [Fork])
          else if pid > 0 then (Inr 0, calls @ [Fork])
          else (Inl 1, calls @ [Fork, Exec args]))"

definition am_command :: "string \<Rightarrow> string \<Rightarrow> string list" where
  "am_command package sock_path =
     [''/system/bin/app_process'', ''/system/bin'', ''com.android.commands.am.Am'',
      ''broadcast'', ''-n'', package @ ''/'' @ package @ ''.xloaderReceiver'', ''--es'', ''socket'', sock_path]"

definition boardcast_socket ::
  "string \<Rightarrow> string \<Rightarrow> bool \<Rightarrow> bool \<Rightarrow> bool \<Rightarrow> int \<Rightarrow> (int + int) \<times> syscall list" where
  "boardcast_socket package sock_path = silent_run (am_command package sock_path)"

definition socket_create_temp ::
  "int \<Rightarrow> int \<Rightarrow> bool \<Rightarrow> bool \<Rightarrow> int \<times> string \<times> syscall list" where
  "socket_create_temp pid fd fcntl_ok bind_ok =
     (let path = ''/dev/socket/.socket'' @ show_int pid
      in if fd < 0 then (- 1, [], [Socket])
         else if \<not> fcntl_ok then (- 1, [], [Socket, Fcntl_cloexec fd, Close fd])
         else if \<not> bind_ok then (- 1, path, [Socket, Fcntl_cloexec fd, Unlink path, Bind fd path, Close fd])
         else (fd, path, [Socket, Fcntl_cloexec fd, Unlink path, Bind fd path]))"

definition cleanup_signal :: "string \<Rightarrow> int \<Rightarrow> int \<times> string \<times> syscall list" where
  "cleanup_signal g_sock_path sig =
     (if g_sock_path \<noteq> [] then (128 + sig, [], [Unlink g_sock_path]) else (128 + sig, [], []))"

text \<open>\<open>main\<close>: a missing socket or a failed \<open>listen\<close> ends the daemon, otherwise it serves for ever.\<close>

definition xloaderd_main ::
  "env \<Rightarrow> int \<Rightarrow> bool \<Rightarrow> string \<Rightarrow> sock option list \<Rightarrow> int + (fault + env \<times> string \<times> sock list)" where
  "xloaderd_main E lsocket listen_ok buf accepts =
     (if lsocket < 0 then Inl 1
      else if \<not> listen_ok then Inl 1
      else Inr (accept_loop E buf accepts))"

section \<open>Transfers are exact\<close>

text \<open>A schedule on which nothing fails: interruptions and short transfers only.\<close>

definition smooth :: "io list \<Rightarrow> bool" where
  "smooth sch \<longleftrightarrow> EIO \<notin> set sch \<and> Part 0 \<notin> set sch"

lemma next_io_smooth:
  assumes "next_io sch count = (i, sch')" "smooth sch" "0 < count"
  shows "smooth sch'" "i = EINTR \<or> (\<exists>k. i = Part k \<and> 0 < k \<and> k \<le> count)"
  using assms by (auto simp: next_io_def smooth_def min_def split: list.splits io.splits if_splits)

lemma readx_exact:
  "smooth (s_rd s) \<Longrightarrow> count \<le> length (s_in s) \<Longrightarrow>
    \<exists>sch. smooth sch \<and>
      readx s count acc = (True, acc @ take count (s_in s), s\<lparr>s_rd := sch, s_in := drop count (s_in s)\<rparr>)"
proof (induction s count acc rule: readx.induct)
  case (1 s count acc)
  show ?case
  proof (cases "count = 0")
    case True
    then have "readx s count acc = (True, acc @ take count (s_in s), s\<lparr>s_rd := s_rd s, s_in := drop count (s_in s)\<rparr>)"
      by (subst readx.simps) simp
    with "1.prems"(1) show ?thesis by blast
  next
    case False
    obtain i sch where n: "next_io (s_rd s) count = (i, sch)" by force
    from next_io_smooth [OF n "1.prems"(1)] False have sm: "smooth sch" and
        i: "i = EINTR \<or> (\<exists>k. i = Part k \<and> 0 < k \<and> k \<le> count)" by auto
    from i show ?thesis
    proof
      assume i: "i = EINTR"
      then have "readx s count acc = readx (s\<lparr>s_rd := sch\<rparr>) count acc"
        using False n by (subst readx.simps) simp
      with "1.IH"(1) [OF False n [symmetric] i] sm "1.prems"(2) show ?thesis by simp
    next
      assume "\<exists>k. i = Part k \<and> 0 < k \<and> k \<le> count"
      then obtain k where i: "i = Part k" and k: "0 < k" "k \<le> count" by blast
      let ?d = "take k (s_in s)" and ?s = "s\<lparr>s_rd := sch, s_in := drop k (s_in s)\<rparr>"
      have len: "length ?d = k" using k "1.prems"(2) by simp
      then have d: "?d \<noteq> []" using k by auto
      have "readx s count acc = readx ?s (count - k) (acc @ ?d)"
        using False n i d len by (subst readx.simps) (simp add: Let_def)
      moreover obtain sch' where "smooth sch'" "readx ?s (count - length ?d) (acc @ ?d) =
          (True, (acc @ ?d) @ take (count - length ?d) (s_in ?s),
            ?s\<lparr>s_rd := sch', s_in := drop (count - length ?d) (s_in ?s)\<rparr>)"
        using "1.IH"(2) [OF False n [symmetric] i refl refl d] sm diff_le_mono [OF "1.prems"(2), of k] len by auto
      moreover have "?d @ take (count - k) (drop k (s_in s)) = take count (s_in s)"
        using take_add [of k "count - k" "s_in s"] k by simp
      ultimately show ?thesis using k len by auto
    qed
  qed
qed

lemma writex_exact:
  "EIO \<notin> set (s_wr s) \<Longrightarrow>
    \<exists>sch. EIO \<notin> set sch \<and> writex s buf = (True, s\<lparr>s_wr := sch, s_out := s_out s @ buf\<rparr>)"
proof (induction s buf rule: writex.induct)
  case (1 s buf)
  show ?case
  proof (cases "buf = []")
    case True
    then have "writex s buf = (True, s\<lparr>s_wr := s_wr s, s_out := s_out s @ buf\<rparr>)"
      by (subst writex.simps) simp
    with "1.prems" show ?thesis by blast
  next
    case False
    obtain i sch where n: "next_io (s_wr s) (length buf) = (i, sch)" by force
    with "1.prems" have sm: "EIO \<notin> set sch" and i: "i \<noteq> EIO"
      by (auto simp: next_io_def split: list.splits io.splits)
    show ?thesis
    proof (cases i)
      case EINTR
      then have "writex s buf = writex (s\<lparr>s_wr := sch\<rparr>) buf"
        using False n by (subst writex.simps) simp
      with "1.IH"(1) [OF False n [symmetric] EINTR] sm show ?thesis by simp
    next
      case EIO
      with i show ?thesis by simp
    next
      case (Part k)
      let ?s = "s\<lparr>s_wr := sch, s_out := s_out s @ take k buf\<rparr>"
      have "writex s buf = writex ?s (drop k buf)"
        using False n Part by (subst writex.simps) simp
      with "1.IH"(2) [OF False n [symmetric] Part] sm show ?thesis by auto
    qed
  qed
qed

section \<open>Splitting a command line\<close>

fun unwords :: "string list \<Rightarrow> string" where
  "unwords [] = []"
| "unwords [w] = w"
| "unwords (w # ws) = w @ CHR '' '' # unwords ws"

text \<open>The same with the terminators the tokenizer writes, and the offsets of the words after the first.\<close>

fun unwords0 :: "string list \<Rightarrow> string" where
  "unwords0 [] = []"
| "unwords0 [w] = w"
| "unwords0 (w # ws) = w @ NUL # unwords0 ws"

fun offsets :: "nat \<Rightarrow> string list \<Rightarrow> nat list" where
  "offsets p [] = []"
| "offsets p [w] = []"
| "offsets p (w # ws) = (p + length w + 1) # offsets (p + length w + 1) ws"

definition word :: "string \<Rightarrow> bool" where
  "word w \<longleftrightarrow> w \<noteq> [] \<and> list_all (\<lambda>c. \<not> isspace c \<and> c \<noteq> NUL) w"

lemma length_offsets [simp]: "length (offsets p ws) = length ws - 1"
  by (induction p ws rule: offsets.induct) auto

lemma length_unwords0 [simp]: "length (unwords0 ws) = length (unwords ws)"
  by (induction ws rule: unwords.induct) auto

lemma tokenize_skip:
  assumes "list_all (\<lambda>c. \<not> isspace c \<and> c \<noteq> NUL) w"
  shows "tokenize (pre @ w @ rest) (length pre) arg = tokenize (pre @ w @ rest) (length pre + length w) arg"
  using assms
proof (induction w arbitrary: pre)
  case Nil
  show ?case by simp
next
  case (Cons c w)
  have "tokenize (pre @ (c # w) @ rest) (length pre) arg = tokenize (pre @ (c # w) @ rest) (length pre + 1) arg"
    using Cons.prems by (subst tokenize.simps) (simp add: nth_append)
  also have "\<dots> = tokenize ((pre @ [c]) @ w @ rest) (length (pre @ [c])) arg" by simp
  also have "\<dots> = tokenize ((pre @ [c]) @ w @ rest) (length (pre @ [c]) + length w) arg"
    by (rule Cons.IH) (use Cons.prems in simp)
  finally show ?case by simp
qed

lemma tokenize_words:
  assumes "list_all word ws" "ws \<noteq> []" "arg \<noteq> []" "length arg + length ws \<le> TOKEN_MAX + 1"
  shows "tokenize (pre @ unwords ws @ NUL # rest) (length pre) arg =
    Some (pre @ unwords0 ws @ NUL # rest, length pre + length (unwords ws), arg @ offsets (length pre) ws, True)"
  using assms
proof (induction ws arbitrary: pre arg rule: unwords.induct)
  case 1
  then show ?case by simp
next
  case (2 w)
  then have "list_all (\<lambda>c. \<not> isspace c \<and> c \<noteq> NUL) w" by (simp add: word_def)
  from tokenize_skip [OF this, of pre "NUL # rest"] show ?case
    by (subst (asm) (2) tokenize.simps) (simp add: nth_append)
next
  case (3 w v vs)
  let ?ws = "v # vs" and ?p = "length pre + length w"
  let ?buf = "pre @ w @ CHR '' '' # unwords ?ws @ NUL # rest" and ?pre = "pre @ w @ [NUL]"
  have w: "list_all (\<lambda>c. \<not> isspace c \<and> c \<noteq> NUL) w" using 3 by (simp add: word_def)
  obtain c cs where v: "v = c # cs" and c: "\<not> isspace c" "c \<noteq> NUL"
    using 3 by (cases v) (auto simp: word_def)
  have nx: "\<exists>xs. unwords ?ws = c # xs" by (cases vs) (simp_all add: v)
  have upd: "?buf[?p := NUL] = ?pre @ unwords ?ws @ NUL # rest" by (simp add: list_update_append)
  have "tokenize ?buf (length pre) arg = tokenize ?buf ?p arg" by (rule tokenize_skip [OF w])
  also have "\<dots> = tokenize (?pre @ unwords ?ws @ NUL # rest) (?p + 2) (arg @ [?p + 1])"
    using "3.prems" upd by (subst tokenize.simps) (simp add: nth_append Let_def)
  also have "\<dots> = tokenize (?pre @ unwords ?ws @ NUL # rest) (length ?pre) (arg @ [?p + 1])"
    using c nx by (subst (2) tokenize.simps) (auto simp: nth_append)
  also have "\<dots> = Some (?pre @ unwords0 ?ws @ NUL # rest, length ?pre + length (unwords ?ws),
      (arg @ [?p + 1]) @ offsets (length ?pre) ?ws, True)"
    by (rule "3.IH") (use "3.prems" in auto)
  finally show ?case by simp
qed

lemma words_at_offsets:
  assumes "list_all word ws" "ws \<noteq> []"
  shows "map (cstr_at (pre @ unwords0 ws @ NUL # rest)) (length pre # offsets (length pre) ws) = map Some ws"
  using assms
proof (induction ws arbitrary: pre rule: unwords.induct)
  case 1
  then show ?case by simp
next
  case (2 w)
  then have "is_cstr w" by (auto simp: word_def is_cstr_def list_all_iff)
  then show ?case by (simp add: cstr_at_append)
next
  case (3 w v vs)
  then have "is_cstr w" by (auto simp: word_def is_cstr_def list_all_iff)
  then have "cstr_at (pre @ w @ NUL # unwords0 (v # vs) @ NUL # rest) (length pre) = Some w"
    by (rule cstr_at_append)
  with "3.IH" [of "pre @ w @ [NUL]"] "3.prems" show ?case by simp
qed

section \<open>What the daemon promises\<close>

text \<open>The commands by their words, and the frame of a message.\<close>

definition run_command :: "env \<Rightarrow> string list \<Rightarrow> (int \<times> env) option" where
  "run_command E ws =
     (if ws = [''ping''] then Some (0, E)
      else if length ws = 4 \<and> hd ws = ''xload'' then xload E (ws ! 1) (Some (ws ! 2)) (ws ! 3)
      else Some (- 1, E))"

definition frame :: "string \<Rightarrow> byte list" where
  "frame msg = short_bytes (word_of_nat (length msg)) @ map byte_of_char msg"

lemma those_map_Some [simp]: "those (map Some xs) = Some xs"
  by (induction xs) simp_all

lemma dispatch_words:
  assumes "map (cstr_at buf) arg = map Some ws" "ws \<noteq> []" "run_command E ws = Some (ret, E')"
  shows "dispatch E buf arg = Inr (ret, E')"
proof -
  obtain w args where ws: "ws = w # args" using assms(2) by (cases ws) auto
  have "dispatch E buf arg =
      (case find (\<lambda>c. c_name c = w) cmds of None \<Rightarrow> Inr (- 1, E)
       | Some c \<Rightarrow> if length args \<noteq> c_numargs c then Inr (- 1, E) else call_handler (c_func c) E args)"
    by (simp only: dispatch_def assms(1) those_map_Some option.case ws list.sel length_Cons diff_Suc_1)
  then show ?thesis
    using assms(3) by (auto simp: run_command_def ws cmds_def do_ping_def do_xload_def numeral_eq_Suc split: if_splits)
qed

lemma length_write_chars: "i + length s \<le> length buf \<Longrightarrow> length (write_chars buf i s) = length buf"
  by (simp add: write_chars_def)

lemma send_reply_exact:
  assumes "is_int32 ret" "cmd + length (show_int ret) < length buf" "EIO \<notin> set (s_wr s)"
  shows "\<exists>sch buf'. EIO \<notin> set sch \<and> length buf' = length buf \<and>
    send_reply s buf cmd ret = Inr (True, s\<lparr>s_wr := sch, s_out := s_out s @ frame (show_int ret)\<rparr>, buf')"
proof -
  let ?r = "show_int ret" and ?c = "word_of_nat (length (show_int ret)) :: u16"
  let ?buf = "write_chars buf cmd (?r @ [NUL])"
  have len: "length ?r \<le> 11" using assms(1) by (rule length_show_int_le)
  then have c: "unat ?c = length ?r" by (simp add: unat_of_nat)
  obtain sch1 where w1: "EIO \<notin> set sch1"
      "writex s (short_bytes ?c) = (True, s\<lparr>s_wr := sch1, s_out := s_out s @ short_bytes ?c\<rparr>)"
    using writex_exact [OF assms(3)] by blast
  let ?s1 = "s\<lparr>s_wr := sch1, s_out := s_out s @ short_bytes ?c\<rparr>"
  obtain sch2 where w2: "EIO \<notin> set sch2"
      "writex ?s1 (map byte_of_char ?r) = (True, ?s1\<lparr>s_wr := sch2, s_out := s_out ?s1 @ map byte_of_char ?r\<rparr>)"
    using writex_exact [of ?s1] w1(1) by fastforce
  have "take (length ?r) (drop cmd ?buf) = ?r" using assms(2) by (simp add: write_chars_def)
  then have "send_reply s buf cmd ret = Inr (True, s\<lparr>s_wr := sch2, s_out := s_out s @ frame ?r\<rparr>, ?buf)"
    using assms(2) len c w1(2) w2(2) by (simp add: send_reply_def Let_def frame_def)
  moreover have "length ?buf = length buf" using assms(2) by (simp add: length_write_chars)
  ultimately show ?thesis using w2(1) by blast
qed

lemma execute_words:
  assumes "list_all word ws" "ws \<noteq> []" "length ws \<le> TOKEN_MAX"
    and "buf = unwords ws @ NUL # rest" "length (unwords ws) + 11 < length buf"
    and "run_command E ws = Some (ret, E')" "is_int32 ret" "EIO \<notin> set (s_wr s)"
  shows "\<exists>sch buf'. EIO \<notin> set sch \<and> length buf' = length buf \<and>
    execute E s buf = Inr (True, E', s\<lparr>s_wr := sch, s_out := s_out s @ frame (show_int ret)\<rparr>, buf')"
proof -
  let ?buf = "unwords0 ws @ NUL # rest" and ?cmd = "length (unwords ws)"
  have tok: "tokenize buf 0 [0] = Some (?buf, ?cmd, 0 # offsets 0 ws, True)"
    using tokenize_words [OF assms(1,2), of "[0]" "[]" rest] assms(3,4) by simp
  have "map (cstr_at ?buf) (0 # offsets 0 ws) = map Some ws"
    using words_at_offsets [OF assms(1,2), of "[]" rest] by simp
  then have dis: "dispatch E ?buf (0 # offsets 0 ws) = Inr (ret, E')"
    using assms(2,6) by (rule dispatch_words)
  have len: "length ?buf = length buf" by (simp add: assms(4))
  moreover have "?cmd + length (show_int ret) < length ?buf"
    using length_show_int_le [OF assms(7)] assms(5) len by simp
  ultimately show ?thesis
    using send_reply_exact [OF assms(7) _ assms(8), of ?cmd ?buf] tok dis
    by (fastforce simp: execute_def)
qed

text \<open>What \<open>xload\<close> returns is an \<open>int\<close>.\<close>

lemma is_int32_sint: "is_int32 (sint (w :: u32))"
  using sint_lt [of w] sint_ge [of w] by (simp add: is_int32_def)

lemma call_or_int32:
  assumes "call_or a ps regs t err k = Some (ret, t')" "is_int32 err"
    and "\<And>regs1 t1. k regs1 t1 = Some (ret, t') \<Longrightarrow> is_int32 ret"
  shows "is_int32 ret"
  using assms by (auto simp: call_or_def split: option.splits bool.splits)

lemma is_int32_small: "\<bar>i\<bar> < 1000 \<Longrightarrow> is_int32 i"
  unfolding is_int32_def by linarith

lemma call_entry_int32: "call_entry E b h param a regs t = Some (ret, t') \<Longrightarrow> is_int32 ret"
  unfolding call_entry_def Let_def
  by (elim call_or_int32) (auto simp: is_int32_small is_int32_sint)

lemma report_dlerror_int32: "report_dlerror a err regs t = Some (ret, t') \<Longrightarrow> is_int32 err \<Longrightarrow> is_int32 ret"
  unfolding report_dlerror_def by (elim call_or_int32) (auto simp: is_int32_small)

lemma call_dlsym_int32: "call_dlsym E a1 a2 b h fn param regs t = Some (ret, t') \<Longrightarrow> is_int32 ret"
  unfolding call_dlsym_def Let_def
  by (elim call_or_int32) (auto simp: is_int32_small split: if_splits intro: call_entry_int32 report_dlerror_int32)

lemma call_dlopen_int32: "call_dlopen E a1 a2 a3 b lib fn param regs t = Some (ret, t') \<Longrightarrow> is_int32 ret"
  unfolding call_dlopen_def Let_def
  by (elim call_or_int32) (auto simp: is_int32_small split: if_splits intro: call_dlsym_int32 report_dlerror_int32)

lemma inject_int32:
  assumes "inject E pid lib fn param regs t = Some (ret, t')"
  shows "is_int32 ret"
proof -
  from assms obtain a k where "call_or a [0, 0x4000, 7, 0x22, 0, 0] regs t (- ERROR_XLOADER_MMAP_FAILED) k = Some (ret, t')"
      and "\<And>regs1 t1. k regs1 t1 = Some (ret, t') \<Longrightarrow>
        ret = - ERROR_XLOADER_DL_NOT_LOADED \<or>
        (\<exists>a1 a2 a3 b. call_dlopen E a1 a2 a3 b lib fn param regs1 t1 = Some (ret, t'))"
    unfolding inject_def bind_eq_Some_conv Let_def
    by (fastforce simp: bind_eq_Some_conv split: if_splits)
  moreover have "is_int32 (- 8)" "is_int32 (- 7)" by (simp_all add: is_int32_small)
  ultimately show ?thesis by (elim call_or_int32) (auto dest: call_dlopen_int32)
qed

lemma trace_int32:
  assumes "trace_remote_process E pid lib fn param t = Some (ret, t')"
  shows "is_int32 ret"
proof -
  have small: "is_int32 5" "is_int32 (- 6)" by (simp_all add: is_int32_small)
  from assms obtain a where a: "get_module_base (files E pid (p_maps t)) pid lib = Some a"
    by (auto simp: trace_remote_process_def bind_eq_Some_conv)
  show ?thesis
  proof (cases "a = 0")
    case False
    with assms a small show ?thesis by (simp add: trace_remote_process_def)
  next
    case True
    with assms a obtain ok t1 where at: "ptrace_attach t = Some (ok, t1)"
      by (auto simp: trace_remote_process_def bind_eq_Some_conv)
    obtain g t2 where g: "ptrace_getregs t1 = (g, t2)" by force
    show ?thesis
    proof (cases g)
      case None
      with assms a True at g small show ?thesis by (auto simp: trace_remote_process_def split: if_splits)
    next
      case (Some regs)
      show ?thesis
      proof (cases "inject E pid lib fn param regs t2")
        case None
        with assms a True at g Some small show ?thesis
          by (auto simp: trace_remote_process_def split: if_splits)
      next
        case inj: (Some r)
        with inject_int32 assms a True at g Some small show ?thesis
          by (cases r) (auto simp: trace_remote_process_def split: if_splits)
      qed
    qed
  qed
qed

lemma xload_int32: "xload E p q m = Some (ret, E') \<Longrightarrow> is_int32 ret"
  by (auto simp: xload_def Let_def bind_eq_Some_conv is_int32_small split: if_splits dest: trace_int32)

lemma run_command_int32: "run_command E ws = Some (ret, E') \<Longrightarrow> is_int32 ret"
  by (auto simp: run_command_def is_int32_small split: if_splits intro: xload_int32)

lemma bytes_short_frame:
  assumes "length msg < 2 ^ 16"
  shows "unat (bytes_short (take 2 (frame msg @ rest))) = length msg"
    and "drop 2 (frame msg @ rest) = map byte_of_char msg @ rest"
  using assms by (simp_all add: frame_def unat_of_nat)

text \<open>One round of the connection loop on a frame that is there completely.\<close>

lemma serve_step:
  assumes "list_all word ws" "ws \<noteq> []" "length ws \<le> TOKEN_MAX" "length (unwords ws) \<le> 1012"
    and "run_command E ws = Some (ret, E')"
    and "s_in s = frame (unwords ws) @ rest" "smooth (s_rd s)" "EIO \<notin> set (s_wr s)" "length buf = BUFFER_MAX"
  obtains s' buf' where "serve E s buf = serve E' s' buf'" "length buf' = BUFFER_MAX"
    and "s_in s' = rest" "s_out s' = s_out s @ frame (show_int ret)" "smooth (s_rd s')" "EIO \<notin> set (s_wr s')"
proof -
  let ?l = "unwords ws" and ?n = "length (unwords ws)"
  have n: "0 < ?n" "?n < 1024" using assms(1,2,4) by (cases ws rule: unwords.cases; auto simp: word_def)+
  have len: "2 \<le> length (s_in s)" "?n \<le> length (drop 2 (s_in s))"
    by (simp_all add: assms(6) frame_def)
  obtain sch1 where r1: "smooth sch1"
      "readx s 2 [] = (True, take 2 (s_in s), s\<lparr>s_rd := sch1, s_in := drop 2 (s_in s)\<rparr>)"
    using readx_exact [OF assms(7) len(1), of "[]"] by auto
  let ?s1 = "s\<lparr>s_rd := sch1, s_in := drop 2 (s_in s)\<rparr>"
  obtain sch2 where r2: "smooth sch2"
      "readx ?s1 ?n [] = (True, take ?n (s_in ?s1), ?s1\<lparr>s_rd := sch2, s_in := drop ?n (s_in ?s1)\<rparr>)"
    using readx_exact [of ?s1 ?n "[]"] r1(1) len(2) by auto
  have in2: "drop 2 (s_in s) = map byte_of_char ?l @ rest" and count: "unat (bytes_short (take 2 (s_in s))) = ?n"
    using bytes_short_frame [of ?l rest] n by (simp_all add: assms(6))
  let ?s2 = "?s1\<lparr>s_rd := sch2, s_in := rest\<rparr>"
  have r2': "readx ?s1 ?n [] = (True, map byte_of_char ?l, ?s2)" using r2(2) by (simp add: in2)
  let ?buf = "?l @ NUL # drop (?n + 1) buf"
  have buf: "(write_chars buf 0 ?l)[?n := NUL] = ?buf" "length ?buf = BUFFER_MAX"
  proof -
    obtain c cs where "drop ?n buf = c # cs" using n assms(9) by (cases "drop ?n buf") auto
    moreover from this have "drop (?n + 1) buf = cs" by (metis Suc_eq_plus1 drop_Suc drop_tl list.sel(3))
    ultimately show "(write_chars buf 0 ?l)[?n := NUL] = ?buf"
      by (simp add: write_chars_def list_update_append)
    show "length ?buf = BUFFER_MAX" using n assms(9) by simp
  qed
  have room: "length (unwords ws) + 11 < length ?buf" using assms(4) buf(2) by simp
  obtain sch3 buf' where ex: "EIO \<notin> set sch3" "length buf' = BUFFER_MAX"
      "execute E ?s2 ?buf = Inr (True, E', ?s2\<lparr>s_wr := sch3, s_out := s_out ?s2 @ frame (show_int ret)\<rparr>, buf')"
    using execute_words [OF assms(1-3) refl room assms(5) run_command_int32 [OF assms(5)], of ?s2] assms(8) buf(2) by auto
  have "serve E s buf = serve E' (?s2\<lparr>s_wr := sch3, s_out := s_out ?s2 @ frame (show_int ret)\<rparr>) buf'"
    using n ex(3) by (subst serve.simps) (simp add: r1(2) count r2' buf(1))
  then show ?thesis by (rule that) (use ex r2(1) in simp_all)
qed

lemma serve_eof:
  assumes "s_in s = []"
  obtains s' where "serve E s buf = Inr (E, s', buf)" "s_in s' = []" "s_out s' = s_out s"
proof -
  obtain ok d s' where r: "readx s 2 [] = (ok, d, s')" by (cases "readx s 2 []") auto
  with readx_consumes [OF r] assms have "\<not> ok" "s_in s' = []" "s_out s' = s_out s" by auto
  with r show ?thesis by (intro that [of s']) (subst serve.simps, auto)
qed

section \<open>Properties\<close>

fun run_commands :: "env \<Rightarrow> string list list \<Rightarrow> (int list \<times> env) option" where
  "run_commands E [] = Some ([], E)"
| "run_commands E (ws # wss) =
     do { (ret, E1) \<leftarrow> run_command E ws; (rets, E2) \<leftarrow> run_commands E1 wss; Some (ret # rets, E2) }"

definition command :: "string list \<Rightarrow> bool" where
  "command ws \<longleftrightarrow> list_all word ws \<and> ws \<noteq> [] \<and> length ws \<le> TOKEN_MAX \<and> length (unwords ws) \<le> 1012"

lemma serve_commands:
  assumes "list_all command wss" "run_commands E wss = Some (rets, E')"
    and "s_in s = concat (map (\<lambda>ws. frame (unwords ws)) wss)" "smooth (s_rd s)" "EIO \<notin> set (s_wr s)" "length buf = BUFFER_MAX"
  shows "\<exists>s' buf'. serve E s buf = Inr (E', s', buf') \<and> s_in s' = [] \<and>
    s_out s' = s_out s @ concat (map (\<lambda>ret. frame (show_int ret)) rets)"
  using assms
proof (induction wss arbitrary: E s buf rets)
  case Nil
  then have nil: "s_in s = []" "rets = []" "E' = E" by simp_all
  obtain s' where "serve E s buf = Inr (E, s', buf)" "s_in s' = []" "s_out s' = s_out s"
    by (rule serve_eof [OF nil(1)])
  with nil show ?case by auto
next
  case (Cons ws wss)
  from Cons.prems(2) obtain ret E1 rets' where c: "run_command E ws = Some (ret, E1)"
      "run_commands E1 wss = Some (rets', E')" "rets = ret # rets'"
    by (auto simp: bind_eq_Some_conv)
  obtain s1 buf1 where st: "serve E s buf = serve E1 s1 buf1" "length buf1 = BUFFER_MAX"
      "s_in s1 = concat (map (\<lambda>ws. frame (unwords ws)) wss)" "s_out s1 = s_out s @ frame (show_int ret)"
      "smooth (s_rd s1)" "EIO \<notin> set (s_wr s1)"
    by (rule serve_step [OF _ _ _ _ c(1), of s "concat (map (\<lambda>ws. frame (unwords ws)) wss)" buf])
      (use Cons.prems in \<open>auto simp: command_def\<close>)
  with Cons.IH [OF _ c(2) st(3,5,6,2)] Cons.prems(1) c(3) show ?case by auto
qed

text \<open>
  C24 The daemon implements its protocol: a connection that carries a sequence of commands, each a frame of words
  separated by single blanks with room for the reply behind it, is answered with exactly one frame per command,
  in order, holding the decimal return value.  Each command runs once, on exactly its words, whatever the
  buffer still holds of earlier commands and however the transfers are cut or interrupted.
\<close>

theorem daemon_answers_commands:
  assumes "list_all command wss" "run_commands E wss = Some (rets, E')"
    and "s_in s = concat (map (\<lambda>ws. frame (unwords ws)) wss)" "smooth (s_rd s)" "EIO \<notin> set (s_wr s)" "length buf = BUFFER_MAX"
  shows "\<exists>s' buf'. serve E s buf = Inr (E', s', buf') \<and> s_in s' = [] \<and>
    s_out s' = s_out s @ concat (map (\<lambda>ret. frame (show_int ret)) rets)"
  by (rule serve_commands [OF assms])

theorem daemon_answers_commands_witness:
  "\<exists>s' buf'. serve (demo_env []) \<lparr>s_in = frame ''ping'' @ frame ''ping now'', s_out = [], s_rd = [EINTR, Part 1, Part 3], s_wr = [Part 1]\<rparr>
      (replicate BUFFER_MAX CHR ''x'') = Inr (demo_env [], s', buf') \<and> s_out s' = frame ''0'' @ frame ''-1''"
proof -
  have "run_commands (demo_env []) [[''ping''], [''ping'', ''now'']] = Some ([0, - 1], demo_env [])"
    by (simp add: run_command_def)
  moreover have "list_all command [[''ping''], [''ping'', ''now'']]"
    by (simp add: command_def word_def isspace_def)
  moreover have "show_int 0 = ''0''" "show_int (- 1) = ''-1''" by code_simp+
  ultimately show ?thesis
    using daemon_answers_commands [of "[[''ping''], [''ping'', ''now'']]" "demo_env []" "[0, - 1]" "demo_env []"
        "\<lparr>s_in = frame ''ping'' @ frame ''ping now'', s_out = [], s_rd = [EINTR, Part 1, Part 3], s_wr = [Part 1]\<rparr>"
        "replicate BUFFER_MAX CHR ''x''"]
    by (auto simp: smooth_def)
qed

text \<open>
  The reply is written where the tokenizer stopped, with the size of the whole buffer as its bound.  A
  command line of 1022 or 1023 chars without a blank, which the size check lets pass, therefore makes the
  daemon write its reply \<open>-1\<close> past the end of the buffer.
\<close>

theorem long_command_overruns:
  assumes "word w" "length w \<in> {1022, 1023}" "s_in s = frame w @ rest" "smooth (s_rd s)" "length buf = BUFFER_MAX"
  shows "serve E s buf = Inl Out_of_bounds"
proof -
  let ?n = "length w"
  have n: "0 < ?n" "?n < 1024" using assms(2) by auto
  have len: "2 \<le> length (s_in s)" "?n \<le> length (drop 2 (s_in s))" by (simp_all add: assms(3) frame_def)
  obtain sch1 where r1: "smooth sch1"
      "readx s 2 [] = (True, take 2 (s_in s), s\<lparr>s_rd := sch1, s_in := drop 2 (s_in s)\<rparr>)"
    using readx_exact [OF assms(4) len(1), of "[]"] by auto
  let ?s1 = "s\<lparr>s_rd := sch1, s_in := drop 2 (s_in s)\<rparr>"
  have in2: "drop 2 (s_in s) = map byte_of_char w @ rest" and count: "unat (bytes_short (take 2 (s_in s))) = ?n"
    using bytes_short_frame [of w rest] n by (simp_all add: assms(3))
  obtain s2 where r2: "readx ?s1 ?n [] = (True, map byte_of_char w, s2)"
    using readx_exact [of ?s1 ?n "[]"] r1(1) len(2) in2 by auto
  let ?rest = "drop (?n + 1) (w @ drop ?n buf)"
  let ?buf = "(write_chars buf 0 w)[?n := NUL]"
  have "length (w @ drop ?n buf) = 1024" "drop ?n (w @ drop ?n buf) \<noteq> []" using n assms(5) by auto
  then have buf: "?buf = unwords [w] @ NUL # ?rest"
    by (cases "drop ?n buf") (auto simp: write_chars_def list_update_append)
  have "tokenize ?buf 0 [0] = Some (?buf, ?n, [0], True)"
    using tokenize_words [of "[w]" "[0]" "[]" ?rest] assms(1) buf by simp
  moreover have "map (cstr_at ?buf) [0] = map Some [w]"
    using words_at_offsets [of "[w]" "[]" ?rest] assms(1) buf by simp
  then have "dispatch E ?buf [0] = Inr (- 1, E)"
    by (rule dispatch_words) (use assms(2) in \<open>auto simp: run_command_def\<close>)
  moreover have "length ?buf = 1024" using n assms(5) by (simp add: write_chars_def)
  moreover have "length (show_int (- 1)) = 2" by code_simp
  ultimately have "execute E s2 ?buf = Inl Out_of_bounds"
    using assms(2) by (auto simp: execute_def send_reply_def)
  with n show ?thesis by (subst serve.simps) (simp add: r1(2) count r2)
qed

theorem long_command_overruns_witness:
  "serve (demo_env []) \<lparr>s_in = frame (replicate 1023 CHR ''a''), s_out = [], s_rd = [], s_wr = []\<rparr>
     (replicate 1024 NUL) = Inl Out_of_bounds"
  by (rule long_command_overruns [of "replicate 1023 CHR ''a''" _ "[]"])
    (simp_all add: word_def isspace_def smooth_def list_all_iff)

text \<open>
  The tokenizer never looks at the char after a blank.  When a command ends in a blank, it skips the
  terminator and goes on into what an earlier command left in the buffer, up to the next NUL there.
\<close>

theorem trailing_blank_reads_on:
  assumes "word w" "word stale"
  shows "tokenize (w @ '' '' @ NUL # stale @ NUL # rest) 0 [0] =
    Some (w @ [NUL, NUL] @ stale @ NUL # rest, length w + 2 + length stale, [0, length w + 1], True)"
proof -
  let ?buf = "w @ '' '' @ NUL # stale @ NUL # rest" and ?pre = "w @ [NUL, NUL]"
  have "tokenize ?buf 0 [0] = tokenize ?buf (length w) [0]"
    using tokenize_skip [of w "[]"] assms(1) by (simp add: word_def)
  also have "\<dots> = tokenize (?pre @ stale @ NUL # rest) (length ?pre) [0, length w + 1]"
    by (subst tokenize.simps) (simp add: nth_append list_update_append Let_def)
  also have "\<dots> = tokenize (?pre @ stale @ NUL # rest) (length ?pre + length stale) [0, length w + 1]"
    by (rule tokenize_skip) (use assms(2) in \<open>simp add: word_def\<close>)
  also have "\<dots> = Some (?pre @ stale @ NUL # rest, length ?pre + length stale, [0, length w + 1], True)"
    by (subst tokenize.simps) (simp add: nth_append)
  finally show ?thesis by simp
qed

theorem trailing_blank_reads_on_witness:
  "tokenize (''ping'' @ '' '' @ NUL # ''old'' @ [NUL]) 0 [0] = Some (''ping'' @ [NUL, NUL] @ ''old'' @ [NUL], 9, [0, 5], True)"
  using trailing_blank_reads_on [of "''ping''" "''old''" "[]"] by (simp add: word_def isspace_def)

end
