(* ===== verification/XloaderJava.thy ===== *)
theory XloaderJava
  imports Xloaderd
begin

text \<open>
  The Java side of the loader's socket, \<open>src/DynXloaderService/src/com/tencent/qrom/dynxloader/Xloader.java\<close>:
  it connects to the daemon, sends a command with its length in front of it and reads the reply.

  A string is given by the bytes of its encoding; \<open>None\<close> is a null reference.  A connection is a record of the
  bytes that the other side sends (\<open>lc_all\<close>), those still unread, the bytes written, and schedules of what the
  streams do: a read may throw or return at least one and at most so many bytes, a write may throw after some
  bytes (a schedule that has run out transfers everything).  The streams \<open>mIn\<close> and \<open>mOut\<close> are those of the
  connection; a use while there is none is a \<open>NullPointerException\<close>, the value \<open>None\<close>.
\<close>

section \<open>Streams\<close>

datatype jread = Read_exception | Read_up_to nat

record conn =
  lc_all :: "byte list"
  lc_in :: "byte list"
  lc_out :: "byte list"
  lc_rd :: "jread list"
  lc_wr :: "nat option list"

text \<open>\<open>InputStream.read\<close> for \<open>n\<close> bytes: \<open>None\<close> is an exception, no bytes are the end of the stream.\<close>

definition stream_read :: "conn \<Rightarrow> nat \<Rightarrow> byte list option \<times> conn" where
  "stream_read c n =
     (case lc_rd c of
        Read_exception # sch \<Rightarrow> (None, c\<lparr>lc_rd := sch\<rparr>)
      | Read_up_to k # sch \<Rightarrow>
          (Some (take (min n (Suc k)) (lc_in c)), c\<lparr>lc_rd := sch, lc_in := drop (min n (Suc k)) (lc_in c)\<rparr>)
      | [] \<Rightarrow> (Some (take n (lc_in c)), c\<lparr>lc_in := drop n (lc_in c)\<rparr>))"

text \<open>\<open>OutputStream.write\<close>: false is an exception.\<close>

definition stream_write :: "conn \<Rightarrow> byte list \<Rightarrow> bool \<times> conn" where
  "stream_write c bs =
     (case lc_wr c of
        Some k # sch \<Rightarrow> (False, c\<lparr>lc_wr := sch, lc_out := lc_out c @ take k bs\<rparr>)
      | None # sch \<Rightarrow> (True, c\<lparr>lc_wr := sch, lc_out := lc_out c @ bs\<rparr>)
      | [] \<Rightarrow> (True, c\<lparr>lc_out := lc_out c @ bs\<rparr>))"

section \<open>The client\<close>

text \<open>\<open>x_connects\<close> is what the next calls of \<open>LocalSocket.connect\<close> give; \<open>x_closed\<close> are the closed connections.\<close>

record xloader =
  mSocketAddr :: string
  mSocket :: "conn option"
  buf :: "byte list"
  buflen :: nat
  x_connects :: "conn option list"
  x_closed :: "conn list"

definition disconnect :: "xloader \<Rightarrow> xloader" where
  "disconnect x =
     (case mSocket x of None \<Rightarrow> x | Some c \<Rightarrow> x\<lparr>mSocket := None, x_closed := x_closed x @ [c]\<rparr>)"

definition connect :: "xloader \<Rightarrow> bool \<times> xloader" where
  "connect x =
     (case mSocket x of
        Some c \<Rightarrow> (True, x)
      | None \<Rightarrow>
          (case x_connects x of
             [] \<Rightarrow> (False, disconnect x)
           | None # rest \<Rightarrow> (False, disconnect (x\<lparr>x_connects := rest\<rparr>))
           | Some c # rest \<Rightarrow> (True, x\<lparr>mSocket := Some c, x_connects := rest\<rparr>)))"

text \<open>The bytes \<open>d\<close> stored at offset \<open>off\<close> of the buffer.\<close>

definition put_bytes :: "byte list \<Rightarrow> nat \<Rightarrow> byte list \<Rightarrow> byte list" where
  "put_bytes b off d = take off b @ d @ drop (off + length d) b"

text \<open>The loop of \<open>readBytes\<close>: the offset reached, the buffer and the connection.\<close>

function readBytes_loop :: "conn \<Rightarrow> byte list \<Rightarrow> nat \<Rightarrow> nat \<Rightarrow> nat \<times> byte list \<times> conn" where
  "readBytes_loop c b off len =
     (if len \<le> off then (off, b, c)
      else case stream_read c (len - off) of
             (None, c1) \<Rightarrow> (off, b, c1)
           | (Some d, c1) \<Rightarrow>
               if d = [] then (off, b, c1) else readBytes_loop c1 (put_bytes b off d) (off + length d) len)"
  by pat_completeness auto
termination
  by (relation "measure (\<lambda>(c, b, off, len). len - off)") (auto intro!: diff_less_mono2)

declare readBytes_loop.simps [simp del]

definition readBytes :: "int \<Rightarrow> xloader \<Rightarrow> (bool \<times> xloader) option" where
  "readBytes len x =
     (if len < 0 then Some (False, x)
      else case mSocket x of
             None \<Rightarrow> (if len = 0 then Some (True, x) else None)
           | Some c \<Rightarrow>
               (case readBytes_loop c (buf x) 0 (nat len) of
                  (off, b, c1) \<Rightarrow>
                    let x1 = x\<lparr>buf := b, mSocket := Some c1\<rparr>
                    in Some (if int off = len then (True, x1) else (False, disconnect x1))))"

definition readReply :: "xloader \<Rightarrow> (bool \<times> xloader) option" where
  "readReply x =
     (case readBytes 2 (x\<lparr>buflen := 0\<rparr>) of
        None \<Rightarrow> None
      | Some (False, x1) \<Rightarrow> Some (False, x1)
      | Some (True, x1) \<Rightarrow>
          let len = uint (buf x1 ! 0) OR push_bit 8 (uint (buf x1 ! 1))
          in if len < 1 \<or> len > 1024 then Some (False, disconnect x1)
             else case readBytes len x1 of
                    None \<Rightarrow> None
                  | Some (False, x2) \<Rightarrow> Some (False, x2)
                  | Some (True, x2) \<Rightarrow> Some (True, x2\<lparr>buflen := nat len\<rparr>))"

definition writeCommand :: "string \<Rightarrow> xloader \<Rightarrow> (bool \<times> xloader) option" where
  "writeCommand str x =
     (let cmd = map byte_of_char str; len = int (length cmd)
      in if len < 1 \<or> len > 1024 then Some (False, x)
         else let b = (buf x)[0 := word_of_int (len AND 0xff), 1 := word_of_int (drop_bit 8 len AND 0xff)];
                  x1 = x\<lparr>buf := b\<rparr>
              in case mSocket x of
                   None \<Rightarrow> None
                 | Some c \<Rightarrow>
                     (case stream_write c (take 2 b) of
                        (False, c1) \<Rightarrow> Some (False, disconnect (x1\<lparr>mSocket := Some c1\<rparr>))
                      | (True, c1) \<Rightarrow>
                          (case stream_write c1 cmd of
                             (False, c2) \<Rightarrow> Some (False, disconnect (x1\<lparr>mSocket := Some c2\<rparr>))
                           | (True, c2) \<Rightarrow> Some (True, x1\<lparr>mSocket := Some c2\<rparr>))))"

definition transaction_call :: "string \<Rightarrow> xloader \<Rightarrow> (string \<times> xloader) option" where
  "transaction_call cmd x =
     (case connect x of
        (False, x1) \<Rightarrow> Some (''-1'', x1)
      | (True, x1) \<Rightarrow>
          do {
            (ok, x2) \<leftarrow> writeCommand cmd x1;
            (ok2, x3) \<leftarrow> (if ok then Some (True, x2)
                           else case connect x2 of
                                  (False, x') \<Rightarrow> Some (False, x')
                                | (True, x') \<Rightarrow> writeCommand cmd x');
            if \<not> ok2 then Some (''-1'', x3)
            else do {
              (got, x4) \<leftarrow> readReply x3;
              Some (if got then map char_of_byte (take (buflen x4) (buf x4)) else ''-1'', x4)
            }
          })"

text \<open>\<open>Integer.parseInt\<close>: an optional sign and decimal digits, within 32 bits; \<open>None\<close> is the exception.\<close>

definition parseInt :: "string \<Rightarrow> int option" where
  "parseInt s =
     (let (neg, ds) = read_sign s; n = int (read_digits digit_val 10 0 ds); v = (if neg then - n else n)
      in if ds = [] \<or> \<not> list_all (\<lambda>c. digit_val c \<noteq> None) ds \<or> \<not> is_int32 v then None else Some v)"

definition execute_call :: "string \<Rightarrow> xloader \<Rightarrow> (int \<times> xloader) option" where
  "execute_call cmd x =
     do {
       (res, x1) \<leftarrow> transaction_call cmd x;
       Some (case parseInt res of None \<Rightarrow> - 1 | Some v \<Rightarrow> v, x1)
     }"

definition ping_call :: "xloader \<Rightarrow> (bool \<times> xloader) option" where
  "ping_call x = do { (r, x1) \<leftarrow> execute_call ''ping'' x; Some (\<not> r < 0, x1) }"

text \<open>\<open>StringBuilder.append\<close> of a reference.\<close>

definition java_append :: "string option \<Rightarrow> string" where
  "java_append s = (case s of None \<Rightarrow> ''null'' | Some t \<Rightarrow> t)"

definition xload_call :: "string option \<Rightarrow> string option \<Rightarrow> string option \<Rightarrow> xloader \<Rightarrow> (int \<times> xloader) option" where
  "xload_call pkg proc path x =
     execute_call (''xload'' @ '' '' @ java_append pkg @ '' '' @ java_append proc @ '' '' @
       java_append path) x"


section \<open>Transfers\<close>

lemma stream_read_reads:
  assumes "stream_read c n = (r, c')"
  shows "lc_in c = (case r of None \<Rightarrow> [] | Some d \<Rightarrow> d) @ lc_in c'" "\<forall>d. r = Some d \<longrightarrow> length d \<le> n"
    and "lc_all c' = lc_all c" "lc_out c' = lc_out c" "lc_wr c' = lc_wr c" "set (lc_rd c') \<subseteq> set (lc_rd c)"
  using assms by (auto simp: stream_read_def split: list.splits jread.splits)

lemma stream_read_some:
  assumes "stream_read c n = (r, c')" "Read_exception \<notin> set (lc_rd c)" "0 < n" "lc_in c \<noteq> []"
  shows "\<exists>d. r = Some d \<and> d \<noteq> []"
  using assms by (fastforce simp: stream_read_def split: list.splits jread.splits)

lemma length_put_bytes [simp]: "off + length d \<le> length b \<Longrightarrow> length (put_bytes b off d) = length b"
  by (simp add: put_bytes_def)

lemma put_bytes_append:
  "off + length d + length e \<le> length b \<Longrightarrow> put_bytes (put_bytes b off d) (off + length d) e = put_bytes b off (d @ e)"
  by (simp add: put_bytes_def ac_simps)

lemma put_bytes_Nil [simp]: "put_bytes b off [] = b"
  by (simp add: put_bytes_def)

text \<open>Whatever the stream does, the bytes taken from it are those in the buffer.\<close>

lemma readBytes_loop_reads:
  "readBytes_loop c b off len = (off', b', c') \<Longrightarrow> off \<le> len \<Longrightarrow> len \<le> length b \<Longrightarrow>
    off' \<le> len \<and> (\<exists>d. off' = off + length d \<and> lc_in c = d @ lc_in c' \<and> b' = put_bytes b off d) \<and>
    lc_all c' = lc_all c \<and> lc_out c' = lc_out c \<and> lc_wr c' = lc_wr c \<and> set (lc_rd c') \<subseteq> set (lc_rd c)"
proof (induction c b off len rule: readBytes_loop.induct)
  case (1 c b off len)
  obtain r c1 where s: "stream_read c (len - off) = (r, c1)" by force
  note sr = stream_read_reads [OF s]
  show ?case
  proof (cases "len \<le> off \<or> r = None \<or> r = Some []")
    case True
    with "1.prems"(1) s have "off' = off \<and> b' = b \<and> (c' = c \<and> len \<le> off \<or> c' = c1 \<and> (r = None \<or> r = Some []))"
      by (auto simp: readBytes_loop.simps [of c b off len] split: if_splits)
    with sr "1.prems"(2) show ?thesis by (elim conjE disjE) auto
  next
    case False
    then obtain d where r: "r = Some d" "d \<noteq> []" "\<not> len \<le> off" by (cases r) auto
    have len: "length d \<le> len - off" using sr(2) r by simp
    then have d: "off + length d \<le> len" using r(3) by simp
    have "readBytes_loop c1 (put_bytes b off d) (off + length d) len = (off', b', c')"
      using "1.prems"(1) s r by (simp add: readBytes_loop.simps [of c b off len])
    from "1.IH" [OF r(3) s [symmetric] r(1,2) this d] "1.prems"(3) d obtain e where
        e: "off' \<le> len" "off' = off + length d + length e" "lc_in c1 = e @ lc_in c'" "b' = put_bytes (put_bytes b off d) (off + length d) e"
        "lc_all c' = lc_all c1" "lc_out c' = lc_out c1" "lc_wr c' = lc_wr c1" "set (lc_rd c') \<subseteq> set (lc_rd c1)"
      by auto
    moreover have "b' = put_bytes b off (d @ e)" using e(1,2,4) "1.prems"(3) by (simp add: put_bytes_append)
    moreover have "lc_in c = (d @ e) @ lc_in c'" using sr(1) r e(3) by simp
    ultimately show ?thesis using sr(3-6) by (intro conjI exI [of _ "d @ e"]) auto
  qed
qed

lemma readBytes_loop_complete:
  "readBytes_loop c b off len = (off', b', c') \<Longrightarrow> off \<le> len \<Longrightarrow> Read_exception \<notin> set (lc_rd c) \<Longrightarrow>
    len - off \<le> length (lc_in c) \<Longrightarrow> off' = len"
proof (induction c b off len rule: readBytes_loop.induct)
  case (1 c b off len)
  show ?case
  proof (cases "len \<le> off")
    case True
    with "1.prems" show ?thesis by (simp add: readBytes_loop.simps [of c b off len])
  next
    case False
    obtain r c1 where s: "stream_read c (len - off) = (r, c1)" by force
    note sr = stream_read_reads [OF s]
    obtain d where r: "r = Some d" "d \<noteq> []"
      using stream_read_some [OF s "1.prems"(3)] False "1.prems"(4) by fastforce
    have d: "off + length d \<le> len" using sr(2) r False by simp
    have "readBytes_loop c1 (put_bytes b off d) (off + length d) len = (off', b', c')"
      using "1.prems"(1) s r False by (simp add: readBytes_loop.simps [of c b off len])
    moreover have "lc_in c = d @ lc_in c1" using sr(1) r by simp
    then have "len - (off + length d) \<le> length (lc_in c1)" using "1.prems"(4) by simp
    ultimately show ?thesis using "1.IH" [OF False s [symmetric] r _ d] "1.prems"(3) sr(6) by blast
  qed
qed


text \<open>The length of a message as the client computes it, and the two bytes that carry it.\<close>

lemma short_bytes_of_length:
  fixes a b :: byte
  shows "short_bytes (word_of_int (uint a OR push_bit 8 (uint b))) = [a, b]"
proof -
  have "(ucast (word_of_int (uint a OR push_bit 8 (uint b)) :: u16) :: byte) = a"
    by (rule bit_word_eqI) (auto simp: bit_simps)
  moreover have "(ucast (drop_bit 8 (word_of_int (uint a OR push_bit 8 (uint b)) :: u16)) :: byte) = b"
    by (rule bit_word_eqI) (auto simp: bit_simps dest: bit_imp_le_length)
  ultimately show ?thesis by (simp add: short_bytes_def)
qed

lemma length_uint_lt:
  fixes a b :: byte
  shows "uint a OR push_bit 8 (uint b) < 2 ^ 16"
proof -
  have "take_bit 16 (uint a OR push_bit 8 (uint b)) = uint a OR push_bit 8 (uint b)"
    by (rule bit_eqI) (auto simp: bit_simps dest: bit_imp_le_length)
  then show ?thesis by (metis take_bit_int_less_exp)
qed

lemma unat_word_of_int_small: "0 \<le> i \<Longrightarrow> i < 2 ^ 16 \<Longrightarrow> unat (word_of_int i :: u16) = nat i"
  by (simp add: unat_eq_nat_uint uint_word_of_int)

lemma length_bytes_sent:
  assumes "n < 2 ^ 16"
  shows "[word_of_int (int n AND 0xff), word_of_int (drop_bit 8 (int n) AND 0xff)] = short_bytes (word_of_nat n)"
proof -
  have "int n AND 255 = take_bit 8 (int n)" "drop_bit 8 (int n) AND 255 = take_bit 8 (drop_bit 8 (int n))"
    by (simp_all add: take_bit_eq_mask mask_eq_exp_minus_1)
  moreover have "(word_of_int (take_bit 8 (int n)) :: byte) = ucast (word_of_nat n :: u16)"
    by (rule bit_word_eqI) (auto simp: bit_simps)
  moreover have "(word_of_int (take_bit 8 (drop_bit 8 (int n))) :: byte) = ucast (drop_bit 8 (word_of_nat n :: u16))"
    by (rule bit_word_eqI) (auto simp: bit_simps)
  ultimately show ?thesis by (simp add: short_bytes_def)
qed


text \<open>What stays of a connection when its input is read, and of the client.\<close>

definition same_sent :: "conn \<Rightarrow> conn \<Rightarrow> bool" where
  "same_sent c c' \<longleftrightarrow> lc_all c' = lc_all c \<and> lc_out c' = lc_out c \<and> lc_wr c' = lc_wr c \<and> set (lc_rd c') \<subseteq> set (lc_rd c)"

lemma same_sent_trans: "same_sent c c' \<Longrightarrow> same_sent c' c'' \<Longrightarrow> same_sent c c''"
  by (auto simp: same_sent_def)

definition lost :: "xloader \<Rightarrow> xloader \<Rightarrow> bool" where
  "lost x x' \<longleftrightarrow> mSocket x' = None \<and> length (buf x') = length (buf x) \<and> x_connects x' = x_connects x"

lemma disconnect_lost: "length (buf x) = n \<Longrightarrow> mSocket (disconnect x) = None \<and> length (buf (disconnect x)) = n \<and>
    x_connects (disconnect x) = x_connects x"
  by (simp add: disconnect_def split: option.split)

lemma readBytes_reads:
  assumes "mSocket x = Some c" "len \<le> length (buf x)"
  obtains (read) d c' where "readBytes (int len) x = Some (True, x\<lparr>buf := put_bytes (buf x) 0 d, mSocket := Some c'\<rparr>)"
      "length d = len" "lc_in c = d @ lc_in c'" "same_sent c c'"
  | (cut) x' where "readBytes (int len) x = Some (False, x')" "lost x x'" "Read_exception \<in> set (lc_rd c) \<or> length (lc_in c) < len"
proof -
  obtain off b c' where l: "readBytes_loop c (buf x) 0 len = (off, b, c')" by (cases "readBytes_loop c (buf x) 0 len")
  from readBytes_loop_reads [OF l] assms(2) obtain d where d: "off \<le> len" "off = length d" "lc_in c = d @ lc_in c'" "b = put_bytes (buf x) 0 d"
      and same: "same_sent c c'"
    by (auto simp: same_sent_def)
  show ?thesis
  proof (cases "off = len")
    case True
    with l d same assms(1) show ?thesis by (intro read [of c' d]) (auto simp: readBytes_def)
  next
    case False
    let ?x = "disconnect (x\<lparr>buf := b, mSocket := Some c'\<rparr>)"
    have "length b = length (buf x)" using d assms(2) by simp
    then have "lost x ?x" by (simp add: lost_def disconnect_def)
    moreover have "Read_exception \<in> set (lc_rd c) \<or> length (lc_in c) < len"
      using readBytes_loop_complete [OF l] False by fastforce
    ultimately show ?thesis using l False assms(1) by (intro cut [of ?x]) (auto simp: readBytes_def)
  qed
qed


text \<open>A reply is read completely, and as it was sent, or the connection is given up.\<close>

lemma readReply_reads:
  assumes "mSocket x = Some c" "length (buf x) = 1024"
  obtains (reply) r c' x' where "readReply x = Some (True, x')" "mSocket x' = Some c'" "length (buf x') = 1024"
      "x_connects x' = x_connects x" "map char_of_byte (take (buflen x') (buf x')) = r" "lc_in c = frame r @ lc_in c'" "same_sent c c'" "length r \<le> 1024"
  | (cut) x' where "readReply x = Some (False, x')" "lost x x'"
      "\<forall>r rest. Read_exception \<notin> set (lc_rd c) \<and> 1 \<le> length r \<and> length r \<le> 1024 \<longrightarrow> lc_in c \<noteq> frame r @ rest"
proof -
  let ?x = "x\<lparr>buflen := 0\<rparr>"
  have x: "mSocket ?x = Some c" "2 \<le> length (buf ?x)" using assms by simp_all
  show ?thesis
  proof (cases rule: readBytes_reads [OF x, case_names read cut])
    case (cut x')
    then show ?thesis by (intro that(2) [of x']) (auto simp: readReply_def lost_def frame_def short_bytes_def)
  next
    case (read h c1)
    let ?x1 = "?x\<lparr>buf := put_bytes (buf ?x) 0 h, mSocket := Some c1\<rparr>"
    obtain a b where h: "h = [a, b]" using read(2) by (auto simp: numeral_2_eq_2 length_Suc_conv)
    define len where "len = uint a OR push_bit 8 (uint b)"
    have len0: "0 \<le> len" by (simp add: len_def)
    have b01: "buf ?x1 ! 0 = a" "buf ?x1 ! 1 = b" using assms(2) by (simp_all add: put_bytes_def h)
    have r1: "readReply x = (if len < 1 \<or> len > 1024 then Some (False, disconnect ?x1)
        else case readBytes len ?x1 of None \<Rightarrow> None | Some (False, x2) \<Rightarrow> Some (False, x2)
             | Some (True, x2) \<Rightarrow> Some (True, x2\<lparr>buflen := nat len\<rparr>))"
      using read(1) by (simp only: readReply_def of_nat_numeral option.case prod.case bool.case Let_def b01 len_def)
    have hd_frame: "len = int (length r)" if "lc_in c = frame r @ rest" "length r \<le> 1024" for r rest
    proof -
      have "short_bytes (word_of_nat (length r)) = short_bytes (word_of_int len)"
        using that(1) read(3) h short_bytes_of_length [of a b] by (simp add: frame_def len_def short_bytes_def)
      then have "(word_of_nat (length r) :: u16) = word_of_int len" by (metis bytes_short_short_bytes)
      then have "unat (word_of_nat (length r) :: u16) = unat (word_of_int len :: u16)" by simp
      moreover have "len < 2 ^ 16" unfolding len_def by (rule length_uint_lt)
      ultimately show ?thesis using that(2) len0 by (simp add: unat_of_nat unat_word_of_int_small)
    qed
    show ?thesis
    proof (cases "len < 1 \<or> len > 1024")
      case True
      then have r: "readReply x = Some (False, disconnect ?x1)" using r1 by simp
      moreover have "lost x (disconnect ?x1)"
        using disconnect_lost [of ?x1 1024] assms(2) h by (simp add: lost_def)
      ultimately show ?thesis using True hd_frame by (intro that(2)) fastforce+
    next
      case False
      then obtain n where n: "len = int n" "1 \<le> n" "n \<le> 1024" using len0 by (metis int_one_le_iff_zero_less nonneg_int_cases not_less of_nat_le_iff of_nat_numeral of_nat_1)
      have x1: "mSocket ?x1 = Some c1" "n \<le> length (buf ?x1)" using n assms(2) h by simp_all
      show ?thesis
      proof (cases rule: readBytes_reads [OF x1, case_names body short])
        case (short x2)
        then have "readReply x = Some (False, x2)" using r1 False n by simp
        moreover have "lost x x2" using short(2) assms(2) h by (simp add: lost_def)
        moreover have "lc_in c \<noteq> frame r @ rest" if "Read_exception \<notin> set (lc_rd c)" "length r \<le> 1024" for r rest
        proof
          assume f: "lc_in c = frame r @ rest"
          then have "lc_in c1 = map byte_of_char r @ rest"
            using read(3) h by (simp add: frame_def short_bytes_def)
          moreover have "n = length r" using hd_frame [OF f that(2)] n by simp
          ultimately show False using short(3) that(1) read(4) by (auto simp: same_sent_def)
        qed
        ultimately show ?thesis by (intro that(2)) auto
      next
        case (body d c2)
        let ?x2 = "?x1\<lparr>buf := put_bytes (buf ?x1) 0 d, mSocket := Some c2, buflen := n\<rparr>"
        have "readReply x = Some (True, ?x2)" using r1 False n body(1) by simp
        moreover have "take n (buf ?x2) = d" using body(2) by (simp add: put_bytes_def)
        moreover have "lc_in c = frame (map char_of_byte d) @ lc_in c2"
          using read(3) h body(2,3) n short_bytes_of_length [of a b] by (simp add: frame_def len_def [symmetric] comp_def)
        moreover have "length (buf ?x2) = 1024" using body(2) n assms(2) h by simp
        ultimately show ?thesis using same_sent_trans [OF read(4) body(4)] n body(2) by (intro that(1) [of ?x2 c2]) auto
      qed
    qed
  qed
qed


lemma writeCommand_writes:
  assumes "mSocket x = Some c" "length (buf x) = 1024"
  obtains (sent) c' x' where "writeCommand cmd x = Some (True, x')" "mSocket x' = Some c'" "length (buf x') = 1024"
      "x_connects x' = x_connects x" "lc_out c' = lc_out c @ frame cmd" "lc_in c' = lc_in c" "lc_all c' = lc_all c"
      "lc_rd c' = lc_rd c" "set (lc_wr c') \<subseteq> set (lc_wr c)"
  | (refused) "writeCommand cmd x = Some (False, x)" "cmd = [] \<or> 1024 < length cmd"
  | (cut) x' where "writeCommand cmd x = Some (False, x')" "lost x x'" "\<exists>k. Some k \<in> set (lc_wr c)"
proof (cases "cmd = [] \<or> 1024 < length cmd")
  case True
  then show ?thesis by (intro refused) (auto simp: writeCommand_def Let_def)
next
  case False
  let ?len = "int (length cmd)"
  let ?b = "(buf x)[0 := word_of_int (?len AND 0xff), 1 := word_of_int (drop_bit 8 ?len AND 0xff)]"
  have "take 2 ?b = [word_of_int (?len AND 0xff), word_of_int (drop_bit 8 ?len AND 0xff)]"
    using assms(2) by (cases "buf x"; cases "tl (buf x)") (auto simp: numeral_2_eq_2)
  then have b: "take 2 ?b = short_bytes (word_of_nat (length cmd))" "length ?b = 1024"
    using length_bytes_sent [of "length cmd"] False assms(2) by simp_all
  obtain ok1 c1 where w1: "stream_write c (short_bytes (word_of_nat (length cmd))) = (ok1, c1)" by force
  obtain ok2 c2 where w2: "stream_write c1 (map byte_of_char cmd) = (ok2, c2)" by force
  have wr: "writeCommand cmd x =
      (if \<not> ok1 then Some (False, disconnect (x\<lparr>buf := ?b, mSocket := Some c1\<rparr>))
       else if \<not> ok2 then Some (False, disconnect (x\<lparr>buf := ?b, mSocket := Some c2\<rparr>))
       else Some (True, x\<lparr>buf := ?b, mSocket := Some c2\<rparr>))"
    using False assms(1) w1 w2 b(1) by (cases ok1; cases ok2) (auto simp: writeCommand_def Let_def)
  show ?thesis
  proof (cases "ok1 \<and> ok2")
    case True
    then show ?thesis using wr w1 w2 b(2)
      by (intro sent [of "x\<lparr>buf := ?b, mSocket := Some c2\<rparr>" c2])
        (auto simp: frame_def stream_write_def split: list.splits option.splits)
  next
    case f: False
    moreover from f have "\<exists>k. Some k \<in> set (lc_wr c)"
      using w1 w2 by (auto simp: stream_write_def split: list.splits option.splits)
    moreover have "lost x (disconnect (x\<lparr>buf := ?b, mSocket := Some c'\<rparr>))" for c'
      using assms(2) by (simp add: lost_def disconnect_def)
    ultimately show ?thesis using wr cut by (metis (full_types))
  qed
qed

section \<open>Commands and their replies\<close>

text \<open>The commands sent completely on a connection, each with the reply read after it.\<close>

definition exchanged :: "conn \<Rightarrow> (string \<times> string) list \<Rightarrow> bool" where
  "exchanged c es \<longleftrightarrow>
     lc_out c = concat (map (\<lambda>(cmd, r). frame cmd) es) \<and> lc_all c = concat (map (\<lambda>(cmd, r). frame r) es) @ lc_in c"

text \<open>Between calls, as many replies have been read from an open connection as commands have been sent on it.\<close>

definition in_sync :: "xloader \<Rightarrow> bool" where
  "in_sync x \<longleftrightarrow> length (buf x) = 1024 \<and> (\<forall>c. mSocket x = Some c \<longrightarrow> (\<exists>es. exchanged c es)) \<and>
     (\<forall>c. Some c \<in> set (x_connects x) \<longrightarrow> exchanged c [])"

lemma lost_in_sync: "in_sync x \<Longrightarrow> lost x x' \<Longrightarrow> in_sync x'"
  by (simp add: in_sync_def lost_def)

lemma connect_in_sync:
  assumes "in_sync x" "connect x = (ok, x')"
  shows "in_sync x' \<and> (ok \<longrightarrow> mSocket x' \<noteq> None)"
  using assms by (auto simp: in_sync_def connect_def disconnect_def split: option.splits list.splits; blast)

lemma writeCommand_in_sync:
  assumes "in_sync x" "mSocket x = Some c"
  shows "\<exists>ok x'. writeCommand cmd x = Some (ok, x') \<and> (\<not> ok \<longrightarrow> in_sync x')"
proof -
  from assms(1) have "length (buf x) = 1024" by (simp add: in_sync_def)
  from assms(2) this show ?thesis
    by (rule writeCommand_writes [of x c cmd]) (use assms(1) lost_in_sync in auto)
qed

text \<open>A connected client that sends a command reads its reply, or the connection is gone.\<close>

lemma reply_to_command:
  assumes "in_sync x" "mSocket x = Some c" "writeCommand cmd x = Some (True, x')"
  shows "\<exists>got x''. readReply x' = Some (got, x'') \<and> in_sync x'' \<and>
    (got \<longrightarrow> (\<exists>c' es. mSocket x'' = Some c' \<and> exchanged c' (es @ [(cmd, map char_of_byte (take (buflen x'') (buf x'')))])))"
proof -
  from assms(1,2) obtain es where es: "exchanged c es" and x: "length (buf x) = 1024" and
      fresh: "\<forall>c. Some c \<in> set (x_connects x) \<longrightarrow> exchanged c []"
    by (auto simp: in_sync_def)
  from assms(2) x obtain c1 where c1: "mSocket x' = Some c1" "length (buf x') = 1024" "x_connects x' = x_connects x"
      "lc_out c1 = lc_out c @ frame cmd" "lc_in c1 = lc_in c" "lc_all c1 = lc_all c"
    by (rule writeCommand_writes [of x c cmd]) (use assms(3) in auto)
  show ?thesis
  proof (cases rule: readReply_reads [OF c1(1,2), case_names reply cut])
    case (reply r c2 x2)
    then have "exchanged c2 (es @ [(cmd, r)])"
      using es c1 by (auto simp: exchanged_def same_sent_def)
    with reply c1(3) fresh show ?thesis by (auto simp: in_sync_def)
  next
    case (cut x2)
    with c1(3) fresh show ?thesis by (auto simp: in_sync_def lost_def c1(2))
  qed
qed


lemma transaction_returns:
  assumes "in_sync x"
  shows "\<exists>r x'. transaction_call cmd x = Some (r, x') \<and> in_sync x' \<and>
    (r = ''-1'' \<or> (\<exists>c es. mSocket x' = Some c \<and> exchanged c (es @ [(cmd, r)])))"
proof -
  obtain ok1 x1 where c1: "connect x = (ok1, x1)" by force
  note s1 = connect_in_sync [OF assms c1]
  show ?thesis
  proof (cases ok1)
    case False
    with c1 s1 show ?thesis by (simp add: transaction_call_def)
  next
    case True
    with s1 obtain c where c: "mSocket x1 = Some c" "in_sync x1" by auto
    obtain ok2 x2 where w: "writeCommand cmd x1 = Some (ok2, x2)" "\<not> ok2 \<longrightarrow> in_sync x2"
      using writeCommand_in_sync [OF c(2,1)] by blast
    show ?thesis
    proof (cases ok2)
      case True
      then have "\<exists>got x'. readReply x2 = Some (got, x') \<and> in_sync x' \<and> (got \<longrightarrow> (\<exists>c' es. mSocket x' = Some c' \<and>
          exchanged c' (es @ [(cmd, map char_of_byte (take (buflen x') (buf x')))])))"
        using reply_to_command [OF c(2,1)] w by simp
      then show ?thesis using c1 \<open>ok1\<close> w True by (auto simp: transaction_call_def)
    next
      case nok2: False
      obtain ok3 x3 where c3: "connect x2 = (ok3, x3)" by force
      from w nok2 connect_in_sync [OF _ c3] have s3: "in_sync x3" "ok3 \<longrightarrow> mSocket x3 \<noteq> None" by auto
      show ?thesis
      proof (cases ok3)
        case False
        with c1 \<open>ok1\<close> w nok2 c3 s3 show ?thesis by (simp add: transaction_call_def)
      next
        case True
        with s3 obtain c' where c': "mSocket x3 = Some c'" by auto
        obtain ok4 x4 where w4: "writeCommand cmd x3 = Some (ok4, x4)" "\<not> ok4 \<longrightarrow> in_sync x4"
          using writeCommand_in_sync [OF s3(1) c'] by blast
        then show ?thesis using reply_to_command [OF s3(1) c', of cmd x4] c1 \<open>ok1\<close> w nok2 c3 True
          by (cases ok4) (auto simp: transaction_call_def)
      qed
    qed
  qed
qed


text \<open>
  C10 Replies never get mixed up.  Whatever the connections do -- refuse, break while a command is written or a
  reply is read, deliver in pieces -- a call of \<open>transaction\<close> returns, without a \<open>NullPointerException\<close>, and
  its result is \<open>-1\<close> or the reply that the daemon sent to this very command: as many replies have been read from
  the connection before it as commands have been sent on it, and this holds again for the next call.
\<close>

theorem transaction_in_sync:
  assumes "in_sync x"
  shows "\<exists>r x'. transaction_call cmd x = Some (r, x') \<and> in_sync x' \<and>
    (r = ''-1'' \<or> (\<exists>c es. mSocket x' = Some c \<and> exchanged c (es @ [(cmd, r)])))"
  by (rule transaction_returns [OF assms])

theorem transaction_in_sync_witness:
  "\<exists>r x'. transaction_call ''ping''
      \<lparr>mSocketAddr = ''xloaderd'', mSocket = Some \<lparr>lc_all = [1, 0, 48, 1, 0], lc_in = [1, 0, 48, 1, 0], lc_out = [], lc_rd = [], lc_wr = [Some 1]\<rparr>,
       buf = replicate 1024 0, buflen = 0,
       x_connects = [Some \<lparr>lc_all = [1, 0, 48], lc_in = [1, 0, 48], lc_out = [], lc_rd = [Read_up_to 0], lc_wr = []\<rparr>], x_closed = []\<rparr> =
      Some (r, x') \<and> in_sync x' \<and> (r = ''-1'' \<or> (\<exists>c es. mSocket x' = Some c \<and> exchanged c (es @ [(''ping'', r)])))"
proof (rule transaction_in_sync)
  have "exchanged \<lparr>lc_all = [1, 0, 48, 1, 0], lc_in = [1, 0, 48, 1, 0], lc_out = [], lc_rd = [], lc_wr = [Some 1]\<rparr> []"
    by (simp add: exchanged_def)
  then show "in_sync \<lparr>mSocketAddr = ''xloaderd'',
       mSocket = Some \<lparr>lc_all = [1, 0, 48, 1, 0], lc_in = [1, 0, 48, 1, 0], lc_out = [], lc_rd = [], lc_wr = [Some 1]\<rparr>,
       buf = replicate 1024 0, buflen = 0,
       x_connects = [Some \<lparr>lc_all = [1, 0, 48], lc_in = [1, 0, 48], lc_out = [], lc_rd = [Read_up_to 0], lc_wr = []\<rparr>], x_closed = []\<rparr>"
    by (auto simp: in_sync_def) (simp add: exchanged_def)
qed

lemma execute_call_returns: "in_sync x \<Longrightarrow> \<exists>ret x'. execute_call cmd x = Some (ret, x') \<and> in_sync x'"
  using transaction_returns [of x cmd] by (auto simp: execute_call_def)

lemma xload_call_returns: "in_sync x \<Longrightarrow> \<exists>ret x'. xload_call pkg proc path x = Some (ret, x') \<and> in_sync x'"
  unfolding xload_call_def by (rule execute_call_returns)

section \<open>Calls that reach the loader\<close>

lemma frame_inject:
  assumes "frame r @ a = frame r' @ b" "length r \<le> 1024" "length r' \<le> 1024"
  shows "r = r' \<and> a = b"
proof -
  have "length r = length r'"
    using bytes_short_frame(1) [of r a] bytes_short_frame(1) [of r' b] assms by simp
  moreover have "map byte_of_char r @ a = map byte_of_char r' @ b"
    using bytes_short_frame(2) [of r a] bytes_short_frame(2) [of r' b] assms by simp
  ultimately show ?thesis by (metis append_eq_append_conv length_map map_char_of_byte_of_char)
qed

lemma parseInt_show_int:
  assumes "is_int32 i"
  shows "parseInt (show_int i) = Some i"
proof -
  have digits: "list_all (\<lambda>c. digit_val c \<noteq> None) (dec_nat n)" for n
    using dec_nat_digits by (force simp: list_all_iff)
  have sign: "read_sign (dec_nat n) = (False, dec_nat n)" for n
  proof (cases "dec_nat n")
    case (Cons c cs)
    with dec_nat_digits [of c n] digit_char_not_special show ?thesis by (auto simp: read_sign_def)
  qed (simp add: read_sign_def)
  show ?thesis using assms digits sign by (auto simp: parseInt_def show_int_def read_sign_def Let_def)
qed

text \<open>A connection, open or about to be opened, on which no transfer fails.\<close>

definition open_link :: "xloader \<Rightarrow> conn \<Rightarrow> bool" where
  "open_link x c \<longleftrightarrow> length (buf x) = 1024 \<and> Read_exception \<notin> set (lc_rd c) \<and> (\<forall>k. Some k \<notin> set (lc_wr c)) \<and>
     (mSocket x = Some c \<or> mSocket x = None \<and> (\<exists>rest. x_connects x = Some c # rest))"

lemma transaction_exchange:
  assumes "open_link x c" "lc_in c = frame r @ rest" "1 \<le> length r" "length r \<le> 1024" "1 \<le> length cmd" "length cmd \<le> 1024"
  obtains c' x' where "transaction_call cmd x = Some (r, x')" "open_link x' c'" "mSocket x' = Some c'"
    "lc_out c' = lc_out c @ frame cmd" "lc_in c' = rest"
proof -
  from assms(1) obtain x1 where c: "connect x = (True, x1)" "mSocket x1 = Some c" "length (buf x1) = 1024"
      and sm: "Read_exception \<notin> set (lc_rd c)" "\<forall>k. Some k \<notin> set (lc_wr c)"
    by (auto simp: open_link_def connect_def)
  from c(2,3) obtain c2 x2 where w: "writeCommand cmd x1 = Some (True, x2)" "mSocket x2 = Some c2" "length (buf x2) = 1024"
      "lc_out c2 = lc_out c @ frame cmd" "lc_in c2 = lc_in c" "lc_rd c2 = lc_rd c" "set (lc_wr c2) \<subseteq> set (lc_wr c)"
    by (rule writeCommand_writes [of x1 c cmd]) (use assms(5,6) sm in auto)
  show ?thesis
  proof (cases rule: readReply_reads [OF w(2,3), case_names reply cut])
    case (cut x3)
    then have "lc_in c2 \<noteq> frame r @ rest" using sm(1) assms(3,4) w(6) by simp
    with assms(2) w(5) show ?thesis by simp
  next
    case (reply r' c3 x3)
    have "frame r @ rest = frame r' @ lc_in c3" using assms(2) w(5) reply(6) by simp
    from frame_inject [OF this assms(4) reply(8)] have "r' = r" "lc_in c3 = rest" by blast+
    moreover have "open_link x3 c3" using reply(2,3,7) sm w(6,7) by (auto simp: open_link_def same_sent_def)
    moreover have "transaction_call cmd x = Some (r', x3)"
      using c(1) w(1) reply(1,5) by (simp add: transaction_call_def)
    ultimately show ?thesis using reply(2,7) w(4) by (intro that [of x3 c3]) (simp_all add: same_sent_def)
  qed
qed

text \<open>A sequence of calls of \<open>xload\<close>.\<close>

fun xload_calls :: "(string \<times> string \<times> string) list \<Rightarrow> xloader \<Rightarrow> (int list \<times> xloader) option" where
  "xload_calls [] x = Some ([], x)"
| "xload_calls ((p, q, m) # calls) x =
     do { (ret, x1) \<leftarrow> xload_call (Some p) (Some q) (Some m) x; (rets, x2) \<leftarrow> xload_calls calls x1; Some (ret # rets, x2) }"

definition xload_words :: "string \<times> string \<times> string \<Rightarrow> string list" where
  "xload_words = (\<lambda>(p, q, m). [''xload'', p, q, m])"

lemma xload_calls_answered:
  assumes "open_link x c" "lc_in c = concat (map (\<lambda>ret. frame (show_int ret)) rets)" "length rets = length calls"
    and "list_all is_int32 rets" "list_all (\<lambda>call. length (unwords (xload_words call)) \<le> 1024) calls"
  shows "\<exists>x'. xload_calls calls x = Some (rets, x') \<and>
    (calls \<noteq> [] \<longrightarrow> (\<exists>c'. mSocket x' = Some c' \<and> lc_in c' = [] \<and>
       lc_out c' = lc_out c @ concat (map (\<lambda>call. frame (unwords (xload_words call))) calls)))"
  using assms
proof (induction calls arbitrary: x c rets)
  case Nil
  then show ?case by simp
next
  case (Cons call calls)
  obtain p q m where call: "call = (p, q, m)" by (cases call)
  obtain ret rets' where rets: "rets = ret # rets'" using Cons.prems(3) by (cases rets) auto
  let ?cmd = "unwords (xload_words call)"
  have ret: "is_int32 ret" "1 \<le> length (show_int ret)" "length (show_int ret) \<le> 1024"
    using Cons.prems(4) rets length_show_int_le [of ret] by (auto simp: Suc_le_eq)
  obtain c1 x1 where t: "transaction_call ?cmd x = Some (show_int ret, x1)" "open_link x1 c1" "mSocket x1 = Some c1"
      "lc_out c1 = lc_out c @ frame ?cmd" "lc_in c1 = concat (map (\<lambda>ret. frame (show_int ret)) rets')"
    by (rule transaction_exchange [OF Cons.prems(1) _ ret(2,3), of "concat (map (\<lambda>ret. frame (show_int ret)) rets')" ?cmd])
      (use Cons.prems(2,5) rets call in \<open>auto simp: xload_words_def\<close>)
  have "xload_call (Some p) (Some q) (Some m) x = Some (ret, x1)"
    using t(1) ret(1) call
    by (simp add: xload_call_def execute_call_def java_append_def parseInt_show_int xload_words_def)
  moreover from Cons.IH [OF t(2,5)] Cons.prems(3,4,5) rets obtain x' where
      "xload_calls calls x1 = Some (rets', x')" "calls \<noteq> [] \<longrightarrow> (\<exists>c'. mSocket x' = Some c' \<and> lc_in c' = [] \<and>
       lc_out c' = lc_out c1 @ concat (map (\<lambda>call. frame (unwords (xload_words call))) calls))"
    by auto
  ultimately show ?case using t rets call Cons.prems(3) by (cases "calls = []") auto
qed


text \<open>What the calls are for: \<open>xload\<close> of the loader, once for each, in order.\<close>

fun loader_runs :: "env \<Rightarrow> (string \<times> string \<times> string) list \<Rightarrow> (int list \<times> env) option" where
  "loader_runs E [] = Some ([], E)"
| "loader_runs E ((p, q, m) # calls) =
     do { (ret, E1) \<leftarrow> xload E p (Some q) m; (rets, E2) \<leftarrow> loader_runs E1 calls; Some (ret # rets, E2) }"

lemma run_commands_xload: "run_commands E (map xload_words calls) = loader_runs E calls"
  by (induction calls arbitrary: E) (auto simp: xload_words_def run_command_def)

lemma loader_runs_results:
  "loader_runs E calls = Some (rets, E') \<Longrightarrow> length rets = length calls \<and> list_all is_int32 rets"
proof (induction E calls arbitrary: rets rule: loader_runs.induct)
  case (1 E)
  then show ?case by simp
next
  case (2 E p q m calls)
  from "2.prems" obtain ret E1 rets' where r: "xload E p (Some q) m = Some (ret, E1)" "loader_runs E1 calls = Some (rets', E')"
      "rets = ret # rets'"
    by (auto simp: bind_eq_Some_conv)
  have "length rets' = length calls \<and> list_all is_int32 rets'" by (rule "2.IH" [OF r(1) refl r(2)])
  moreover have "is_int32 ret" using r(1) by (rule xload_int32)
  ultimately show ?case unfolding r(3) by simp
qed

lemma calls_run_loader:
  assumes "calls \<noteq> []" "list_all (\<lambda>(p, q, m). word p \<and> word q \<and> word m \<and> length (p @ q @ m) \<le> 1004) calls"
    and "loader_runs E calls = Some (rets, E')"
    and "s_in s = concat (map (\<lambda>call. frame (unwords (xload_words call))) calls)" "s_out s = []"
    and "smooth (s_rd s)" "EIO \<notin> set (s_wr s)" "length b = BUFFER_MAX"
  shows "\<exists>s' b'. serve E s b = Inr (E', s', b') \<and>
    (\<forall>x c. open_link x c \<and> lc_out c = [] \<and> lc_in c = s_out s' \<longrightarrow>
      (\<exists>x' c'. xload_calls calls x = Some (rets, x') \<and> mSocket x' = Some c' \<and> lc_out c' = s_in s \<and> lc_in c' = []))"
proof -
  have "word ''xload''" by (simp add: word_def isspace_def)
  then have "command (xload_words call)" if "call \<in> set calls" for call
    using that assms(2) by (cases call) (auto simp: list_all_iff command_def xload_words_def)
  then have cmds: "list_all command (map xload_words calls)" by (simp add: list_all_iff)
  have runs: "run_commands E (map xload_words calls) = Some (rets, E')" using assms(3) by (simp add: run_commands_xload)
  have "s_in s = concat (map (\<lambda>ws. frame (unwords ws)) (map xload_words calls))" using assms(4) by (simp add: comp_def)
  from serve_commands [OF cmds runs this assms(6-8)] obtain s' b' where
      d: "serve E s b = Inr (E', s', b')" "s_out s' = concat (map (\<lambda>ret. frame (show_int ret)) rets)"
    unfolding assms(5) append_Nil by blast
  have short: "list_all (\<lambda>call. length (unwords (xload_words call)) \<le> 1024) calls"
    using assms(2) by (auto simp: list_all_iff xload_words_def)
  note rets = loader_runs_results [OF assms(3)]
  have "\<exists>x' c'. xload_calls calls x = Some (rets, x') \<and> mSocket x' = Some c' \<and> lc_out c' = s_in s \<and> lc_in c' = []"
    if "open_link x c" "lc_out c = []" "lc_in c = s_out s'" for x c
  proof -
    have "lc_in c = concat (map (\<lambda>ret. frame (show_int ret)) rets)" using that(3) d(2) by simp
    from xload_calls_answered [OF that(1) this _ _ short] rets assms(1) show ?thesis
      unfolding assms(4) that(2) append_Nil by blast
  qed
  with d(1) show ?thesis by blast
qed


text \<open>
  C9 The two ends of the socket fit together.  For a sequence of calls of the Java method \<open>xload\<close> with arguments
  that are single words and short enough, the daemon that reads what the calls write runs the loader once for
  each call, in order and with exactly its arguments, and the calls, which read what the daemon writes, return
  exactly the values that the loader returned.
\<close>

theorem java_calls_run_the_loader:
  assumes "calls \<noteq> []" "list_all (\<lambda>(p, q, m). word p \<and> word q \<and> word m \<and> length (p @ q @ m) \<le> 1004) calls"
    and "loader_runs E calls = Some (rets, E')"
    and "s_in s = concat (map (\<lambda>call. frame (unwords (xload_words call))) calls)" "s_out s = []"
    and "smooth (s_rd s)" "EIO \<notin> set (s_wr s)" "length b = BUFFER_MAX"
  shows "\<exists>s' b'. serve E s b = Inr (E', s', b') \<and>
    (\<forall>x c. open_link x c \<and> lc_out c = [] \<and> lc_in c = s_out s' \<longrightarrow>
      (\<exists>x' c'. xload_calls calls x = Some (rets, x') \<and> mSocket x' = Some c' \<and> lc_out c' = s_in s \<and> lc_in c' = []))"
  by (rule calls_run_loader [OF assms])

theorem java_calls_run_the_loader_witness:
  "\<exists>s' b'. serve ((demo_env [])\<lparr>e_proc := None\<rparr>)
       \<lparr>s_in = frame ''xload com.app com.app:ui /data/m.apk'', s_out = [], s_rd = [Part 1], s_wr = [EINTR]\<rparr> (replicate BUFFER_MAX NUL) =
       Inr ((demo_env [])\<lparr>e_proc := None\<rparr>, s', b') \<and>
    (\<exists>x'. xload_calls [(''com.app'', ''com.app:ui'', ''/data/m.apk'')]
       \<lparr>mSocketAddr = ''xloaderd'', mSocket = None, buf = replicate 1024 0, buflen = 0,
        x_connects = [Some \<lparr>lc_all = s_out s', lc_in = s_out s', lc_out = [], lc_rd = [Read_up_to 0], lc_wr = []\<rparr>], x_closed = []\<rparr> =
       Some ([ERROR_XLOADER_PROCESS_NOT_FOUND], x'))"
proof -
  let ?E = "(demo_env [])\<lparr>e_proc := None\<rparr>" and ?calls = "[(''com.app'', ''com.app:ui'', ''/data/m.apk'')]"
  let ?s = "\<lparr>s_in = frame ''xload com.app com.app:ui /data/m.apk'', s_out = [], s_rd = [Part 1], s_wr = [EINTR]\<rparr>"
  have runs: "loader_runs ?E ?calls = Some ([ERROR_XLOADER_PROCESS_NOT_FOUND], ?E)"
    by (simp add: xload_def demo_env_def find_pid_of_def)
  have words: "list_all (\<lambda>(p, q, m). word p \<and> word q \<and> word m \<and> length (p @ q @ m) \<le> 1004) ?calls"
    by (simp add: word_def isspace_def)
  have sent: "s_in ?s = concat (map (\<lambda>call. frame (unwords (xload_words call))) ?calls)" by (simp add: xload_words_def)
  obtain s' b' where "serve ?E ?s (replicate BUFFER_MAX NUL) = Inr (?E, s', b')" and
    c: "\<forall>x c. open_link x c \<and> lc_out c = [] \<and> lc_in c = s_out s' \<longrightarrow>
      (\<exists>x' c'. xload_calls ?calls x = Some ([ERROR_XLOADER_PROCESS_NOT_FOUND], x') \<and> mSocket x' = Some c' \<and> lc_out c' = s_in ?s \<and> lc_in c' = [])"
    using java_calls_run_the_loader [OF _ words runs sent, of "replicate BUFFER_MAX NUL"] by (auto simp: smooth_def simp del: xload_calls.simps)
  moreover let ?c = "\<lparr>lc_all = s_out s', lc_in = s_out s', lc_out = [], lc_rd = [Read_up_to 0], lc_wr = []\<rparr>"
  have "open_link \<lparr>mSocketAddr = ''xloaderd'', mSocket = None, buf = replicate 1024 0, buflen = 0, x_connects = [Some ?c], x_closed = []\<rparr> ?c"
    by (simp add: open_link_def)
  moreover have "lc_out ?c = []" "lc_in ?c = s_out s'" by simp_all
  ultimately show ?thesis by blast
qed

end
