(* ===== verification/DynXloaderService.thy ===== *)
theory DynXloaderService
  imports XloaderJava
begin

text \<open>
  The application that keeps the modules and tells the daemon when to load them:
  \<open>DynXloaderService.java\<close>, \<open>AssetsHelper.java\<close> and the library for its clients, \<open>DynXloaderServiceProxy.java\<close>
  (under \<open>src/DynXloaderService/src/com/tencent/qrom/dynxloader\<close>).

  The state of the service is a record.  The handler's messages are a list in the order of their times; the
  event loop takes the first.  What the platform answers is an argument: the packages of a user and their
  signatures, and the running services and processes at the moment of a message.  \<open>sv_sent\<close> records the
  commands given to the daemon, \<open>sv_preloaded\<close> the modules given to a class loader, \<open>sv_files\<close> are the files
  of the Dalvik cache.  An uncaught exception is a value.
\<close>

section \<open>State\<close>

datatype jexn = NullPointerException | IndexOutOfBoundsException

record ModuleInfo =
  mi_pkgName :: "string option"
  mi_processName :: "string option"
  mi_modulePath :: "string option"

datatype what =
    CHECK_PROCESS_WHETHER_EXIST
  | XLOADER_SYSTEM_SERVER_STARTPROCESS
  | CHECK_PROCESS_HAD_STARTED_BEFORE_ADDMODULE
  | CHECK_HAD_STARTED_BEFORE_XLOADERSERVICE

text \<open>The preferences of the application: no key is used for a number and for a string.\<close>

record prefs =
  pr_ints :: "string \<Rightarrow> int option"
  pr_strings :: "string \<Rightarrow> string option"

record service =
  mModuleList :: "ModuleInfo list"
  mPendingModuleList :: "ModuleInfo list"
  mCurAddModule :: "ModuleInfo option"
  mCheckNums :: nat
  mXtracer :: xloader
  sv_now :: nat
  sv_queue :: "(nat \<times> what) list"
  sv_prefs :: prefs
  sv_cacheDir :: string
  sv_files :: "string set"
  sv_preloaded :: "string list"
  sv_sent :: "ModuleInfo list"

record packages =
  packagesForUid :: "int \<Rightarrow> string list option"
  checkSignatures :: "string \<Rightarrow> string \<Rightarrow> int"

record RunningServiceInfo =
  si_started :: bool
  si_clientLabel :: int
  si_flags :: u32
  si_process :: string

record activities =
  runningServices :: "RunningServiceInfo list option"
  runningAppProcesses :: "string list option"

section \<open>Messages\<close>

fun enqueue :: "nat \<Rightarrow> what \<Rightarrow> (nat \<times> what) list \<Rightarrow> (nat \<times> what) list" where
  "enqueue t w [] = [(t, w)]"
| "enqueue t w ((u, v) # q) = (if t < u then (t, w) # (u, v) # q else (u, v) # enqueue t w q)"

definition sendEmptyMessageDelayed :: "what \<Rightarrow> nat \<Rightarrow> service \<Rightarrow> service" where
  "sendEmptyMessageDelayed w delay s = s\<lparr>sv_queue := enqueue (sv_now s + delay) w (sv_queue s)\<rparr>"

section \<open>Preferences\<close>

text \<open>Storing a null string removes the key.\<close>

definition putString :: "string \<Rightarrow> string option \<Rightarrow> prefs \<Rightarrow> prefs" where
  "putString k v p = p\<lparr>pr_strings := (pr_strings p)(k := v)\<rparr>"

definition putInt :: "string \<Rightarrow> int \<Rightarrow> prefs \<Rightarrow> prefs" where
  "putInt k v p = p\<lparr>pr_ints := (pr_ints p)(k := Some v)\<rparr>"

fun put_modules :: "int \<Rightarrow> ModuleInfo list \<Rightarrow> prefs \<Rightarrow> prefs" where
  "put_modules index [] p = p"
| "put_modules index (m # ms) p =
     put_modules (index + 1) ms
       (putString (''modulePath'' @ show_int index) (mi_modulePath m)
         (putString (''processName'' @ show_int index) (mi_processName m)
           (putString (''pkgName'' @ show_int index) (mi_pkgName m) p)))"

definition writeSharedPreferences :: "service \<Rightarrow> service" where
  "writeSharedPreferences s =
     s\<lparr>sv_prefs := put_modules 1 (mModuleList s) (putInt ''AppNums'' (int (length (mModuleList s))) (sv_prefs s))\<rparr>"

definition read_modules :: "prefs \<Rightarrow> ModuleInfo list" where
  "read_modules p =
     (let ge = (case pr_ints p ''AppNums'' of None \<Rightarrow> - 1 | Some n \<Rightarrow> n)
      in map (\<lambda>index. \<lparr>mi_pkgName = pr_strings p (''pkgName'' @ show_int index),
                       mi_processName = pr_strings p (''processName'' @ show_int index),
                       mi_modulePath = pr_strings p (''modulePath'' @ show_int index)\<rparr>) [1..ge])"

definition readSharedPreferences :: "service \<Rightarrow> service" where
  "readSharedPreferences s = s\<lparr>mModuleList := read_modules (sv_prefs s)\<rparr>"

section \<open>Running processes\<close>

abbreviation (input) FLAG_PERSISTENT_PROCESS :: u32 where "FLAG_PERSISTENT_PROCESS \<equiv> 8"

text \<open>The loop over the services: \<open>i\<close> and \<open>NS\<close>, services that do not count are removed from the list.\<close>

function services_loop :: "string \<Rightarrow> RunningServiceInfo list \<Rightarrow> nat \<Rightarrow> bool \<Rightarrow> bool" where
  "services_loop procName services i isRunning =
     (if length services \<le> i then isRunning
      else let si = services ! i
           in if \<not> si_started si \<and> si_clientLabel si = 0
              then services_loop procName (take i services @ drop (i + 1) services) i isRunning
              else if si_flags si AND FLAG_PERSISTENT_PROCESS \<noteq> 0
              then services_loop procName (take i services @ drop (i + 1) services) i isRunning
              else services_loop procName services (i + 1) (isRunning \<or> procName = si_process si))"
  by pat_completeness auto
termination
  by (relation "measure (\<lambda>(_, services, i, _). length services - i)") auto

declare services_loop.simps [simp del]

fun processes_loop :: "string \<Rightarrow> string list \<Rightarrow> bool \<Rightarrow> bool" where
  "processes_loop procName [] isRunning = isRunning"
| "processes_loop procName (pi # processes) isRunning = processes_loop procName processes (isRunning \<or> procName = pi)"

definition queryAllRunningAppInfo :: "activities \<Rightarrow> string option \<Rightarrow> bool" where
  "queryAllRunningAppInfo am procName =
     (case procName of
        None \<Rightarrow> False
      | Some name \<Rightarrow>
          processes_loop name (case runningAppProcesses am of None \<Rightarrow> [] | Some ps \<Rightarrow> ps)
            (services_loop name (case runningServices am of None \<Rightarrow> [] | Some ss \<Rightarrow> ss) 0 False))"

section \<open>Commands to the daemon\<close>

definition getDexPath :: "string \<Rightarrow> string option" where
  "getDexPath apkPath =
     (case map (\<lambda>c. if c = CHR ''/'' then CHR ''@'' else c) apkPath of
        [] \<Rightarrow> None
      | c # dexPath \<Rightarrow> Some (''/data/dalvik-cache/'' @ dexPath @ ''@classes.dex''))"

definition preloadDex :: "string option \<Rightarrow> service \<Rightarrow> (jexn + unit) \<times> service" where
  "preloadDex path s =
     (case path of
        None \<Rightarrow> (Inl NullPointerException, s)
      | Some p \<Rightarrow>
          (case getDexPath p of
             None \<Rightarrow> (Inl IndexOutOfBoundsException, s)
           | Some f \<Rightarrow> (Inr (), s\<lparr>sv_files := sv_files s - {f}, sv_preloaded := sv_preloaded s @ [p]\<rparr>)))"

definition sendCmdToXlodaerProcess :: "ModuleInfo \<Rightarrow> service \<Rightarrow> (jexn + unit) \<times> service" where
  "sendCmdToXlodaerProcess mi s =
     (case preloadDex (mi_modulePath mi) s of
        (Inl e, s1) \<Rightarrow> (Inl e, s1)
      | (Inr _, s1) \<Rightarrow>
          (case xload_call (mi_pkgName mi) (mi_processName mi) (mi_modulePath mi) (mXtracer s1) of
             None \<Rightarrow> (Inl NullPointerException, s1)
           | Some (ret, x) \<Rightarrow> (Inr (), s1\<lparr>mXtracer := x, sv_sent := sv_sent s1 @ [mi]\<rparr>)))"

section \<open>The handler\<close>

text \<open>The iteration over the pending modules: those whose process runs are loaded and taken out.\<close>

fun check_pending :: "activities \<Rightarrow> ModuleInfo list \<Rightarrow> service \<Rightarrow> (jexn + unit) \<times> ModuleInfo list \<times> service" where
  "check_pending am [] s = (Inr (), [], s)"
| "check_pending am (mi # ms) s =
     (if queryAllRunningAppInfo am (mi_processName mi)
      then case sendCmdToXlodaerProcess mi s of
             (Inl e, s1) \<Rightarrow> (Inl e, mi # ms, s1)
           | (Inr _, s1) \<Rightarrow> check_pending am ms s1
      else case check_pending am ms s of (r, rest, s1) \<Rightarrow> (r, mi # rest, s1))"

fun check_modules :: "activities \<Rightarrow> ModuleInfo list \<Rightarrow> service \<Rightarrow> (jexn + unit) \<times> service" where
  "check_modules am [] s = (Inr (), s)"
| "check_modules am (mi # ms) s =
     (if queryAllRunningAppInfo am (mi_processName mi)
      then case sendCmdToXlodaerProcess mi s of
             (Inl e, s1) \<Rightarrow> (Inl e, s1)
           | (Inr _, s1) \<Rightarrow> check_modules am ms s1
      else check_modules am ms s)"

definition system_module :: "service \<Rightarrow> ModuleInfo" where
  "system_module s = \<lparr>mi_pkgName = Some ''android'', mi_processName = Some ''system_server'',
     mi_modulePath = Some (sv_cacheDir s @ ''/'' @ ''xandroid.jar'')\<rparr>"

fun handleMessage :: "activities \<Rightarrow> what \<Rightarrow> service \<Rightarrow> (jexn + unit) \<times> service" where
  "handleMessage am CHECK_PROCESS_WHETHER_EXIST s =
     (case check_pending am (mPendingModuleList s) s of
        (Inl e, rest, s1) \<Rightarrow> (Inl e, s1\<lparr>mPendingModuleList := rest\<rparr>)
      | (Inr _, rest, s1) \<Rightarrow>
          let s2 = s1\<lparr>mPendingModuleList := rest\<rparr>
          in (Inr (), if rest \<noteq> [] \<and> mCheckNums s2 < 5
                      then sendEmptyMessageDelayed CHECK_PROCESS_WHETHER_EXIST 1000 (s2\<lparr>mCheckNums := mCheckNums s2 + 1\<rparr>)
                      else s2))"
| "handleMessage am XLOADER_SYSTEM_SERVER_STARTPROCESS s =
     (case sendCmdToXlodaerProcess (system_module s) s of
        (Inl e, s1) \<Rightarrow> (Inl e, s1)
      | (Inr _, s1) \<Rightarrow> (Inr (), sendEmptyMessageDelayed CHECK_HAD_STARTED_BEFORE_XLOADERSERVICE 1000 s1))"
| "handleMessage am CHECK_PROCESS_HAD_STARTED_BEFORE_ADDMODULE s =
     (case mCurAddModule s of
        None \<Rightarrow> (Inl NullPointerException, s)
      | Some mi \<Rightarrow>
          if queryAllRunningAppInfo am (mi_processName mi) then sendCmdToXlodaerProcess mi s else (Inr (), s))"
| "handleMessage am CHECK_HAD_STARTED_BEFORE_XLOADERSERVICE s = check_modules am (mModuleList s) s"

text \<open>The event loop takes the next message when its time has come.\<close>

definition deliver :: "activities \<Rightarrow> service \<Rightarrow> (jexn + unit) \<times> service" where
  "deliver am s =
     (case sv_queue s of
        [] \<Rightarrow> (Inr (), s)
      | (t, w) # q \<Rightarrow> handleMessage am w (s\<lparr>sv_now := max t (sv_now s), sv_queue := q\<rparr>))"

section \<open>Requests\<close>

definition java_equals :: "string option \<Rightarrow> string option \<Rightarrow> jexn + bool" where
  "java_equals a b = (case a of None \<Rightarrow> Inl NullPointerException | Some x \<Rightarrow> Inr (b = Some x))"

text \<open>The loop that looks for a package and process.\<close>

fun find_module :: "string option \<Rightarrow> string option \<Rightarrow> ModuleInfo list \<Rightarrow> jexn + ModuleInfo option" where
  "find_module pkg proc [] = Inr None"
| "find_module pkg proc (tmpAp # ms) =
     (case java_equals pkg (mi_pkgName tmpAp) of
        Inl e \<Rightarrow> Inl e
      | Inr False \<Rightarrow> find_module pkg proc ms
      | Inr True \<Rightarrow>
          (case java_equals proc (mi_processName tmpAp) of
             Inl e \<Rightarrow> Inl e
           | Inr False \<Rightarrow> find_module pkg proc ms
           | Inr True \<Rightarrow> Inr (Some tmpAp)))"

definition ACTION_AMS_START_PROCESS :: string where
  "ACTION_AMS_START_PROCESS = ''com.qrom.dynxloader.startprocess''"

definition onReceive :: "string option \<Rightarrow> string option \<Rightarrow> string option \<Rightarrow> service \<Rightarrow> (jexn + unit) \<times> service" where
  "onReceive action pkg proc s =
     (case java_equals action (Some ACTION_AMS_START_PROCESS) of
        Inl e \<Rightarrow> (Inl e, s)
      | Inr False \<Rightarrow> (Inr (), s)
      | Inr True \<Rightarrow>
          (case find_module pkg proc (mModuleList s) of
             Inl e \<Rightarrow> (Inl e, s)
           | Inr None \<Rightarrow> (Inr (), s)
           | Inr (Some tmpAp) \<Rightarrow>
               (Inr (), sendEmptyMessageDelayed CHECK_PROCESS_WHETHER_EXIST 100
                  (s\<lparr>mPendingModuleList := mPendingModuleList s @ [tmpAp], mCheckNums := 0\<rparr>))))"

definition verifyCallerPerm :: "packages \<Rightarrow> int \<Rightarrow> jexn + bool" where
  "verifyCallerPerm pm uid =
     (case packagesForUid pm uid of
        None \<Rightarrow> Inl NullPointerException
      | Some [] \<Rightarrow> Inl IndexOutOfBoundsException
      | Some (p # ps) \<Rightarrow> Inr (checkSignatures pm p ''com.android.systemui'' = 0))"

definition addModule ::
    "packages \<Rightarrow> int \<Rightarrow> string option \<Rightarrow> string option \<Rightarrow> string option \<Rightarrow> service \<Rightarrow> (jexn + int) \<times> service" where
  "addModule pm uid pkg proc path s =
     (case verifyCallerPerm pm uid of
        Inl e \<Rightarrow> (Inl e, s)
      | Inr False \<Rightarrow> (Inr (- 1), s)
      | Inr True \<Rightarrow>
          (case find_module pkg proc (mModuleList s) of
             Inl e \<Rightarrow> (Inl e, s)
           | Inr found \<Rightarrow>
               (case preloadDex path
                       (if found = None
                        then let mi = \<lparr>mi_pkgName = pkg, mi_processName = proc, mi_modulePath = path\<rparr>;
                                 s1 = s\<lparr>mModuleList := mModuleList s @ [mi], mCurAddModule := Some mi\<rparr>
                             in writeSharedPreferences (sendEmptyMessageDelayed CHECK_PROCESS_HAD_STARTED_BEFORE_ADDMODULE 1000 s1)
                        else s) of
                  (Inl e, s2) \<Rightarrow> (Inl e, s2)
                | (Inr _, s2) \<Rightarrow> (Inr 0, s2))))"

definition removeModule :: "packages \<Rightarrow> int \<Rightarrow> string option \<Rightarrow> string option \<Rightarrow> service \<Rightarrow> (jexn + int) \<times> service" where
  "removeModule pm uid pkg proc s =
     (case verifyCallerPerm pm uid of
        Inl e \<Rightarrow> (Inl e, s)
      | Inr False \<Rightarrow> (Inr (- 1), s)
      | Inr True \<Rightarrow>
          (case find_module pkg proc (mModuleList s) of
             Inl e \<Rightarrow> (Inl e, s)
           | Inr None \<Rightarrow> (Inr 0, s)
           | Inr (Some tmpAp) \<Rightarrow> (Inr 0, writeSharedPreferences (s\<lparr>mModuleList := remove1 tmpAp (mModuleList s)\<rparr>))))"

fun exists_module :: "string option \<Rightarrow> string option \<Rightarrow> string option \<Rightarrow> ModuleInfo list \<Rightarrow> jexn + bool" where
  "exists_module pkg proc path [] = Inr False"
| "exists_module pkg proc path (tmpAp # ms) =
     (case java_equals pkg (mi_pkgName tmpAp) of
        Inl e \<Rightarrow> Inl e
      | Inr False \<Rightarrow> exists_module pkg proc path ms
      | Inr True \<Rightarrow>
          (case java_equals proc (mi_processName tmpAp) of
             Inl e \<Rightarrow> Inl e
           | Inr False \<Rightarrow> exists_module pkg proc path ms
           | Inr True \<Rightarrow>
               (case java_equals path (mi_modulePath tmpAp) of
                  Inl e \<Rightarrow> Inl e
                | Inr False \<Rightarrow> exists_module pkg proc path ms
                | Inr True \<Rightarrow> Inr True)))"

definition checkModuleExist :: "string option \<Rightarrow> string option \<Rightarrow> string option \<Rightarrow> service \<Rightarrow> jexn + int" where
  "checkModuleExist pkg proc path s =
     (case exists_module pkg proc path (mModuleList s) of Inl e \<Rightarrow> Inl e | Inr b \<Rightarrow> Inr (if b then 1 else 0))"


section \<open>Start\<close>

text \<open>The constructor of the service; \<open>conns\<close> are the connections to the daemon to come.\<close>

definition newServiceImpl :: "prefs \<Rightarrow> string \<Rightarrow> string set \<Rightarrow> conn option list \<Rightarrow> nat \<Rightarrow> service" where
  "newServiceImpl p dir outs conns now =
     sendEmptyMessageDelayed XLOADER_SYSTEM_SERVER_STARTPROCESS 3000
       (readSharedPreferences
         \<lparr>mModuleList = [], mPendingModuleList = [], mCurAddModule = None, mCheckNums = 0,
          mXtracer = \<lparr>mSocketAddr = ''xloaderd'', mSocket = None, buf = replicate 1024 0, buflen = 0, x_connects = conns, x_closed = []\<rparr>,
          sv_now = now, sv_queue = [], sv_prefs = p, sv_cacheDir = dir, sv_files = outs, sv_preloaded = [], sv_sent = []\<rparr>)"

text \<open>
  Copying a file out of the application: what the reads and writes of the loop do, up to the end of the stream or
  an exception that leaves some bytes written; whether the streams can be opened and closed.
\<close>

datatype chunk = Chunk "byte list" | Copy_fails "byte list"

record asset =
  as_open :: bool
  as_create :: bool
  as_chunks :: "chunk list"
  as_close :: bool

fun copy_loop :: "chunk list \<Rightarrow> byte list \<Rightarrow> byte list" where
  "copy_loop [] out = out"
| "copy_loop (Chunk bs # cs) out = copy_loop cs (out @ bs)"
| "copy_loop (Copy_fails bs # cs) out = out @ bs"

definition extraceToLocal :: "asset \<Rightarrow> bool \<times> byte list option" where
  "extraceToLocal a =
     (if as_open a \<and> as_create a then (as_close a, Some (copy_loop (as_chunks a) [])) else (False, None))"

record app =
  ap_impl :: "service option"
  ap_files :: "string \<Rightarrow> byte list option"
  ap_readable :: "string set"
  ap_firstboot :: bool

text \<open>\<open>extractBridge\<close> and \<open>extractXandroid\<close>, which differ in the name only.\<close>

definition extract_jar :: "string \<Rightarrow> asset \<Rightarrow> service \<Rightarrow> app \<Rightarrow> (jexn + bool) \<times> app" where
  "extract_jar name a s ap =
     (let path = sv_cacheDir s @ ''/'' @ name;
          (ret, out) = extraceToLocal a;
          outs = (case out of None \<Rightarrow> ap_files ap | Some bs \<Rightarrow> (ap_files ap)(path := Some bs));
          readable = (if outs path \<noteq> None then insert path (ap_readable ap) else ap_readable ap)
      in case preloadDex (Some path) s of
           (Inl e, s1) \<Rightarrow> (Inl e, ap\<lparr>ap_impl := Some s1, ap_files := outs, ap_readable := readable\<rparr>)
         | (Inr _, s1) \<Rightarrow> (Inr ret, ap\<lparr>ap_impl := Some s1, ap_files := outs, ap_readable := readable\<rparr>))"

definition onCreate ::
    "prefs \<Rightarrow> string \<Rightarrow> string set \<Rightarrow> conn option list \<Rightarrow> nat \<Rightarrow> asset \<Rightarrow> asset \<Rightarrow> app \<Rightarrow> (jexn + unit) \<times> app" where
  "onCreate p dir outs conns now bridge xandroid ap =
     (let s = (case ap_impl ap of None \<Rightarrow> newServiceImpl p dir outs conns now | Some s \<Rightarrow> s)
      in case extract_jar ''bridge.jar'' bridge s ap of
           (Inl e, ap1) \<Rightarrow> (Inl e, ap1)
         | (Inr False, ap1) \<Rightarrow> (Inr (), ap1)
         | (Inr True, ap1) \<Rightarrow>
             (case extract_jar ''xandroid.jar'' xandroid (the (ap_impl ap1)) ap1 of
                (Inl e, ap2) \<Rightarrow> (Inl e, ap2)
              | (Inr False, ap2) \<Rightarrow> (Inr (), ap2)
              | (Inr True, ap2) \<Rightarrow> (Inr (), ap2\<lparr>ap_firstboot := False\<rparr>)))"

definition onBind :: "prefs \<Rightarrow> string \<Rightarrow> string set \<Rightarrow> conn option list \<Rightarrow> nat \<Rightarrow> app \<Rightarrow> app" where
  "onBind p dir outs conns now ap =
     (case ap_impl ap of None \<Rightarrow> ap\<lparr>ap_impl := Some (newServiceImpl p dir outs conns now)\<rparr> | Some s \<Rightarrow> ap)"

text \<open>\<open>XloaderReceiver.onReceive\<close>: the name of the socket in the path that the daemon broadcasts.\<close>

definition receiver_socket :: "string option \<Rightarrow> jexn + string" where
  "receiver_socket socketPath =
     (case socketPath of
        None \<Rightarrow> Inl NullPointerException
      | Some path \<Rightarrow> if length path < 12 then Inl IndexOutOfBoundsException else Inr (drop 12 path))"

section \<open>The library for clients\<close>

datatype retry = Retry "string option" "string option" "string option" int

record proxy =
  px_connected :: bool
  px_threads :: "retry list"

text \<open>
  Each request goes to the service when the proxy is connected, where it may fail with a \<open>RemoteException\<close>
  (\<open>dead\<close>); otherwise a thread tries again.
\<close>

definition proxy_addModule ::
    "packages \<Rightarrow> int \<Rightarrow> bool \<Rightarrow> string option \<Rightarrow> string option \<Rightarrow> string option \<Rightarrow> proxy \<times> service \<Rightarrow> (jexn + int) \<times> proxy \<times> service" where
  "proxy_addModule pm uid dead pkg proc path = (\<lambda>(p, s).
     if \<not> px_connected p then (Inr 2, p\<lparr>px_threads := px_threads p @ [Retry pkg proc path 1]\<rparr>, s)
     else if dead then (Inr (- 1), p, s)
     else case addModule pm uid pkg proc path s of (r, s1) \<Rightarrow> (r, p, s1))"

definition proxy_removeModule ::
    "packages \<Rightarrow> int \<Rightarrow> bool \<Rightarrow> string option \<Rightarrow> string option \<Rightarrow> proxy \<times> service \<Rightarrow> (jexn + int) \<times> proxy \<times> service" where
  "proxy_removeModule pm uid dead pkg proc = (\<lambda>(p, s).
     if \<not> px_connected p then (Inr 2, p\<lparr>px_threads := px_threads p @ [Retry pkg proc None (- 1)]\<rparr>, s)
     else if dead then (Inr (- 1), p, s)
     else case removeModule pm uid pkg proc s of (r, s1) \<Rightarrow> (r, p, s1))"

definition proxy_checkModuleExist ::
    "packages \<Rightarrow> int \<Rightarrow> bool \<Rightarrow> string option \<Rightarrow> string option \<Rightarrow> string option \<Rightarrow> proxy \<times> service \<Rightarrow> (jexn + int) \<times> proxy \<times> service" where
  "proxy_checkModuleExist pm uid dead pkg proc path = (\<lambda>(p, s).
     if \<not> px_connected p then (Inr 2, p\<lparr>px_threads := px_threads p @ [Retry pkg proc path 0]\<rparr>, s)
     else if dead then (Inr (- 1), p, s)
     else case removeModule pm uid pkg proc s of (r, s1) \<Rightarrow> (r, p, s1))"

abbreviation (input) MAX_RETRY_COUNT :: nat where "MAX_RETRY_COUNT \<equiv> 10"

definition retry_request :: "packages \<Rightarrow> int \<Rightarrow> retry \<Rightarrow> service \<Rightarrow> service" where
  "retry_request pm uid r s =
     (case r of Retry pkg proc path operid \<Rightarrow>
        if operid = 1 then snd (addModule pm uid pkg proc path s)
        else if operid = - 1 then snd (removeModule pm uid pkg proc s)
        else s)"

text \<open>The thread: whether the service is there after each wait, and whether the request fails.\<close>

fun retry_loop :: "nat \<Rightarrow> packages \<Rightarrow> int \<Rightarrow> retry \<Rightarrow> (bool \<times> bool) list \<Rightarrow> service \<Rightarrow> service" where
  "retry_loop 0 pm uid r tries s = s"
| "retry_loop (Suc n) pm uid r [] s = s"
| "retry_loop (Suc n) pm uid r ((there, dead) # tries) s =
     (if there \<and> \<not> dead then retry_request pm uid r s else retry_loop n pm uid r tries s)"

definition retry_run :: "packages \<Rightarrow> int \<Rightarrow> retry \<Rightarrow> (bool \<times> bool) list \<Rightarrow> service \<Rightarrow> service" where
  "retry_run = retry_loop MAX_RETRY_COUNT"

section \<open>Preferences hold the modules\<close>

lemma show_int_inj: "show_int i = show_int j \<Longrightarrow> 0 \<le> i \<Longrightarrow> 0 \<le> j \<Longrightarrow> i = j"
  by (metis read_digits_dec_nat show_int_def int_nat_eq leD)

definition module_at :: "prefs \<Rightarrow> int \<Rightarrow> ModuleInfo" where
  "module_at p index = \<lparr>mi_pkgName = pr_strings p (''pkgName'' @ show_int index),
     mi_processName = pr_strings p (''processName'' @ show_int index), mi_modulePath = pr_strings p (''modulePath'' @ show_int index)\<rparr>"

lemma put_modules_frame:
  "0 \<le> j \<Longrightarrow> j < i \<Longrightarrow> module_at (put_modules i ms p) j = module_at p j"
proof (induction i ms p rule: put_modules.induct)
  case (1 i p)
  show ?case by simp
next
  case (2 i m ms p)
  have "show_int j \<noteq> show_int i" using show_int_inj 2 by force
  with 2 show ?case by (simp add: module_at_def putString_def)
qed

lemma put_modules_ints: "pr_ints (put_modules i ms p) = pr_ints p"
  by (induction i ms p rule: put_modules.induct) (simp_all add: putString_def)

lemma put_modules_at:
  "0 \<le> i \<Longrightarrow> k < length ms \<Longrightarrow> module_at (put_modules i ms p) (i + int k) = ms ! k"
proof (induction ms arbitrary: i k p)
  case Nil
  then show ?case by simp
next
  case (Cons m ms)
  show ?case
  proof (cases k)
    case 0
    with Cons.prems put_modules_frame [of i "i + 1" ms] show ?thesis by (simp add: module_at_def putString_def)
  next
    case (Suc l)
    with Cons.IH [of "i + 1" l] Cons.prems show ?thesis by (simp add: add.assoc)
  qed
qed

lemma read_modules_map: "read_modules p = map (module_at p) [1..(case pr_ints p ''AppNums'' of None \<Rightarrow> - 1 | Some n \<Rightarrow> n)]"
  by (simp add: read_modules_def module_at_def Let_def)

lemma read_written_modules: "read_modules (put_modules 1 ms (putInt ''AppNums'' (int (length ms)) p)) = ms"
proof (rule nth_equalityI)
  let ?p = "put_modules 1 ms (putInt ''AppNums'' (int (length ms)) p)"
  have n: "pr_ints ?p ''AppNums'' = Some (int (length ms))" by (simp add: put_modules_ints putInt_def)
  then show len: "length (read_modules ?p) = length ms" by (simp add: read_modules_map)
  fix k assume "k < length (read_modules ?p)"
  with len n show "read_modules ?p ! k = ms ! k" by (simp add: read_modules_map put_modules_at nth_upto)
qed


section \<open>What the operations leave alone\<close>

text \<open>\<open>s'\<close> is \<open>s\<close> after commands for some of the modules \<open>M\<close>.\<close>

definition commanded :: "ModuleInfo set \<Rightarrow> service \<Rightarrow> service \<Rightarrow> bool" where
  "commanded M s s' \<longleftrightarrow> mModuleList s' = mModuleList s \<and> mPendingModuleList s' = mPendingModuleList s \<and>
     mCurAddModule s' = mCurAddModule s \<and> mCheckNums s' = mCheckNums s \<and> sv_now s' = sv_now s \<and> sv_queue s' = sv_queue s \<and>
     sv_prefs s' = sv_prefs s \<and> sv_cacheDir s' = sv_cacheDir s \<and> set (sv_sent s') \<subseteq> set (sv_sent s) \<union> M"

lemma commanded_same [simp]: "commanded M s s"
  by (simp add: commanded_def)

lemma commanded_trans: "commanded M s s' \<Longrightarrow> commanded N s' s'' \<Longrightarrow> M \<subseteq> K \<Longrightarrow> N \<subseteq> K \<Longrightarrow> commanded K s s''"
  by (auto simp: commanded_def)

lemma preloadDex_commanded: "preloadDex path s = (r, s') \<Longrightarrow> commanded M s s' \<and> mXtracer s' = mXtracer s \<and> sv_sent s' = sv_sent s"
  by (auto simp: preloadDex_def commanded_def split: option.splits)

lemma sendCmd_commanded:
  assumes "sendCmdToXlodaerProcess mi s = (r, s')" "mi \<in> M"
  shows "commanded M s s'"
proof -
  obtain q s1 where p: "preloadDex (mi_modulePath mi) s = (q, s1)" by force
  note f = preloadDex_commanded [OF p, of M]
  with assms p show ?thesis
    by (auto simp: sendCmdToXlodaerProcess_def commanded_def split: sum.splits option.splits)
qed

lemma check_pending_commanded:
  "check_pending am ms s = (r, rest, s') \<Longrightarrow> set ms \<subseteq> M \<Longrightarrow> commanded M s s' \<and> set rest \<subseteq> M"
proof (induction am ms s arbitrary: r rest s' rule: check_pending.induct)
  case (1 am s)
  then show ?case by simp
next
  case (2 am mi ms s)
  obtain q s1 where c: "sendCmdToXlodaerProcess mi s = (q, s1)" by force
  obtain q2 rest2 s2 where d: "check_pending am ms s = (q2, rest2, s2)" by (cases "check_pending am ms s")
  show ?case
  proof (cases "queryAllRunningAppInfo am (mi_processName mi)")
    case False
    with 2 d show ?thesis by auto
  next
    case True
    have m: "commanded M s s1" by (rule sendCmd_commanded [OF c]) (use "2.prems" in simp)
    show ?thesis
    proof (cases q)
      case (Inl e)
      with True m c "2.prems" show ?thesis by auto
    next
      case (Inr u)
      with True c "2.prems" "2.IH"(1) [OF True c [symmetric] Inr] have "commanded M s1 s' \<and> set rest \<subseteq> M" by auto
      with commanded_trans [OF m] show ?thesis by blast
    qed
  qed
qed

lemma check_modules_commanded: "check_modules am ms s = (r, s') \<Longrightarrow> set ms \<subseteq> M \<Longrightarrow> commanded M s s'"
proof (induction am ms s arbitrary: r s' rule: check_modules.induct)
  case (1 am s)
  then show ?case by simp
next
  case (2 am mi ms s)
  obtain q s1 where c: "sendCmdToXlodaerProcess mi s = (q, s1)" by force
  show ?case
  proof (cases "queryAllRunningAppInfo am (mi_processName mi)")
    case False
    with 2 show ?thesis by auto
  next
    case True
    have m: "commanded M s s1" by (rule sendCmd_commanded [OF c]) (use "2.prems" in simp)
    show ?thesis
    proof (cases q)
      case (Inl e)
      with True m c "2.prems" show ?thesis by auto
    next
      case (Inr u)
      with True c "2.prems" "2.IH"(1) [OF True c [symmetric] Inr] have "commanded M s1 s'" by auto
      with commanded_trans [OF m] show ?thesis by blast
    qed
  qed
qed


section \<open>Runs of the service\<close>

text \<open>
  Everything that can happen to an installed service, in any order: requests from any user, broadcasts, messages,
  and restarts of the process at any moment, after which only the preferences are left.  \<open>A\<close> collects the modules
  that users with the platform's signature have asked for.
\<close>

inductive reachable :: "string \<Rightarrow> ModuleInfo set \<Rightarrow> service \<Rightarrow> bool" for dir where
  installed: "reachable dir {} (newServiceImpl \<lparr>pr_ints = Map.empty, pr_strings = Map.empty\<rparr> dir cache conns now)"
| add: "reachable dir A s \<Longrightarrow> addModule pm uid pkg proc path s = (r, s') \<Longrightarrow>
    reachable dir (if verifyCallerPerm pm uid = Inr True
                   then insert \<lparr>mi_pkgName = pkg, mi_processName = proc, mi_modulePath = path\<rparr> A else A) s'"
| remove: "reachable dir A s \<Longrightarrow> removeModule pm uid pkg proc s = (r, s') \<Longrightarrow> reachable dir A s'"
| broadcast: "reachable dir A s \<Longrightarrow> onReceive action pkg proc s = (r, s') \<Longrightarrow> reachable dir A s'"
| message: "reachable dir A s \<Longrightarrow> deliver am s = (r, s') \<Longrightarrow> reachable dir A s'"
| restart: "reachable dir A s \<Longrightarrow> reachable dir A (newServiceImpl (sv_prefs s) dir cache conns now)"

definition module_key :: "ModuleInfo \<Rightarrow> string option \<times> string option" where
  "module_key m = (mi_pkgName m, mi_processName m)"

definition service_inv :: "string \<Rightarrow> ModuleInfo set \<Rightarrow> service \<Rightarrow> bool" where
  "service_inv dir A s \<longleftrightarrow>
     read_modules (sv_prefs s) = mModuleList s \<and> distinct (map module_key (mModuleList s)) \<and>
     set (mModuleList s) \<subseteq> A \<and> set (mPendingModuleList s) \<subseteq> A \<and> set_option (mCurAddModule s) \<subseteq> A \<and>
     sv_cacheDir s = dir \<and> set (sv_sent s) \<subseteq> insert (system_module s) A"

lemma system_module_dir: "sv_cacheDir s' = sv_cacheDir s \<Longrightarrow> system_module s' = system_module s"
  by (simp add: system_module_def)

lemma commanded_inv:
  "service_inv dir A s \<Longrightarrow> commanded M s s' \<Longrightarrow> M \<subseteq> insert (system_module s) A \<Longrightarrow> service_inv dir A s'"
  using system_module_dir [of s' s] by (auto simp: service_inv_def commanded_def)

lemma service_inv_mono: "service_inv dir A s \<Longrightarrow> A \<subseteq> B \<Longrightarrow> service_inv dir B s"
  by (auto simp: service_inv_def)

lemma send_inv [simp]: "service_inv dir A (sendEmptyMessageDelayed w d s) = service_inv dir A s"
  by (simp add: service_inv_def sendEmptyMessageDelayed_def system_module_def)

lemma find_module_found:
  "find_module pkg proc ms = Inr (Some m) \<Longrightarrow> m \<in> set ms \<and> module_key m = (pkg, proc)"
  by (induction ms) (auto simp: java_equals_def module_key_def split: option.splits sum.splits bool.splits if_splits)

lemma find_module_none: "find_module pkg proc ms = Inr None \<Longrightarrow> (pkg, proc) \<notin> module_key ` set ms"
  by (induction ms) (auto simp: java_equals_def module_key_def split: option.splits sum.splits bool.splits if_splits)

lemma write_inv:
  assumes "distinct (map module_key (mModuleList s))" "set (mModuleList s) \<subseteq> A" "set (mPendingModuleList s) \<subseteq> A"
    "set_option (mCurAddModule s) \<subseteq> A" "sv_cacheDir s = dir" "set (sv_sent s) \<subseteq> insert (system_module s) A"
  shows "service_inv dir A (writeSharedPreferences s)"
  using assms by (simp add: service_inv_def writeSharedPreferences_def read_written_modules system_module_def)

lemma newServiceImpl_inv:
  assumes "distinct (map module_key (read_modules p))" "set (read_modules p) \<subseteq> A"
  shows "service_inv dir A (newServiceImpl p dir cache conns now)"
  using assms by (simp add: service_inv_def newServiceImpl_def sendEmptyMessageDelayed_def readSharedPreferences_def)

lemma addModule_inv:
  assumes "service_inv dir A s" "addModule pm uid pkg proc path s = (r, s')"
  shows "service_inv dir (if verifyCallerPerm pm uid = Inr True
    then insert \<lparr>mi_pkgName = pkg, mi_processName = proc, mi_modulePath = path\<rparr> A else A) s'"
proof (cases "verifyCallerPerm pm uid = Inr True \<and> (\<exists>found. find_module pkg proc (mModuleList s) = Inr found)")
  case False
  with assms show ?thesis
    by (auto simp: addModule_def service_inv_def system_module_def split: sum.splits bool.splits)
next
  case True
  then obtain found where ok: "verifyCallerPerm pm uid = Inr True" "find_module pkg proc (mModuleList s) = Inr found" by blast
  let ?mi = "\<lparr>mi_pkgName = pkg, mi_processName = proc, mi_modulePath = path\<rparr>"
  let ?add = "s\<lparr>mModuleList := mModuleList s @ [?mi], mCurAddModule := Some ?mi\<rparr>"
  let ?s = "if found = None then writeSharedPreferences (sendEmptyMessageDelayed CHECK_PROCESS_HAD_STARTED_BEFORE_ADDMODULE 1000 ?add) else s"
  obtain q s2 where pre: "preloadDex path ?s = (q, s2)" by (cases "preloadDex path ?s")
  have "addModule pm uid pkg proc path s = (case preloadDex path ?s of (Inl e, s2) \<Rightarrow> (Inl e, s2) | (Inr _, s2) \<Rightarrow> (Inr 0, s2))"
    by (simp only: addModule_def ok sum.case bool.case Let_def)
  then have "s2 = s'" using assms(2) unfolding pre by (cases q) simp_all
  with pre have "preloadDex path ?s = (q, s')" by simp
  moreover have "service_inv dir (insert ?mi A) ?s"
  proof (cases found)
    case None
    with ok find_module_none have "(pkg, proc) \<notin> module_key ` set (mModuleList s)" by blast
    then have "distinct (map module_key (mModuleList s @ [?mi]))"
      using assms(1) by (auto simp: service_inv_def module_key_def)
    then have "service_inv dir (insert ?mi A) (writeSharedPreferences (sendEmptyMessageDelayed CHECK_PROCESS_HAD_STARTED_BEFORE_ADDMODULE 1000 ?add))"
      using assms(1) by (intro write_inv) (auto simp: service_inv_def sendEmptyMessageDelayed_def system_module_def)
    with None show ?thesis by simp
  next
    case (Some a)
    with service_inv_mono [OF assms(1), of "insert ?mi A"] show ?thesis by auto
  qed
  ultimately show ?thesis using ok preloadDex_commanded commanded_inv [of _ _ _ "{}"] by fastforce
qed


lemma removeModule_inv:
  assumes "service_inv dir A s" "removeModule pm uid pkg proc s = (r, s')"
  shows "service_inv dir A s'"
proof (cases "\<exists>m. verifyCallerPerm pm uid = Inr True \<and> find_module pkg proc (mModuleList s) = Inr (Some m)")
  case False
  with assms show ?thesis by (auto simp: removeModule_def split: sum.splits bool.splits option.splits)
next
  case True
  then obtain m where "s' = writeSharedPreferences (s\<lparr>mModuleList := remove1 m (mModuleList s)\<rparr>)"
    using assms(2) by (auto simp: removeModule_def)
  moreover have "distinct (map module_key (remove1 m (mModuleList s)))"
    using assms(1) by (auto simp: service_inv_def distinct_map notin_set_remove1 intro: inj_on_subset dest: set_remove1_subset [THEN subsetD])
  then have "service_inv dir A (writeSharedPreferences (s\<lparr>mModuleList := remove1 m (mModuleList s)\<rparr>))"
    using assms(1) set_remove1_subset [of m "mModuleList s"]
    by (intro write_inv) (auto simp: service_inv_def system_module_def)
  ultimately show ?thesis by simp
qed

lemma handleMessage_inv:
  assumes "service_inv dir A s" "handleMessage am w s = (r, s')"
  shows "service_inv dir A s'"
proof (cases w)
  case CHECK_PROCESS_WHETHER_EXIST
  obtain q rest s1 where c: "check_pending am (mPendingModuleList s) s = (q, rest, s1)" by (cases "check_pending am (mPendingModuleList s) s")
  with check_pending_commanded [OF c, of A] assms(1) have m: "commanded A s s1" "set rest \<subseteq> A" by (auto simp: service_inv_def)
  have "service_inv dir A s1" by (rule commanded_inv [OF assms(1) m(1)]) blast
  then have "service_inv dir A (s1\<lparr>mPendingModuleList := rest\<rparr>)" "service_inv dir A (s1\<lparr>mPendingModuleList := rest, mCheckNums := n\<rparr>)" for n
    using m(2) by (auto simp: service_inv_def system_module_def)
  with assms(2) c CHECK_PROCESS_WHETHER_EXIST show ?thesis by (cases q) (auto simp: Let_def split: if_splits)
next
  case XLOADER_SYSTEM_SERVER_STARTPROCESS
  obtain q s1 where c: "sendCmdToXlodaerProcess (system_module s) s = (q, s1)" by force
  have "service_inv dir A s1"
    by (rule commanded_inv [OF assms(1) sendCmd_commanded [OF c, of "{system_module s}"]]) auto
  with assms(2) c XLOADER_SYSTEM_SERVER_STARTPROCESS show ?thesis by (cases q) auto
next
  case CHECK_PROCESS_HAD_STARTED_BEFORE_ADDMODULE
  show ?thesis
  proof (cases "mCurAddModule s")
    case None
    with assms CHECK_PROCESS_HAD_STARTED_BEFORE_ADDMODULE show ?thesis by auto
  next
    case (Some mi)
    then have "mi \<in> A" using assms(1) by (simp add: service_inv_def)
    with Some assms CHECK_PROCESS_HAD_STARTED_BEFORE_ADDMODULE sendCmd_commanded [of mi s r s' A] commanded_inv [OF assms(1), of A s']
    show ?thesis by (auto split: if_splits)
  qed
next
  case CHECK_HAD_STARTED_BEFORE_XLOADERSERVICE
  with assms check_modules_commanded [of am "mModuleList s" s r s' A] commanded_inv [OF assms(1), of A s'] show ?thesis
    by (auto simp: service_inv_def)
qed

lemma reachable_inv: "reachable dir A s \<Longrightarrow> service_inv dir A s"
proof (induction rule: reachable.induct)
  case (installed cache conns now)
  show ?case by (rule newServiceImpl_inv) (simp_all add: read_modules_def)
next
  case (broadcast A s action pkg proc r s')
  then show ?case
    by (auto simp: onReceive_def service_inv_def system_module_def sendEmptyMessageDelayed_def
        dest!: find_module_found split: sum.splits bool.splits option.splits)
next
  case (message A s am r s')
  show ?case
  proof (cases "sv_queue s")
    case (Cons tw q)
    obtain t w where tw: "tw = (t, w)" by force
    have "service_inv dir A (s\<lparr>sv_now := max t (sv_now s), sv_queue := q\<rparr>)"
      using message.IH by (auto simp: service_inv_def system_module_def)
    with message.hyps(2) Cons tw handleMessage_inv show ?thesis by (auto simp: deliver_def)
  qed (use message in \<open>auto simp: deliver_def\<close>)
next
  case (restart A s cache conns now)
  then show ?case by (intro newServiceImpl_inv) (simp_all add: service_inv_def)
qed (use addModule_inv removeModule_inv in blast)+

lemma addModule_new:
  assumes "verifyCallerPerm pm uid = Inr True" "find_module pkg proc (mModuleList s) = Inr None" "p \<noteq> []"
  obtains s' where "addModule pm uid pkg proc (Some p) s = (Inr 0, s')"
    "mModuleList s' = mModuleList s @ [\<lparr>mi_pkgName = pkg, mi_processName = proc, mi_modulePath = Some p\<rparr>]"
    "mCurAddModule s' = Some \<lparr>mi_pkgName = pkg, mi_processName = proc, mi_modulePath = Some p\<rparr>"
    "sv_queue s' = enqueue (sv_now s + 1000) CHECK_PROCESS_HAD_STARTED_BEFORE_ADDMODULE (sv_queue s)"
    "sv_now s' = sv_now s" "sv_sent s' = sv_sent s" "mXtracer s' = mXtracer s"
  using assms by (cases p)
    (simp_all add: addModule_def preloadDex_def getDexPath_def writeSharedPreferences_def sendEmptyMessageDelayed_def Let_def)

section \<open>An example\<close>

definition demo_module :: ModuleInfo where
  "demo_module = \<lparr>mi_pkgName = Some ''com.app'', mi_processName = Some ''com.app:ui'', mi_modulePath = Some ''/data/m.apk''\<rparr>"

definition demo_service :: service where
  "demo_service = (newServiceImpl (put_modules 1 [demo_module] \<lparr>pr_ints = [''AppNums'' \<mapsto> 1], pr_strings = Map.empty\<rparr>)
     ''/cache'' {} [] 0)\<lparr>sv_queue := []\<rparr>"

lemma demo_service_simps [simp]:
  "mModuleList demo_service = [demo_module]" "sv_queue demo_service = []" "mPendingModuleList demo_service = []"
  "in_sync (mXtracer demo_service)" "sv_sent demo_service = []" "sv_now demo_service = 0"
proof -
  show "mModuleList demo_service = [demo_module]"
    using read_written_modules [of "[demo_module]" "\<lparr>pr_ints = Map.empty, pr_strings = Map.empty\<rparr>"]
    by (simp add: demo_service_def newServiceImpl_def readSharedPreferences_def sendEmptyMessageDelayed_def putInt_def)
qed (simp_all add: demo_service_def newServiceImpl_def readSharedPreferences_def sendEmptyMessageDelayed_def in_sync_def)

definition demo_packages :: packages where
  "demo_packages = \<lparr>packagesForUid = (\<lambda>uid. if uid = 1000 then Some [''com.android.settings''] else Some [''com.other'']),
     checkSignatures = (\<lambda>p q. if p = ''com.other'' then - 3 else 0)\<rparr>"

lemma demo_authorised [simp]: "verifyCallerPerm demo_packages 1000 = Inr True" "verifyCallerPerm demo_packages 10001 = Inr False"
  by (simp_all add: verifyCallerPerm_def demo_packages_def)

text \<open>A new installation, and the same after a request for the module.\<close>

definition demo_installed :: service where
  "demo_installed = newServiceImpl \<lparr>pr_ints = Map.empty, pr_strings = Map.empty\<rparr> ''/cache'' {} [] 0"

definition demo_added :: service where
  "demo_added = snd (addModule demo_packages 1000 (mi_pkgName demo_module) (mi_processName demo_module) (mi_modulePath demo_module) demo_installed)"

lemma demo_installed_simps [simp]:
  "mModuleList demo_installed = []" "sv_sent demo_installed = []"
  by (simp_all add: demo_installed_def newServiceImpl_def readSharedPreferences_def sendEmptyMessageDelayed_def read_modules_def)

lemma demo_added_reachable: "reachable ''/cache'' {demo_module} demo_added"
proof -
  have "reachable ''/cache'' {} demo_installed" unfolding demo_installed_def by (rule reachable.installed)
  from reachable.add [OF this, of demo_packages 1000 "mi_pkgName demo_module" "mi_processName demo_module" "mi_modulePath demo_module"]
  show ?thesis by (simp add: demo_added_def prod_eq_iff demo_module_def)
qed

lemma demo_added_simps [simp]: "mModuleList demo_added = [demo_module]" "sv_sent demo_added = []"
proof -
  obtain s' where "addModule demo_packages 1000 (mi_pkgName demo_module) (mi_processName demo_module) (Some ''/data/m.apk'') demo_installed = (Inr 0, s')"
      "mModuleList s' = [demo_module]" "sv_sent s' = []"
    by (rule addModule_new [of demo_packages 1000 "mi_pkgName demo_module" "mi_processName demo_module" demo_installed "''/data/m.apk''"])
      (simp_all add: demo_module_def)
  then show "mModuleList demo_added = [demo_module]" "sv_sent demo_added = []" by (simp_all add: demo_added_def demo_module_def)
qed

section \<open>Properties of all runs\<close>

text \<open>
  C12 The list of modules survives.  In every state that any sequence of requests, broadcasts, messages and
  restarts leads to, the preferences hold exactly the modules of the list, in order, so that a service that starts
  from them has the same list; and no two modules are registered for the same package and process.
\<close>

theorem modules_survive_restart:
  assumes "reachable dir A s"
  shows "mModuleList (newServiceImpl (sv_prefs s) dir cache conns now) = mModuleList s \<and>
    distinct (map (\<lambda>m. (mi_pkgName m, mi_processName m)) (mModuleList s))"
  using reachable_inv [OF assms]
  by (simp add: service_inv_def module_key_def [abs_def] newServiceImpl_def readSharedPreferences_def sendEmptyMessageDelayed_def)

theorem modules_survive_restart_witness:
  "mModuleList (newServiceImpl (sv_prefs demo_added) ''/cache'' {} [] 9) = [demo_module]"
  using modules_survive_restart [OF demo_added_reachable, of "{}" "[]" 9] by simp

text \<open>
  C11 Nothing is injected that nobody with the platform's signature asked for: every command that the service has
  given to the daemon is for its own module of the system server or for a module that a user who passed the check
  of the signature has added, with exactly the package, process and path of that request.
\<close>

theorem only_authorised_modules_loaded:
  assumes "reachable dir A s"
  shows "set (sv_sent s) \<subseteq> insert (system_module s) A"
  using reachable_inv [OF assms] by (simp add: service_inv_def)


theorem only_authorised_modules_loaded_witness:
  "set (sv_sent (snd (deliver \<lparr>runningServices = None, runningAppProcesses = Some [''com.app:ui'']\<rparr> demo_added))) \<subseteq>
     insert (system_module (snd (deliver \<lparr>runningServices = None, runningAppProcesses = Some [''com.app:ui'']\<rparr> demo_added))) {demo_module}"
  by (rule only_authorised_modules_loaded [OF reachable.message [OF demo_added_reachable]]) (rule prod.collapse [symmetric])

section \<open>Waiting for a process\<close>

text \<open>The services that count: started or with a known client, and not in a persistent process.\<close>

definition counts :: "RunningServiceInfo \<Rightarrow> bool" where
  "counts si \<longleftrightarrow> (si_started si \<or> si_clientLabel si \<noteq> 0) \<and> si_flags si AND FLAG_PERSISTENT_PROCESS = 0"

lemma services_loop_iff:
  "services_loop name ss i r \<longleftrightarrow> r \<or> (\<exists>si \<in> set (drop i ss). counts si \<and> name = si_process si)"
proof (induction name ss i r rule: services_loop.induct)
  case (1 name ss i r)
  show ?case
  proof (cases "length ss \<le> i")
    case True
    then show ?thesis by (simp add: services_loop.simps [of name ss i r])
  next
    case False
    then have d: "drop i ss = ss ! i # drop (Suc i) ss" by (simp add: Cons_nth_drop_Suc)
    show ?thesis
    proof (cases "counts (ss ! i)")
      case True
      with 1 False d show ?thesis by (auto simp: services_loop.simps [of name ss i r] counts_def Let_def)
    next
      case nc: False
      have "drop i (take i ss @ drop (i + 1) ss) = drop (Suc i) ss" using False by simp
      moreover have "services_loop name ss i r = services_loop name (take i ss @ drop (i + 1) ss) i r"
        using False nc by (auto simp: services_loop.simps [of name ss i r] counts_def Let_def)
      moreover have "services_loop name (take i ss @ drop (i + 1) ss) i r \<longleftrightarrow>
          r \<or> (\<exists>si \<in> set (drop i (take i ss @ drop (i + 1) ss)). counts si \<and> name = si_process si)"
        using "1.IH"(1,2) [OF False refl] nc by (auto simp: counts_def)
      ultimately show ?thesis using d nc by simp
    qed
  qed
qed

lemma processes_loop_iff: "processes_loop name ps r \<longleftrightarrow> r \<or> name \<in> set ps"
  by (induction ps arbitrary: r) auto

lemma query_iff:
  "queryAllRunningAppInfo am (Some name) \<longleftrightarrow>
     (\<exists>ps. runningAppProcesses am = Some ps \<and> name \<in> set ps) \<or>
     (\<exists>ss. runningServices am = Some ss \<and> (\<exists>si \<in> set ss. counts si \<and> name = si_process si))"
  by (cases "runningAppProcesses am"; cases "runningServices am")
    (auto simp: queryAllRunningAppInfo_def processes_loop_iff services_loop_iff)

lemma sendCmd_sends:
  assumes "in_sync (mXtracer s)" "mi_modulePath mi = Some path" "path \<noteq> []"
  obtains s' where "sendCmdToXlodaerProcess mi s = (Inr (), s')" "sv_sent s' = sv_sent s @ [mi]" "in_sync (mXtracer s')"
    "commanded {mi} s s'"
proof -
  obtain q s1 where p: "preloadDex (mi_modulePath mi) s = (q, s1)" by force
  with assms(2,3) have q: "q = Inr ()" by (cases path) (auto simp: preloadDex_def getDexPath_def)
  note f = preloadDex_commanded [OF p, of "{}"]
  then obtain ret x where "xload_call (mi_pkgName mi) (mi_processName mi) (mi_modulePath mi) (mXtracer s1) = Some (ret, x)" "in_sync x"
    using xload_call_returns assms(1) by metis
  with p q f show ?thesis
    by (intro that [of "s1\<lparr>mXtracer := x, sv_sent := sv_sent s1 @ [mi]\<rparr>"])
      (auto simp: sendCmdToXlodaerProcess_def commanded_def)
qed

fun deliver_all :: "activities list \<Rightarrow> service \<Rightarrow> (jexn + unit) \<times> service" where
  "deliver_all [] s = (Inr (), s)"
| "deliver_all (am # ams) s =
     (case deliver am s of (Inl e, s1) \<Rightarrow> (Inl e, s1) | (Inr _, s1) \<Rightarrow> deliver_all ams s1)"

lemma deliver_all_idle: "sv_queue s = [] \<Longrightarrow> deliver_all ams s = (Inr (), s)"
  by (induction ams) (simp_all add: deliver_def)

lemma polling:
  assumes "mPendingModuleList s = [m]" "sv_queue s = [(t, CHECK_PROCESS_WHETHER_EXIST)]" "mCheckNums s + length ams = 6"
    and "in_sync (mXtracer s)" "mi_modulePath m = Some path" "path \<noteq> []" "ams \<noteq> []"
  shows "\<exists>s'. deliver_all ams s = (Inr (), s') \<and> sv_queue s' = [] \<and>
    sv_now s' \<le> max t (sv_now s) + 1000 * (length ams - 1) \<and>
    (if \<exists>am \<in> set ams. queryAllRunningAppInfo am (mi_processName m)
     then sv_sent s' = sv_sent s @ [m] \<and> mPendingModuleList s' = []
     else sv_sent s' = sv_sent s \<and> mPendingModuleList s' = [m])"
  using assms
proof (induction ams arbitrary: s t)
  case Nil
  then show ?case by simp
next
  case (Cons am ams)
  let ?s = "s\<lparr>sv_now := max t (sv_now s), sv_queue := []\<rparr>"
  have dl: "deliver am s = handleMessage am CHECK_PROCESS_WHETHER_EXIST ?s" using Cons.prems(2) by (simp add: deliver_def)
  show ?case
  proof (cases "queryAllRunningAppInfo am (mi_processName m)")
    case True
    obtain s1 where s1: "sendCmdToXlodaerProcess m ?s = (Inr (), s1)" "sv_sent s1 = sv_sent ?s @ [m]" "commanded {m} ?s s1"
      using sendCmd_sends [of ?s m path] Cons.prems(4-6) by auto
    then have d: "deliver am s = (Inr (), s1\<lparr>mPendingModuleList := []\<rparr>)"
      using True Cons.prems(1) dl by simp
    have "deliver_all (am # ams) s = (Inr (), s1\<lparr>mPendingModuleList := []\<rparr>)"
      using d s1(3) by (simp add: deliver_all_idle commanded_def)
    with True s1 show ?thesis by (auto simp: commanded_def)
  next
    case False
    show ?thesis
    proof (cases "ams = []")
      case True
      then have "deliver am s = (Inr (), ?s)"
        using False Cons.prems(1,3) dl by simp
      with True False Cons.prems(1) show ?thesis by auto
    next
      case ne: False
      let ?s2 = "sendEmptyMessageDelayed CHECK_PROCESS_WHETHER_EXIST 1000
          (?s\<lparr>mPendingModuleList := [m], mCheckNums := mCheckNums s + 1\<rparr>)"
      have "mCheckNums s < 5" using Cons.prems(3) ne by (cases ams) auto
      then have d: "deliver am s = (Inr (), ?s2)" using False Cons.prems(1) dl by simp
      have q: "sv_queue ?s2 = [(max t (sv_now s) + 1000, CHECK_PROCESS_WHETHER_EXIST)]" by (simp add: sendEmptyMessageDelayed_def)
      have "\<exists>s'. deliver_all ams ?s2 = (Inr (), s') \<and> sv_queue s' = [] \<and>
          sv_now s' \<le> max (max t (sv_now s) + 1000) (sv_now ?s2) + 1000 * (length ams - 1) \<and>
          (if \<exists>am \<in> set ams. queryAllRunningAppInfo am (mi_processName m)
           then sv_sent s' = sv_sent ?s2 @ [m] \<and> mPendingModuleList s' = []
           else sv_sent s' = sv_sent ?s2 \<and> mPendingModuleList s' = [m])"
        by (rule Cons.IH [OF _ q _ _ Cons.prems(5,6) ne])
          (use Cons.prems(1,3,4) in \<open>simp_all add: sendEmptyMessageDelayed_def\<close>)
      moreover have "1000 * (length ams - 1) + 1000 = 1000 * length ams" using ne by (cases ams) auto
      ultimately show ?thesis using d False by (auto simp: sendEmptyMessageDelayed_def split: if_splits)
    qed
  qed
qed


text \<open>
  C13 A started process is noticed.  When the activity manager announces the start of a process for which a module
  is registered, and the handler has nothing else to do, the service looks for the process up to six times within
  5.1 seconds and then stops.  If the process runs at one of these moments, the module is handed to the daemon
  exactly once; otherwise nothing is sent and the module is left among the pending ones.
\<close>

theorem started_process_gets_module:
  assumes "find_module pkg proc (mModuleList s) = Inr (Some m)" "mi_modulePath m = Some path" "path \<noteq> []"
    and "sv_queue s = []" "mPendingModuleList s = []" "in_sync (mXtracer s)" "length ams = 6"
  shows "\<exists>s1 s'. onReceive (Some ACTION_AMS_START_PROCESS) pkg proc s = (Inr (), s1) \<and> deliver_all ams s1 = (Inr (), s') \<and>
    sv_queue s' = [] \<and> sv_now s' \<le> sv_now s + 5100 \<and>
    (if \<exists>am \<in> set ams. queryAllRunningAppInfo am (mi_processName m)
     then sv_sent s' = sv_sent s @ [m] \<and> mPendingModuleList s' = []
     else sv_sent s' = sv_sent s \<and> mPendingModuleList s' = [m])"
proof -
  let ?s1 = "sendEmptyMessageDelayed CHECK_PROCESS_WHETHER_EXIST 100 (s\<lparr>mPendingModuleList := [m], mCheckNums := 0\<rparr>)"
  have r: "onReceive (Some ACTION_AMS_START_PROCESS) pkg proc s = (Inr (), ?s1)"
    using assms(1,5) by (simp add: onReceive_def java_equals_def)
  have "mPendingModuleList ?s1 = [m]" "sv_queue ?s1 = [(sv_now s + 100, CHECK_PROCESS_WHETHER_EXIST)]"
      "mCheckNums ?s1 + length ams = 6" "in_sync (mXtracer ?s1)" "ams \<noteq> []"
    using assms(4,6,7) by (auto simp: sendEmptyMessageDelayed_def)
  note p = polling [OF this(1-4) assms(2,3) this(5)]
  have "sv_sent ?s1 = sv_sent s" "sv_now ?s1 = sv_now s" by (simp_all add: sendEmptyMessageDelayed_def)
  with p assms(7) obtain s' where "deliver_all ams ?s1 = (Inr (), s')" "sv_queue s' = []" "sv_now s' \<le> sv_now s + 5100"
      "if \<exists>am \<in> set ams. queryAllRunningAppInfo am (mi_processName m)
       then sv_sent s' = sv_sent s @ [m] \<and> mPendingModuleList s' = []
       else sv_sent s' = sv_sent s \<and> mPendingModuleList s' = [m]"
    by auto
  with r show ?thesis by blast
qed

theorem started_process_gets_module_witness:
  "\<exists>s1 s'. onReceive (Some ACTION_AMS_START_PROCESS) (Some ''com.app'') (Some ''com.app:ui'') demo_service = (Inr (), s1) \<and>
    deliver_all (replicate 5 \<lparr>runningServices = None, runningAppProcesses = Some []\<rparr> @
      [\<lparr>runningServices = None, runningAppProcesses = Some [''zygote'', ''com.app:ui'']\<rparr>]) s1 = (Inr (), s') \<and>
    sv_queue s' = [] \<and> sv_now s' \<le> 5100 \<and> sv_sent s' = [demo_module]"
proof -
  let ?ams = "replicate 5 \<lparr>runningServices = None, runningAppProcesses = Some []\<rparr> @
      [\<lparr>runningServices = None, runningAppProcesses = Some [''zygote'', ''com.app:ui'']\<rparr>]"
  have f: "find_module (Some ''com.app'') (Some ''com.app:ui'') (mModuleList demo_service) = Inr (Some demo_module)"
    by (simp add: java_equals_def demo_module_def)
  have "\<exists>am \<in> set ?ams. queryAllRunningAppInfo am (mi_processName demo_module)"
    by (simp add: demo_module_def query_iff)
  then show ?thesis
    using started_process_gets_module [OF f, of "''/data/m.apk''" ?ams] by (auto simp: demo_module_def)
qed


section \<open>Requests that go wrong\<close>

text \<open>A request for a module that is there leaves the list as it is, also when it gives another path.\<close>

lemma addModule_existing:
  assumes "find_module pkg proc (mModuleList s) = Inr (Some m)"
  shows "mModuleList (snd (addModule pm uid pkg proc path s)) = mModuleList s"
proof -
  obtain q s1 where p: "preloadDex path s = (q, s1)" by force
  with preloadDex_commanded [OF p, of "{}"] assms show ?thesis
    by (auto simp: addModule_def commanded_def split: sum.splits bool.splits)
qed

text \<open>The receiver gets the name of the daemon's private socket.\<close>

lemma receiver_gets_socket_name:
  "receiver_socket (Some (fst (snd (socket_create_temp pid fd True True)))) =
     (if fd < 0 then Inl IndexOutOfBoundsException else Inr (''.socket'' @ show_int pid))"
  by (simp add: receiver_socket_def socket_create_temp_def Let_def)

text \<open>A copy that an exception cut short counts as done when the streams can be closed.\<close>

lemma truncated_copy_counts_as_done:
  assumes "as_open a" "as_create a" "as_close a"
  shows "fst (extraceToLocal a)"
  using assms by (simp add: extraceToLocal_def)

lemma deliver_addModule_check:
  assumes "sv_queue s = (t, CHECK_PROCESS_HAD_STARTED_BEFORE_ADDMODULE) # q" "mCurAddModule s = Some m"
    and "mi_modulePath m = Some p" "p \<noteq> []" "in_sync (mXtracer s)" "queryAllRunningAppInfo am (mi_processName m)"
  obtains s' where "deliver am s = (Inr (), s')" "sv_sent s' = sv_sent s @ [m]" "sv_queue s' = q" "mCurAddModule s' = Some m"
    "in_sync (mXtracer s')"
proof -
  let ?s = "s\<lparr>sv_now := max t (sv_now s), sv_queue := q\<rparr>"
  obtain s' where "sendCmdToXlodaerProcess m ?s = (Inr (), s')" "sv_sent s' = sv_sent ?s @ [m]" "in_sync (mXtracer s')" "commanded {m} ?s s'"
    using sendCmd_sends [of ?s m p] assms(3-5) by auto
  with assms(1,2,6) show ?thesis by (intro that [of s']) (auto simp: deliver_def commanded_def)
qed

text \<open>
  C14 A module can miss a process that is already running.  After a request the service waits a second and looks
  whether the process of the \<^emph>\<open>last\<close> added module runs.  Of two requests within this second, the first is
  forgotten: when the two messages arrive, the second module is handed to the daemon twice and the first never,
  although its process runs.
\<close>

theorem quick_second_request_hides_first:
  assumes "verifyCallerPerm pm uid = Inr True" "find_module p1 q1 (mModuleList s) = Inr None" "m1 \<noteq> []"
    and "find_module p2 q2 (mModuleList s @ [\<lparr>mi_pkgName = p1, mi_processName = q1, mi_modulePath = Some m1\<rparr>]) = Inr None" "m2 \<noteq> []"
    and "sv_queue s = []" "in_sync (mXtracer s)" "queryAllRunningAppInfo am q1" "queryAllRunningAppInfo am q2"
  shows "\<exists>s1 s2 s'. addModule pm uid p1 q1 (Some m1) s = (Inr 0, s1) \<and> addModule pm uid p2 q2 (Some m2) s1 = (Inr 0, s2) \<and>
    deliver_all [am, am] s2 = (Inr (), s') \<and> sv_queue s' = [] \<and>
    sv_sent s' = sv_sent s @ replicate 2 \<lparr>mi_pkgName = p2, mi_processName = q2, mi_modulePath = Some m2\<rparr>"
proof -
  let ?a = "\<lparr>mi_pkgName = p1, mi_processName = q1, mi_modulePath = Some m1\<rparr>"
    and ?b = "\<lparr>mi_pkgName = p2, mi_processName = q2, mi_modulePath = Some m2\<rparr>"
    and ?w = "CHECK_PROCESS_HAD_STARTED_BEFORE_ADDMODULE"
  obtain s1 where s1: "addModule pm uid p1 q1 (Some m1) s = (Inr 0, s1)" "mModuleList s1 = mModuleList s @ [?a]"
      "sv_queue s1 = [(sv_now s + 1000, ?w)]" "sv_now s1 = sv_now s" "sv_sent s1 = sv_sent s" "mXtracer s1 = mXtracer s"
    by (rule addModule_new [OF assms(1-3)]) (use assms(6) in simp)
  obtain s2 where s2: "addModule pm uid p2 q2 (Some m2) s1 = (Inr 0, s2)" "mCurAddModule s2 = Some ?b"
      "sv_queue s2 = [(sv_now s + 1000, ?w), (sv_now s + 1000, ?w)]" "sv_sent s2 = sv_sent s" "in_sync (mXtracer s2)"
    by (rule addModule_new [OF assms(1) _ assms(5), of p2 q2 s1]) (use assms(4,7) s1(2-6) in simp_all)
  obtain s3 where s3: "deliver am s2 = (Inr (), s3)" "sv_sent s3 = sv_sent s2 @ [?b]" "sv_queue s3 = [(sv_now s + 1000, ?w)]"
      "mCurAddModule s3 = Some ?b" "in_sync (mXtracer s3)"
    by (rule deliver_addModule_check [OF s2(3,2) _ assms(5) s2(5), of am]) (use assms(9) in auto)
  obtain s4 where "deliver am s3 = (Inr (), s4)" "sv_sent s4 = sv_sent s3 @ [?b]" "sv_queue s4 = []"
    by (rule deliver_addModule_check [OF s3(3,4) _ assms(5) s3(5), of am]) (use assms(9) in auto)
  with s3(1,2) s2(4) have "deliver_all [am, am] s2 = (Inr (), s4)" "sv_queue s4 = []" "sv_sent s4 = sv_sent s @ replicate 2 ?b"
    by (simp_all add: numeral_2_eq_2)
  with s1(1) s2(1) show ?thesis by blast
qed

theorem quick_second_request_hides_first_witness:
  "\<exists>s1 s2 s'. addModule demo_packages 1000 (Some ''a'') (Some ''a'') (Some ''/a'') demo_service = (Inr 0, s1) \<and>
    addModule demo_packages 1000 (Some ''b'') (Some ''b'') (Some ''/b'') s1 = (Inr 0, s2) \<and>
    deliver_all (replicate 2 \<lparr>runningServices = None, runningAppProcesses = Some [''a'', ''b'']\<rparr>) s2 = (Inr (), s') \<and>
    sv_sent s' = replicate 2 \<lparr>mi_pkgName = Some ''b'', mi_processName = Some ''b'', mi_modulePath = Some ''/b''\<rparr>"
  using quick_second_request_hides_first [of demo_packages 1000 "Some ''a''" "Some ''a''" demo_service "''/a''" "Some ''b''" "Some ''b''" "''/b''"
      "\<lparr>runningServices = None, runningAppProcesses = Some [''a'', ''b'']\<rparr>"]
  by (auto simp: java_equals_def demo_module_def query_iff numeral_2_eq_2 simp del: deliver_all.simps)

text \<open>
  C15 The library for clients answers the question whether a module exists by removing it: when the proxy is
  connected, \<open>checkModuleExist\<close> for a registered module, which the service itself would answer with 1, returns 0,
  and the module is no longer registered.
\<close>

theorem proxy_check_removes_module:
  assumes "reachable dir A s" "verifyCallerPerm pm uid = Inr True" "px_connected p"
    and "find_module pkg proc (mModuleList s) = Inr (Some m)" "mi_modulePath m = Some path"
  shows "checkModuleExist pkg proc (Some path) s = Inr 1 \<and>
    (\<exists>s'. proxy_checkModuleExist pm uid False pkg proc (Some path) (p, s) = (Inr 0, p, s') \<and> m \<notin> set (mModuleList s'))"
proof -
  have "exists_module pkg proc (Some path) ms = Inr True" if "find_module pkg proc ms = Inr (Some m)" for ms
    using that assms(5)
    by (induction ms) (auto simp: java_equals_def split: option.splits sum.splits bool.splits if_splits)
  moreover have "m \<notin> set (remove1 m (mModuleList s))"
    using reachable_inv [OF assms(1)] by (auto simp: service_inv_def distinct_map)
  ultimately show ?thesis
    using assms by (auto simp: checkModuleExist_def proxy_checkModuleExist_def removeModule_def writeSharedPreferences_def)
qed

theorem proxy_check_removes_module_witness:
  "checkModuleExist (Some ''com.app'') (Some ''com.app:ui'') (Some ''/data/m.apk'') demo_added = Inr 1 \<and>
    (\<exists>s'. proxy_checkModuleExist demo_packages 1000 False (Some ''com.app'') (Some ''com.app:ui'') (Some ''/data/m.apk'')
       (\<lparr>px_connected = True, px_threads = []\<rparr>, demo_added) = (Inr 0, \<lparr>px_connected = True, px_threads = []\<rparr>, s') \<and>
     demo_module \<notin> set (mModuleList s'))"
  by (rule proxy_check_removes_module [OF demo_added_reachable]) (simp_all add: java_equals_def demo_module_def)

end
