(* ===== verification/Jni.thy ===== *)
theory Jni
  imports Prelude "HOL-Library.State_Monad"
begin

text \<open>
  The Java Native Interface as the native code of the repository uses it.  The virtual machine is not code of
  the repository: a call returns the next entry of a script, a reference (0 is NULL) and whether the call left
  an exception pending; a script that has run out returns a non-null reference and no exception.  The calls
  made are recorded.  A pending exception stays pending until it is cleared.
\<close>

type_synonym jref = nat

abbreviation (input) NULL :: jref where "NULL \<equiv> 0"

datatype jcall =
    FindClass string
  | GetMethodID jref string string
  | GetStaticMethodID jref string string
  | GetStaticFieldID jref string string
  | GetStaticIntField jref jref
  | NewObject jref jref "jref list"
  | NewByteArray nat
  | SetByteArrayRegion jref string
  | NewStringUTF string
  | CallObjectMethod jref jref "jref list"
  | CallStaticObjectMethod jref jref "jref list"
  | CallStaticVoidMethod jref jref "jref list"
  | CallStaticBooleanMethod jref jref "jref list"
  | NewGlobalRef jref
  | RegisterNatives jref "string list"
  | ExceptionDescribe
  | ExceptionClear

record jni =
  j_pending :: bool
  j_script :: "(jref \<times> bool) list"
  j_log :: "jcall list"

definition jni_call :: "jcall \<Rightarrow> (jni, jref) state" where
  "jni_call c = State (\<lambda>j.
     case j_script j of
       [] \<Rightarrow> (1, j\<lparr>j_log := j_log j @ [c]\<rparr>)
     | (r, throws) # rest \<Rightarrow>
         (r, j\<lparr>j_pending := j_pending j \<or> throws, j_script := rest, j_log := j_log j @ [c]\<rparr>))"

definition jni_pending :: "(jni, bool) state" where
  "jni_pending = State (\<lambda>j. (j_pending j, j))"

definition jni_clear :: "(jni, unit) state" where
  "jni_clear = State (\<lambda>j. ((), j\<lparr>j_pending := False, j_log := j_log j @ [ExceptionDescribe, ExceptionClear]\<rparr>))"

lemma run_state_bind [simp]:
  "run_state (State_Monad.bind m f) s = (case run_state m s of (x, s') \<Rightarrow> run_state (f x) s')"
  by (simp add: State_Monad.bind_def)

lemma run_jni_pending [simp]: "run_state jni_pending j = (j_pending j, j)"
  by (simp add: jni_pending_def)

lemma run_jni_clear [simp]:
  "run_state jni_clear j = ((), j\<lparr>j_pending := False, j_log := j_log j @ [ExceptionDescribe, ExceptionClear]\<rparr>)"
  by (simp add: jni_clear_def)

lemma run_jni_call_Nil:
  "j_script j = [] \<Longrightarrow> run_state (jni_call c) j = (1, j\<lparr>j_log := j_log j @ [c]\<rparr>)"
  by (simp add: jni_call_def)

lemma run_jni_call_Cons:
  "j_script j = (r, throws) # rest \<Longrightarrow>
    run_state (jni_call c) j =
      (r, j\<lparr>j_pending := j_pending j \<or> throws, j_script := rest, j_log := j_log j @ [c]\<rparr>)"
  by (simp add: jni_call_def)

text \<open>A pending exception survives a call.\<close>

lemma jni_call_keeps_pending: "j_pending j \<Longrightarrow> j_pending (snd (run_state (jni_call c) j))"
  by (auto simp: jni_call_def split: list.splits)

section \<open>Code that leaves no exception pending\<close>

definition settles :: "(jni, 'a) state \<Rightarrow> bool" where
  "settles m \<longleftrightarrow> (\<forall>j. \<not> j_pending (snd (run_state m j)))"

lemma settles_bind: "(\<And>x. settles (f x)) \<Longrightarrow> settles (State_Monad.bind m f)"
  by (auto simp: settles_def split: prod.splits)

lemma settles_if: "settles m \<Longrightarrow> settles n \<Longrightarrow> settles (if b then m else n)"
  by simp

lemma settles_let: "(\<And>x. settles (f x)) \<Longrightarrow> settles (let x = e in f x)"
  by simp

section \<open>Code that keeps a pending exception\<close>

definition keeps :: "(jni, 'a) state \<Rightarrow> bool" where
  "keeps m \<longleftrightarrow> (\<forall>j. j_pending j \<longrightarrow> j_pending (snd (run_state m j)))"

lemma keeps_bind: "keeps m \<Longrightarrow> (\<And>x. keeps (f x)) \<Longrightarrow> keeps (State_Monad.bind m f)"
  unfolding keeps_def run_state_bind by (metis prod.case_eq_if)

lemma keeps_call: "keeps (jni_call c)"
  by (simp add: keeps_def jni_call_keeps_pending)

lemma keeps_return: "keeps (State_Monad.return x)"
  by (simp add: keeps_def)

end
