(* ===== verification/Client.thy ===== *)
theory Client
  imports Xloader Jni
begin

text \<open>
  The injected client, \<open>src/xloaderFramework/libclient/client.c\<close>: the entry the loader calls in the target
  process.  It reads the parameter block, loads a native module with \<open>dlopen\<close> or a Java module through the
  bridge, and remembers that it has run.

  The record \<open>client\<close> is the process it runs in: the files \<open>stat\<close> finds, the SDK property, which
  libraries and symbols the dynamic linker finds, and the virtual machine of theory \<open>Jni\<close>.  A result
  \<open>None\<close> is an access outside of a char array.
\<close>

abbreviation (input) ERROR_CLIENT_ENTRY_LOADER :: int where "ERROR_CLIENT_ENTRY_LOADER \<equiv> 13"
abbreviation (input) ERROR_CLIENT_BRIDEG_NOT_FOUND :: int where "ERROR_CLIENT_BRIDEG_NOT_FOUND \<equiv> 14"
abbreviation (input) ERROR_CLIENT_MODULE_NOT_FOUND :: int where "ERROR_CLIENT_MODULE_NOT_FOUND \<equiv> 15"
abbreviation (input) ERROR_CLIENT_ENV_NOT_FOUND :: int where "ERROR_CLIENT_ENV_NOT_FOUND \<equiv> 16"
abbreviation (input) ERROR_CLIENT_LOAD_ERROR :: int where "ERROR_CLIENT_LOAD_ERROR \<equiv> 17"
abbreviation (input) ERROR_CLIENT_BRIDGE_ERROR :: int where "ERROR_CLIENT_BRIDGE_ERROR \<equiv> 18"
abbreviation (input) ERROR_CLIENT_BRIDGE_FAILED :: int where "ERROR_CLIENT_BRIDGE_FAILED \<equiv> 19"

section \<open>The process\<close>

datatype dlcall =
    Dlopen string
  | Dlsym string
  | Dlcall string
  | Dlclose string

record client =
  g_already_Xloader :: bool
  cl_stat :: "string \<Rightarrow> bool"
  cl_sdk :: string
  cl_library :: "string \<Rightarrow> bool"
  cl_symbol :: "string \<Rightarrow> bool"
  cl_jnienv :: bool
  cl_dl :: "dlcall list"
  cl_jni :: jni

definition dl_log :: "dlcall list \<Rightarrow> client \<Rightarrow> client" where
  "dl_log calls c = c\<lparr>cl_dl := cl_dl c @ calls\<rparr>"

section \<open>Native modules\<close>

definition load_native :: "string \<Rightarrow> client \<Rightarrow> int \<times> client" where
  "load_native module_path c =
     (if \<not> cl_library c module_path then (ERROR_CLIENT_MODULE_NOT_FOUND, dl_log [Dlopen module_path] c)
      else if \<not> cl_symbol c ''module_entry''
      then (ERROR_CLIENT_LOAD_ERROR, dl_log [Dlopen module_path, Dlsym ''module_entry'', Dlclose module_path] c)
      else (SUCCESS,
            dl_log [Dlopen module_path, Dlsym ''module_entry'', Dlcall ''module_entry'', Dlclose module_path] c))"

definition runtime_path :: string where
  "runtime_path = ''/system/lib/libandroid_runtime.so''"

definition getJNIEnv_symbol :: string where
  "getJNIEnv_symbol = ''_ZN7android14AndroidRuntime9getJNIEnvEv''"

definition getEnv :: "client \<Rightarrow> bool \<times> client" where
  "getEnv c =
     (if \<not> cl_library c runtime_path then (False, dl_log [Dlopen runtime_path] c)
      else if \<not> cl_symbol c getJNIEnv_symbol
      then (False, dl_log [Dlopen runtime_path, Dlsym getJNIEnv_symbol, Dlclose runtime_path] c)
      else (cl_jnienv c,
            dl_log [Dlopen runtime_path, Dlsym getJNIEnv_symbol, Dlcall getJNIEnv_symbol, Dlclose runtime_path] c))"

section \<open>Java modules\<close>

definition stoJstring :: "string \<Rightarrow> (jni, jref) state" where
  "stoJstring pat = do {
     strClass \<leftarrow> jni_call (FindClass ''java/lang/String'');
     ctorID \<leftarrow> jni_call (GetMethodID strClass ''<init>'' ''([BLjava/lang/String;)V'');
     bytes \<leftarrow> jni_call (NewByteArray (length pat));
     _ \<leftarrow> jni_call (SetByteArrayRegion bytes pat);
     encoding \<leftarrow> jni_call (NewStringUTF ''utf-8'');
     jni_call (NewObject strClass ctorID [bytes, encoding]) }"

definition ClearException :: "(jni, bool) state" where
  "ClearException = do {
     exception \<leftarrow> jni_pending;
     if exception then do { jni_clear; State_Monad.return True } else State_Monad.return False }"

text \<open>The class loader for the bridge: \<open>Inl\<close> is an error code.\<close>

definition make_loader ::
  "string \<Rightarrow> string option \<Rightarrow> jref \<Rightarrow> (jref \<Rightarrow> jref \<Rightarrow> (jni, int) state) \<Rightarrow> (jni, int) state" where
  "make_loader bridge_path bridge_dex_path joAppLoader k =
     (case bridge_dex_path of
        None \<Rightarrow> do {
          jstrJarPath \<leftarrow> stoJstring bridge_path;
          jcClientLoader \<leftarrow> jni_call (FindClass ''dalvik/system/PathClassLoader'');
          ex \<leftarrow> ClearException;
          if ex then State_Monad.return (- ERROR_CLIENT_LOAD_ERROR)
          else do {
            init \<leftarrow> jni_call (GetMethodID jcClientLoader ''<init>'' ''(Ljava/lang/String;Ljava/lang/ClassLoader;)V'');
            joClientLoader \<leftarrow> jni_call (NewObject jcClientLoader init [jstrJarPath, joAppLoader]);
            ex \<leftarrow> ClearException;
            if ex \<or> joClientLoader = NULL then State_Monad.return (- ERROR_CLIENT_LOAD_ERROR)
            else k jcClientLoader joClientLoader } }
      | Some dex \<Rightarrow> do {
          jstrJarPath \<leftarrow> stoJstring bridge_path;
          jstrJarDexPath \<leftarrow> stoJstring dex;
          jcClientLoader \<leftarrow> jni_call (FindClass ''dalvik/system/DexClassLoader'');
          ex \<leftarrow> ClearException;
          if ex then State_Monad.return (- ERROR_CLIENT_LOAD_ERROR)
          else do {
            init \<leftarrow> jni_call (GetMethodID jcClientLoader ''<init>''
                      ''(Ljava/lang/String;Ljava/lang/String;Ljava/lang/String;Ljava/lang/ClassLoader;)V'');
            joClientLoader \<leftarrow> jni_call (NewObject jcClientLoader init [jstrJarPath, jstrJarDexPath, NULL, joAppLoader]);
            ex \<leftarrow> ClearException;
            if ex \<or> joClientLoader = NULL then State_Monad.return (- ERROR_CLIENT_LOAD_ERROR)
            else k jcClientLoader joClientLoader } })"

definition load_from_bridge :: "string \<Rightarrow> jref \<Rightarrow> jref \<Rightarrow> (jni, int) state" where
  "load_from_bridge module_path jcClientLoader joClientLoader = do {
     m1 \<leftarrow> jni_call (GetMethodID jcClientLoader ''findClass'' ''(Ljava/lang/String;)Ljava/lang/Class;'');
     jmDexLoader_findClass \<leftarrow>
       (if m1 = NULL
        then jni_call (GetMethodID jcClientLoader ''loadClass'' ''(Ljava/lang/String;)Ljava/lang/Class;'')
        else State_Monad.return m1);
     jstrBridge \<leftarrow> stoJstring ''de.robv.android.xposed.XposedBridge'';
     jcBridge \<leftarrow> jni_call (CallObjectMethod joClientLoader jmDexLoader_findClass [jstrBridge]);
     ex \<leftarrow> ClearException;
     if ex \<or> jcBridge = NULL then State_Monad.return (- ERROR_CLIENT_BRIDGE_ERROR)
     else do {
       jstrModulePath \<leftarrow> stoJstring module_path;
       loadModule \<leftarrow> jni_call (GetStaticMethodID jcBridge ''loadModuleFromJar''
                       ''(Ljava/lang/String;Ljava/lang/ClassLoader;)V'');
       _ \<leftarrow> jni_call (CallStaticVoidMethod jcBridge loadModule [jstrModulePath, joClientLoader]);
       ex \<leftarrow> ClearException;
       if ex then State_Monad.return (- ERROR_CLIENT_BRIDGE_FAILED) else State_Monad.return SUCCESS } }"

definition load_java :: "string \<Rightarrow> string option \<Rightarrow> string \<Rightarrow> (jni, int) state" where
  "load_java bridge_path bridge_dex_path module_path = do {
     jcActivityThread \<leftarrow> jni_call (FindClass ''android/app/ActivityThread'');
     ex \<leftarrow> ClearException;
     if ex then State_Monad.return (- ERROR_CLIENT_LOAD_ERROR)
     else do {
       currentApp \<leftarrow> jni_call (GetStaticMethodID jcActivityThread ''currentApplication'' ''()Landroid/app/Application;'');
       joApplication \<leftarrow> jni_call (CallStaticObjectMethod jcActivityThread currentApp []);
       jcApplication \<leftarrow> jni_call (FindClass ''android/app/Application'');
       ex \<leftarrow> ClearException;
       if ex then State_Monad.return (- ERROR_CLIENT_LOAD_ERROR)
       else do {
         getClassLoader \<leftarrow> jni_call (GetMethodID jcApplication ''getClassLoader'' ''()Ljava/lang/ClassLoader;'');
         joAppLoader \<leftarrow> jni_call (CallObjectMethod joApplication getClassLoader []);
         make_loader bridge_path bridge_dex_path joAppLoader (load_from_bridge module_path) } } }"

section \<open>The dex cache\<close>

definition DALVIK_CACHE_PREFIX_OLD :: string where "DALVIK_CACHE_PREFIX_OLD = ''/data/dalvik-cache/''"
definition DALVIK_CACHE_PREFIX_ARM :: string where "DALVIK_CACHE_PREFIX_ARM = ''/data/dalvik-cache/arm''"
definition DALVIK_CACHE_POSTFIX :: string where "DALVIK_CACHE_POSTFIX = ''/classes.dex''"

definition cache_prefix :: "string \<Rightarrow> string" where
  "cache_prefix sdk = (if starts_with ''2'' sdk then DALVIK_CACHE_PREFIX_OLD else DALVIK_CACHE_PREFIX_ARM)"

definition dex_path :: "string \<Rightarrow> string \<Rightarrow> string" where
  "dex_path prefix apk_path =
     prefix @ map (\<lambda>c. if c = CHR ''/'' then CHR ''@'' else c) (apk_path @ DALVIK_CACHE_POSTFIX)"

definition isDexOutputCache :: "client \<Rightarrow> string \<Rightarrow> bool option" where
  "isDexOutputCache c apk_path =
     (if starts_with ''/system/framework/'' apk_path then Some True
      else let prefix = cache_prefix (cl_sdk c);
               apk_path1 = (case apk_path of [] \<Rightarrow> [] | ch # rest \<Rightarrow> if ch = CHR ''/'' then rest else apk_path);
               path = dex_path prefix apk_path1
           in if STR_LEN_LIMIT \<le> length path then None else Some (cl_stat c path))"

section \<open>The entry\<close>

definition bridge_dex_path :: "string \<Rightarrow> string option" where
  "bridge_dex_path package_name =
     (let path = (if package_name = ''android'' then ''/data/dalvik-cache/'' else ''/data/data/'' @ package_name)
      in if STR_LEN_LIMIT \<le> length path then None else Some path)"

definition run_java :: "string \<Rightarrow> string option \<Rightarrow> string \<Rightarrow> client \<Rightarrow> int \<times> client" where
  "run_java bridge_path dex module_path c =
     (case run_state (load_java bridge_path dex module_path) (cl_jni c) of
        (ret, j) \<Rightarrow> (ret, c\<lparr>cl_jni := j, g_already_Xloader := True\<rparr>))"

text \<open>
  The fields of the parameter block are arrays, never NULL; they are read as C strings from the whole block,
  so that a field without a terminator runs on into the next one.
\<close>

definition client_do_xload :: "string \<Rightarrow> client \<Rightarrow> (int \<times> client) option" where
  "client_do_xload para c = do {
     package_name \<leftarrow> cstr_at para 0;
     bridge_path \<leftarrow> cstr_at para STR_LEN_LIMIT;
     module_path \<leftarrow> cstr_at para (2 * STR_LEN_LIMIT);
     if \<not> cl_stat c module_path then Some (- ERROR_CLIENT_MODULE_NOT_FOUND, c)
     else if strstr module_path ''.so'' \<noteq> None then Some (load_native module_path c)
     else if \<not> cl_stat c bridge_path then Some (- ERROR_CLIENT_BRIDEG_NOT_FOUND, c)
     else let (env, c1) = getEnv c
          in if \<not> env then Some (- ERROR_CLIENT_ENV_NOT_FOUND, c1)
             else do {
               cached \<leftarrow> isDexOutputCache c1 bridge_path;
               if cached then Some (run_java bridge_path None module_path c1)
               else do {
                 dex \<leftarrow> bridge_dex_path package_name;
                 Some (run_java bridge_path (Some dex) module_path c1) } } }"

definition client_entry :: "string \<Rightarrow> client \<Rightarrow> (int \<times> client) option" where
  "client_entry para c =
     (if g_already_Xloader c then Some (ERROR_CLIENT_ENTRY_LOADER, c) else client_do_xload para c)"

section \<open>Exceptions\<close>

lemma run_ClearException [simp]:
  "run_state ClearException j =
    (j_pending j, if j_pending j then j\<lparr>j_pending := False, j_log := j_log j @ [ExceptionDescribe, ExceptionClear]\<rparr> else j)"
  by (simp add: ClearException_def)

text \<open>The pattern of \<open>load_java\<close>: clear, then give up or go on.\<close>

lemma settles_ClearException:
  "settles m \<Longrightarrow>
    settles (State_Monad.bind ClearException (\<lambda>ex. if ex \<or> b then State_Monad.return r else m))"
  by (auto simp: settles_def)

lemma settles_ClearException':
  "settles m \<Longrightarrow> settles (State_Monad.bind ClearException (\<lambda>ex. if ex then State_Monad.return r else m))"
  by (auto simp: settles_def)

lemma settles_ClearException_end:
  "settles (State_Monad.bind ClearException (\<lambda>ex. if ex then State_Monad.return r else State_Monad.return r'))"
  by (auto simp: settles_def)

lemma settles_load_from_bridge: "settles (load_from_bridge m lc lo)"
  unfolding load_from_bridge_def
  by (intro settles_ClearException settles_ClearException_end settles_bind)

lemma settles_make_loader:
  assumes "\<And>x y. settles (k x y)"
  shows "settles (make_loader b d l k)"
proof (cases d)
  case None
  then show ?thesis
    by (simp only: make_loader_def option.case)
      (intro settles_ClearException settles_ClearException' settles_bind assms)
next
  case (Some dex)
  then show ?thesis
    by (simp only: make_loader_def option.case)
      (intro settles_ClearException settles_ClearException' settles_bind assms)
qed

lemma settles_load_java: "settles (load_java b d m)"
  unfolding load_java_def
  by (intro settles_ClearException' settles_bind settles_make_loader settles_load_from_bridge)

lemma keeps_stoJstring: "keeps (stoJstring pat)"
  unfolding stoJstring_def by (intro keeps_bind keeps_call)

lemma load_native_jni: "load_native m c = (ret, c') \<Longrightarrow> cl_jni c' = cl_jni c"
  by (auto simp: load_native_def dl_log_def split: if_splits)

lemma getEnv_jni: "getEnv c = (env, c') \<Longrightarrow> cl_jni c' = cl_jni c"
  by (auto simp: getEnv_def dl_log_def split: if_splits)

lemma run_java_flag: "run_java b d m c = (ret, c') \<Longrightarrow> g_already_Xloader c'"
  by (auto simp: run_java_def split: prod.splits)

section \<open>Properties\<close>

text \<open>
  However the virtual machine answers, \<open>load_java\<close> returns with no exception pending in the thread of the
  application it was injected into.
\<close>

theorem load_java_leaves_no_exception:
  "\<not> j_pending (snd (run_state (load_java bridge_path dex module_path) j))"
  using settles_load_java by (simp add: settles_def)

text \<open>
  C25 The client does what the loader was asked for.  Given the parameter block the loader builds, and names that
  fit, the entry works on exactly that module: it refuses a second load and missing files, runs a native module's
  entry, or loads a Java module through the bridge with a \<open>PathClassLoader\<close>.  The bridge is in
  \<open>/system/framework\<close>, so a \<open>DexClassLoader\<close> is never used.
\<close>

theorem client_entry_serves_loader:
  assumes "is_cstr package_name" "is_cstr module_path" "length package_name < 256" "length module_path < 256"
  shows "client_entry (map char_of_byte (info_bytes (make_info package_name module_path))) c = Some
    (if g_already_Xloader c then (ERROR_CLIENT_ENTRY_LOADER, c)
     else if \<not> cl_stat c module_path then (- ERROR_CLIENT_MODULE_NOT_FOUND, c)
     else if strstr module_path ''.so'' \<noteq> None then load_native module_path c
     else if \<not> cl_stat c BRIDGE_PATH_CURRENT then (- ERROR_CLIENT_BRIDEG_NOT_FOUND, c)
     else if \<not> fst (getEnv c) then (- ERROR_CLIENT_ENV_NOT_FOUND, snd (getEnv c))
     else run_java BRIDGE_PATH_CURRENT None module_path (snd (getEnv c)))"
proof -
  let ?para = "map char_of_byte (info_bytes (make_info package_name module_path))"
  have "cstr_at ?para 0 = Some package_name" "cstr_at ?para 256 = Some BRIDGE_PATH_CURRENT"
      "cstr_at ?para 512 = Some module_path"
    using info_fields [OF assms(1,2)] assms(3,4) by (simp_all add: Let_def)
  moreover have "isDexOutputCache c1 BRIDGE_PATH_CURRENT = Some True" for c1
    by (simp add: isDexOutputCache_def BRIDGE_PATH_CURRENT_def)
  ultimately show ?thesis
    by (simp add: client_entry_def client_do_xload_def split: prod.splits)
qed

definition demo_client :: client where
  "demo_client = \<lparr>g_already_Xloader = False, cl_stat = (\<lambda>_. True), cl_sdk = ''19'', cl_library = (\<lambda>_. True),
     cl_symbol = (\<lambda>_. True), cl_jnienv = True, cl_dl = [], cl_jni = \<lparr>j_pending = False, j_script = [], j_log = []\<rparr>\<rparr>"

theorem client_entry_serves_loader_witness:
  "\<exists>c. client_entry (map char_of_byte (info_bytes (make_info ''com.app'' ''/data/m.so''))) demo_client = Some (0, c) \<and>
    cl_dl c = [Dlopen ''/data/m.so'', Dlsym ''module_entry'', Dlcall ''module_entry'', Dlclose ''/data/m.so'']"
  using client_entry_serves_loader [of "''com.app''" "''/data/m.so''" demo_client]
  by (simp add: demo_client_def load_native_def dl_log_def)

text \<open>
  Once the client has touched the virtual machine, whatever came of it, every later call of the entry is
  refused with \<open>ERROR_CLIENT_ENTRY_LOADER\<close> and changes nothing.
\<close>

theorem client_loads_java_once:
  assumes "client_entry para c = Some (ret, c')" "cl_jni c' \<noteq> cl_jni c"
  shows "client_entry para' c' = Some (ERROR_CLIENT_ENTRY_LOADER, c')"
proof -
  have "g_already_Xloader c'"
    using assms
    by (auto simp: client_entry_def client_do_xload_def Let_def bind_eq_Some_conv
        split: if_splits prod.splits dest: load_native_jni getEnv_jni run_java_flag)
  then show ?thesis by (simp add: client_entry_def)
qed

theorem client_loads_java_once_witness:
  "let c = demo_client\<lparr>cl_jni := \<lparr>j_pending = False, j_script = [(NULL, True)], j_log = []\<rparr>\<rparr>;
       para = map char_of_byte (info_bytes (make_info ''com.app'' ''/data/m.apk''))
   in \<exists>c'. client_entry para c = Some (- 17, c') \<and> client_entry para c' = Some (13, c')"
proof -
  let ?c = "demo_client\<lparr>cl_jni := \<lparr>j_pending = False, j_script = [(NULL, True)], j_log = []\<rparr>\<rparr>"
  let ?para = "map char_of_byte (info_bytes (make_info ''com.app'' ''/data/m.apk''))"
  have "cstr_at ?para 0 = Some ''com.app''" "cstr_at ?para 256 = Some BRIDGE_PATH_CURRENT"
      "cstr_at ?para 512 = Some ''/data/m.apk''"
    using info_fields [of "''com.app''" "''/data/m.apk''"] by (simp_all add: Let_def)
  moreover have "isDexOutputCache c1 BRIDGE_PATH_CURRENT = Some True" for c1
    by (simp add: isDexOutputCache_def BRIDGE_PATH_CURRENT_def)
  ultimately obtain c' where c': "client_entry ?para ?c = Some (- 17, c')" "cl_jni c' \<noteq> cl_jni ?c"
    by (simp add: client_entry_def client_do_xload_def demo_client_def getEnv_def dl_log_def run_java_def
        load_java_def run_jni_call_Cons)
  with client_loads_java_once [OF c', of ?para] show ?thesis by (auto simp: Let_def)
qed

text \<open>
  The fallback to \<open>loadClass\<close> cannot succeed.  When the class loader has no \<open>findClass\<close>, the
  \<open>NoSuchMethodError\<close> of that lookup is still pending after \<open>loadClass\<close> has found the bridge, and
  \<open>load_java\<close> reports \<open>ERROR_CLIENT_BRIDGE_ERROR\<close>.
\<close>

theorem loadClass_fallback_fails:
  assumes "j_script j = (NULL, True) # rest"
  shows "fst (run_state (load_from_bridge module_path jcClientLoader joClientLoader) j) = - ERROR_CLIENT_BRIDGE_ERROR"
proof -
  let ?sig = "''(Ljava/lang/String;)Ljava/lang/Class;''"
  let ?m = "\<lambda>mid. do { s \<leftarrow> stoJstring ''de.robv.android.xposed.XposedBridge''; jni_call (CallObjectMethod joClientLoader mid [s]) }"
  obtain j1 where j1: "run_state (jni_call (GetMethodID jcClientLoader ''findClass'' ?sig)) j = (NULL, j1)" "j_pending j1"
    using assms by (simp add: run_jni_call_Cons)
  obtain mid j2 where j2: "run_state (jni_call (GetMethodID jcClientLoader ''loadClass'' ?sig)) j1 = (mid, j2)"
    by force
  then have "j_pending j2" using j1(2) jni_call_keeps_pending by (metis snd_conv)
  obtain s j3 where j3: "run_state (stoJstring ''de.robv.android.xposed.XposedBridge'') j2 = (s, j3)" by force
  then have "j_pending j3" using \<open>j_pending j2\<close> keeps_stoJstring unfolding keeps_def by (metis snd_conv)
  obtain cls j4 where j4: "run_state (jni_call (CallObjectMethod joClientLoader mid [s])) j3 = (cls, j4)" by force
  then have "j_pending j4" using \<open>j_pending j3\<close> jni_call_keeps_pending by (metis snd_conv)
  then show ?thesis by (simp add: load_from_bridge_def j1 j2 j3 j4)
qed

theorem loadClass_fallback_fails_witness:
  "fst (run_state (load_from_bridge ''/data/m.apk'' 7 8) \<lparr>j_pending = False, j_script = [(NULL, True)], j_log = []\<rparr>) = - 18"
  by (rule loadClass_fallback_fails [of _ "[]"]) simp

end
