(* ===== verification/Safemode.thy ===== *)
theory Safemode
  imports Prelude "HOL-Library.Signed_Division"
begin

text \<open>
  The safemode trigger, \<open>src/Xposed-master/xposed_safemode.cpp\<close> (the copy
  \<open>src/libbridge/bridge_safemode.cpp\<close> differs in its namespace only): the user escapes from a boot loop by
  pressing one hardware key five times.

  What the kernel reports is an argument: the input devices with the bit masks of their keys, the outcome of
  each \<open>epoll_wait\<close> with the events read, and the clock.  One round of a waiting loop is the time its
  condition reads and the outcome of its poll.  The result is \<open>None\<close> while the rounds given end before the loop
  does.  The opening and closing of descriptors and the vibrations are recorded.
\<close>

section \<open>Keys and events\<close>

abbreviation (input) KEY_HOME :: int where "KEY_HOME \<equiv> 102"
abbreviation (input) KEY_VOLUMEDOWN :: int where "KEY_VOLUMEDOWN \<equiv> 114"
abbreviation (input) KEY_VOLUMEUP :: int where "KEY_VOLUMEUP \<equiv> 115"
abbreviation (input) KEY_POWER :: int where "KEY_POWER \<equiv> 116"
abbreviation (input) KEY_MENU :: int where "KEY_MENU \<equiv> 139"
abbreviation (input) KEY_BACK :: int where "KEY_BACK \<equiv> 158"
abbreviation (input) KEY_CAMERA :: int where "KEY_CAMERA \<equiv> 212"
abbreviation (input) EV_KEY :: int where "EV_KEY \<equiv> 1"

abbreviation (input) INITIAL_DELAY :: int where "INITIAL_DELAY \<equiv> 2"
abbreviation (input) DETECTION_TIMEOUT :: int where "DETECTION_TIMEOUT \<equiv> 5"
abbreviation (input) DETECTION_PRESSES :: nat where "DETECTION_PRESSES \<equiv> 5"
abbreviation (input) MAX_DEVICES :: nat where "MAX_DEVICES \<equiv> 4"

definition physical_keycodes :: "int list" where
  "physical_keycodes =
     [KEY_VOLUMEDOWN, KEY_VOLUMEUP, KEY_POWER, KEY_HOME, KEY_BACK, KEY_MENU, KEY_CAMERA]"

definition test_bit :: "int \<Rightarrow> byte list \<Rightarrow> bool" where
  "test_bit b array = (array ! (nat b div 8) AND push_bit (nat b mod 8) 1 \<noteq> 0)"

record input_event =
  evt_type :: int
  evt_code :: int
  evt_value :: int

section \<open>Vibration\<close>

datatype vibrator_io = Usleep int | Write string

definition vibrate :: "bool \<Rightarrow> nat \<Rightarrow> int \<Rightarrow> int \<Rightarrow> vibrator_io list" where
  "vibrate opened count duration_ms interval_ms =
     (if \<not> opened then []
      else concat (map (\<lambda>i. (if i \<noteq> 0 then [Usleep ((duration_ms + interval_ms) * 1000)] else []) @
                          [Write (show_int duration_ms @ [NL])]) [0..<count]))"

text \<open>A call of \<open>vibrate\<close> as the detection records it.\<close>

datatype vibration = Vibrate nat int int

section \<open>Input devices\<close>

text \<open>
  A directory entry of \<open>/dev/input\<close>: its name, the descriptor \<open>open\<close> gives (negative when it fails), the
  bit mask of the keys it reports and of those held down.
\<close>

record device =
  d_name :: string
  d_fd :: int
  d_keys :: "byte list"
  d_down :: "byte list"

definition reports_keys :: "byte list \<Rightarrow> bool" where
  "reports_keys keyBitmask \<longleftrightarrow> list_ex (\<lambda>k. test_bit k keyBitmask) physical_keycodes"

fun pressed_on :: "byte list \<Rightarrow> int list \<Rightarrow> int \<Rightarrow> int" where
  "pressed_on keyBitmask [] pressedKey = pressedKey"
| "pressed_on keyBitmask (k # ks) pressedKey =
     (if test_bit k keyBitmask
      then if pressedKey = 0 then pressed_on keyBitmask ks k else - 1
      else pressed_on keyBitmask ks pressedKey)"

datatype fd_op = Opened int | Closed int

text \<open>The loop over the directory: the descriptors kept, the pressed key, and what was opened and closed.\<close>

fun open_devices :: "device list \<Rightarrow> nat \<Rightarrow> int list \<Rightarrow> int \<Rightarrow> int list \<times> int \<times> fd_op list" where
  "open_devices [] max_fds fds pressedKey = (fds, pressedKey, [])"
| "open_devices (d # ds) max_fds fds pressedKey =
     (if length fds < max_fds
      then if d_name d = ''.'' \<or> d_name d = ''..'' then open_devices ds max_fds fds pressedKey
           else if d_fd d < 0 then open_devices ds max_fds fds pressedKey
           else if \<not> reports_keys (d_keys d)
           then case open_devices ds max_fds fds pressedKey of
                  (fds1, key, ops) \<Rightarrow> (fds1, key, Opened (d_fd d) # Closed (d_fd d) # ops)
           else case open_devices ds max_fds (fds @ [d_fd d]) (pressed_on (d_down d) physical_keycodes pressedKey) of
                  (fds1, key, ops) \<Rightarrow> (fds1, key, Opened (d_fd d) # ops)
      else (fds, pressedKey, []))"

definition openKeyDevices :: "device list option \<Rightarrow> nat \<Rightarrow> int list \<times> int \<times> fd_op list" where
  "openKeyDevices dir max_fds =
     (case dir of None \<Rightarrow> ([], 0, []) | Some ds \<Rightarrow> open_devices ds max_fds [] 0)"

section \<open>Time\<close>

record timespec =
  tv_sec :: int
  tv_nsec :: int

definition getRemainingTime :: "timespec \<Rightarrow> timespec \<Rightarrow> int" where
  "getRemainingTime expiration now =
     (if tv_sec now > tv_sec expiration then 0
      else (tv_sec expiration - tv_sec now) * 1000 + (tv_nsec expiration - tv_nsec now) sdiv 1000000)"

section \<open>The waiting loops\<close>

text \<open>
  The outcome of \<open>epoll_wait\<close>: \<open>None\<close> when it fails, otherwise what \<open>read\<close> gives for each ready device,
  \<open>None\<close> for a read of the wrong size.
\<close>

record round =
  now :: timespec
  poll :: "input_event option list option"

text \<open>The code of a relevant key press, as both loops filter it.\<close>

definition key_press :: "input_event option \<Rightarrow> int option" where
  "key_press r =
     (case r of
        None \<Rightarrow> None
      | Some evt \<Rightarrow>
          if evt_type evt \<noteq> EV_KEY then None
          else if evt_value evt \<noteq> 1 then None
          else if evt_code evt \<in> set physical_keycodes then Some (evt_code evt)
          else None)"

fun first_batch :: "input_event option list \<Rightarrow> int \<Rightarrow> int" where
  "first_batch [] pressedKey = pressedKey"
| "first_batch (r # rs) pressedKey =
     first_batch rs (case key_press r of None \<Rightarrow> pressedKey | Some k \<Rightarrow> k)"

text \<open>The first loop: \<open>Inl\<close> is a failed poll.  It returns the key and the rounds left.\<close>

fun wait_first :: "timespec \<Rightarrow> int \<Rightarrow> round list \<Rightarrow> (unit + int \<times> round list) option" where
  "wait_first expiration pressedKey rounds =
     (if pressedKey \<noteq> 0 then Some (Inr (pressedKey, rounds))
      else case rounds of
             [] \<Rightarrow> None
           | r # rs \<Rightarrow>
               if getRemainingTime expiration (now r) > 0
               then case poll r of
                      None \<Rightarrow> Some (Inl ())
                    | Some batch \<Rightarrow> wait_first expiration (first_batch batch pressedKey) rs
               else Some (Inr (pressedKey, rs)))"

declare wait_first.simps [simp del]

text \<open>The events of one poll in the second loop: \<open>None\<close> is the jump to \<open>leave\<close>.\<close>

fun trigger_batch :: "int \<Rightarrow> input_event option list \<Rightarrow> nat \<Rightarrow> vibration list \<Rightarrow> nat option \<times> vibration list" where
  "trigger_batch pressedKey [] presses vs = (Some presses, vs)"
| "trigger_batch pressedKey (r # rs) presses vs =
     (case key_press r of
        None \<Rightarrow> trigger_batch pressedKey rs presses vs
      | Some k \<Rightarrow>
          if pressedKey = k
          then trigger_batch pressedKey rs (presses + 1)
                 (if presses + 1 < DETECTION_PRESSES then vs @ [Vibrate 1 150 0] else vs)
          else (None, vs))"

text \<open>The second loop: the number of presses at its regular end, or \<open>Inr None\<close> for the jump to \<open>leave\<close>.\<close>

fun wait_trigger :: "timespec \<Rightarrow> int \<Rightarrow> nat \<Rightarrow> vibration list \<Rightarrow> round list \<Rightarrow> (nat option \<times> vibration list) option" where
  "wait_trigger expiration pressedKey presses vs rounds =
     (if presses \<ge> DETECTION_PRESSES then Some (Some presses, vs)
      else case rounds of
             [] \<Rightarrow> None
           | r # rs \<Rightarrow>
               if getRemainingTime expiration (now r) > 0
               then case poll r of
                      None \<Rightarrow> Some (None, vs)
                    | Some batch \<Rightarrow>
                        (case trigger_batch pressedKey batch presses vs of
                           (None, vs1) \<Rightarrow> Some (None, vs1)
                         | (Some n, vs1) \<Rightarrow> wait_trigger expiration pressedKey n vs1 rs)
               else Some (Some presses, vs))"

declare wait_trigger.simps [simp del]

section \<open>The detection\<close>

record kernel =
  k_dir :: "device list option"
  k_efd :: int
  k_epoll_ctl :: "int \<Rightarrow> bool"
  k_start :: timespec
  k_rounds :: "round list"
  k_second :: timespec

text \<open>\<open>k_start\<close> and \<open>k_second\<close> are the times the two deadlines are computed from.\<close>

definition deadline :: "timespec \<Rightarrow> int \<Rightarrow> timespec" where
  "deadline t s = t\<lparr>tv_sec := tv_sec t + s\<rparr>"

definition leave :: "int \<Rightarrow> int list \<Rightarrow> fd_op list" where
  "leave efd fds = (if efd \<ge> 0 then [Closed efd] else []) @ map Closed fds"

text \<open>From the second vibration pattern to the label \<open>leave\<close>.\<close>

definition second_phase :: "kernel \<Rightarrow> int \<Rightarrow> round list \<Rightarrow> (bool \<times> vibration list) option" where
  "second_phase K pressedKey rounds =
     (case wait_trigger (deadline (k_second K) DETECTION_TIMEOUT) pressedKey 1 [Vibrate 2 150 200] rounds of
        None \<Rightarrow> None
      | Some (None, vs) \<Rightarrow> Some (False, vs)
      | Some (Some presses, vs) \<Rightarrow>
          if presses \<ge> DETECTION_PRESSES then Some (True, vs @ [Vibrate 1 500 0]) else Some (False, vs))"

definition detectSafemodeTrigger :: "kernel \<Rightarrow> bool \<Rightarrow> (bool \<times> vibration list \<times> fd_op list) option" where
  "detectSafemodeTrigger K skipInitialDelay =
     (case openKeyDevices (k_dir K) MAX_DEVICES of
        (fds, pressedKey, ops) \<Rightarrow>
          if fds = [] then Some (False, [], ops)
          else if pressedKey < 0 then Some (False, [], ops @ leave (- 1) fds)
          else if pressedKey = 0 \<and> skipInitialDelay then Some (False, [], ops @ leave (- 1) fds)
          else if k_efd K < 0 then Some (False, [], ops @ leave (k_efd K) fds)
          else let done = ops @ [Opened (k_efd K)] @ leave (k_efd K) fds
               in if \<not> list_all (k_epoll_ctl K) fds then Some (False, [], done)
                  else case wait_first (deadline (k_start K) INITIAL_DELAY) pressedKey (k_rounds K) of
                         None \<Rightarrow> None
                       | Some (Inl _) \<Rightarrow> Some (False, [], done)
                       | Some (Inr (key, rounds)) \<Rightarrow>
                           if key = 0 then Some (False, [], done)
                           else (case second_phase K key rounds of
                                   None \<Rightarrow> None
                                 | Some (result, vs) \<Rightarrow> Some (result, vs, done)))"

section \<open>Which devices are kept\<close>

definition usable :: "device \<Rightarrow> bool" where
  "usable d \<longleftrightarrow> d_name d \<noteq> ''.'' \<and> d_name d \<noteq> ''..'' \<and> d_fd d \<ge> 0 \<and> reports_keys (d_keys d)"

definition held :: "device \<Rightarrow> int list" where
  "held d = filter (\<lambda>k. test_bit k (d_down d)) physical_keycodes"

text \<open>What \<open>pressedKey\<close> says of the keys held down so far.\<close>

fun key_code :: "int list \<Rightarrow> int" where
  "key_code [] = 0"
| "key_code [k] = k"
| "key_code ks = - 1"

lemma key_code_zero: "0 \<notin> set ks \<Longrightarrow> key_code ks = 0 \<longleftrightarrow> ks = []"
  by (induction ks rule: key_code.induct) auto

lemma key_code_more: "ks \<noteq> [] \<Longrightarrow> ks' \<noteq> [] \<Longrightarrow> key_code (ks @ ks') = - 1"
  by (cases ks rule: key_code.cases; cases ks') auto

lemma pressed_on_code:
  assumes "0 \<notin> set ks" "0 \<notin> set keys"
  shows "pressed_on msk keys (key_code ks) = key_code (ks @ filter (\<lambda>k. test_bit k msk) keys)"
  using assms
proof (induction keys arbitrary: ks)
  case Nil
  show ?case by simp
next
  case (Cons k keys)
  show ?case
  proof (cases "test_bit k msk")
    case True
    show ?thesis
    proof (cases "ks = []")
      case True
      with Cons.IH [of "[k]"] Cons.prems \<open>test_bit k msk\<close> show ?thesis by simp
    next
      case False
      with True Cons.prems show ?thesis by (simp add: key_code_zero key_code_more)
    qed
  next
    case False
    with Cons show ?thesis by simp
  qed
qed

lemma physical_not_zero: "0 \<notin> set physical_keycodes"
  by (simp add: physical_keycodes_def)

lemma open_devices_Cons:
  assumes "0 \<notin> set ks"
  shows "open_devices (d # ds) m fds (key_code ks) =
     (if length fds < m
      then if usable d
           then case open_devices ds m (fds @ [d_fd d]) (key_code (ks @ held d)) of
                  (fds1, key, ops) \<Rightarrow> (fds1, key, Opened (d_fd d) # ops)
           else case open_devices ds m fds (key_code ks) of
                  (fds1, key, ops) \<Rightarrow>
                    (fds1, key, (if d_name d = ''.'' \<or> d_name d = ''..'' \<or> d_fd d < 0 then []
                                 else [Opened (d_fd d), Closed (d_fd d)]) @ ops)
      else (fds, key_code ks, []))"
  using pressed_on_code [OF assms physical_not_zero] by (auto simp: usable_def held_def split: prod.splits)

lemma open_devices_spec:
  assumes "0 \<notin> set ks"
  shows "\<exists>ops. open_devices ds m fds (key_code ks) =
    (fds @ map d_fd (take (m - length fds) (filter usable ds)),
     key_code (ks @ concat (map held (take (m - length fds) (filter usable ds)))), ops)"
  using assms
proof (induction ds arbitrary: fds ks)
  case Nil
  show ?case by simp
next
  case (Cons d ds)
  have held: "0 \<notin> set (held d)" using physical_not_zero by (simp add: held_def)
  show ?case
  proof (cases "length fds < m")
    case True
    then have "m - length fds = Suc (m - Suc (length fds))" by simp
    with True Cons.IH [of "ks @ held d" "fds @ [d_fd d]"] Cons.IH [of ks fds] Cons.prems held show ?thesis
      by (cases "usable d") (auto simp: open_devices_Cons simp del: open_devices.simps(2))
  next
    case False
    with Cons.prems show ?thesis by (simp add: open_devices_Cons del: open_devices.simps(2))
  qed
qed

text \<open>Devices that are not kept are closed again.\<close>

definition fd_balance :: "int \<Rightarrow> fd_op list \<Rightarrow> int" where
  "fd_balance fd ops = int (count_list ops (Opened fd)) - int (count_list ops (Closed fd))"

lemma fd_balance_simps [simp]:
  "fd_balance fd [] = 0" "fd_balance fd (ops @ ops') = fd_balance fd ops + fd_balance fd ops'"
  "fd_balance fd (Opened x # ops) = (if x = fd then 1 else 0) + fd_balance fd ops"
  "fd_balance fd (Closed x # ops) = fd_balance fd ops - (if x = fd then 1 else 0)"
  by (auto simp: fd_balance_def)

lemma fd_balance_close: "fd_balance fd (map Closed fds) = - int (count_list fds fd)"
  by (induction fds) auto

lemma open_devices_balance:
  "open_devices ds m fds key = (fds', key', ops) \<Longrightarrow>
    fd_balance fd ops = int (count_list fds' fd) - int (count_list fds fd)"
proof (induction ds arbitrary: fds key fds' key' ops)
  case Nil
  then show ?case by simp
next
  case (Cons d ds)
  show ?case using Cons.prems
    by (auto split: if_splits prod.splits dest!: Cons.IH)
qed

lemma openKeyDevices_balance:
  "openKeyDevices dir m = (fds, key, ops) \<Longrightarrow> fd_balance fd (ops @ map Closed fds) = 0"
  by (auto simp: openKeyDevices_def fd_balance_close split: option.splits dest!: open_devices_balance [where fd = fd])

section \<open>Presses\<close>

definition presses :: "input_event option list \<Rightarrow> int list" where
  "presses batch = List.map_filter key_press batch"

lemma presses_simps [simp]:
  "presses [] = []"
  "presses (r # rs) = (case key_press r of None \<Rightarrow> presses rs | Some k \<Rightarrow> k # presses rs)"
  by (auto simp: presses_def List.map_filter_def split: option.splits)

lemma trigger_batch_presses:
  "fst (trigger_batch key batch n vs) =
    (if list_all (\<lambda>k. k = key) (presses batch) then Some (n + length (presses batch)) else None)"
  by (induction key batch n vs rule: trigger_batch.induct) (auto split: option.splits)

text \<open>The presses in a sequence of rounds, and that the loop gets through them.\<close>

definition all_presses :: "round list \<Rightarrow> int list" where
  "all_presses rs = concat (map (\<lambda>r. case poll r of None \<Rightarrow> [] | Some batch \<Rightarrow> presses batch) rs)"

definition in_time :: "timespec \<Rightarrow> round list \<Rightarrow> bool" where
  "in_time expiration rs \<longleftrightarrow> list_all (\<lambda>r. getRemainingTime expiration (now r) > 0 \<and> poll r \<noteq> None) rs"

definition triggers :: "timespec \<Rightarrow> int \<Rightarrow> nat \<Rightarrow> round list \<Rightarrow> bool" where
  "triggers expiration key n rs \<longleftrightarrow>
     in_time expiration rs \<and> list_all (\<lambda>k. k = key) (all_presses rs) \<and> DETECTION_PRESSES \<le> n + length (all_presses rs)"

lemma all_presses_simps [simp]:
  "all_presses [] = []"
  "all_presses (r # rs) = (case poll r of None \<Rightarrow> [] | Some batch \<Rightarrow> presses batch) @ all_presses rs"
  by (simp_all add: all_presses_def)

lemma in_time_simps [simp]:
  "in_time e []" "in_time e (r # rs) \<longleftrightarrow> getRemainingTime e (now r) > 0 \<and> poll r \<noteq> None \<and> in_time e rs"
  by (simp_all add: in_time_def)

lemma wait_trigger_iff:
  "(\<exists>m vs'. wait_trigger e key n vs rounds = Some (Some m, vs') \<and> DETECTION_PRESSES \<le> m) \<longleftrightarrow>
    (\<exists>k. triggers e key n (take k rounds))"
proof (induction rounds arbitrary: n vs)
  case Nil
  show ?case by (subst wait_trigger.simps) (simp add: triggers_def)
next
  case (Cons r rs)
  have shift: "(\<exists>k. triggers e key n (take k (r # rs))) \<longleftrightarrow>
      triggers e key n [] \<or> (\<exists>k. triggers e key n (r # take k rs))"
    by (metis take_Cons_numeral take_Suc_Cons take_0 not0_implies_Suc)
  show ?case
  proof (cases "DETECTION_PRESSES \<le> n")
    case True
    then have "triggers e key n []" by (simp add: triggers_def)
    with True show ?thesis unfolding shift by (subst wait_trigger.simps) auto
  next
    case early: False
    show ?thesis
    proof (cases "getRemainingTime e (now r) > 0 \<and> poll r \<noteq> None")
      case False
      with early show ?thesis
        unfolding shift by (subst wait_trigger.simps) (auto simp: triggers_def split: option.splits)
    next
      case True
      then obtain batch where b: "poll r = Some batch" by auto
      obtain res vs1 where t: "trigger_batch key batch n vs = (res, vs1)" by force
      have res: "res = (if list_all (\<lambda>k. k = key) (presses batch) then Some (n + length (presses batch)) else None)"
        using trigger_batch_presses [of key batch n vs] t by simp
      have step: "triggers e key n (r # rs') \<longleftrightarrow>
          list_all (\<lambda>k. k = key) (presses batch) \<and> triggers e key (n + length (presses batch)) rs'" for rs'
        using True b by (auto simp: triggers_def)
      show ?thesis
        using early True b t res Cons.IH [of "n + length (presses batch)" vs1]
        unfolding shift step by (subst wait_trigger.simps) (auto simp: triggers_def)
    qed
  qed
qed

section \<open>Properties\<close>

text \<open>
  C26 The second phase detects the trigger exactly when, before its deadline and before a failed poll, the rounds
  bring at least four more presses of the initial key and no press of another physical key.  Key releases,
  repeats, other keys and short reads count for nothing, and it does not matter how the presses are spread over
  the polls.
\<close>

theorem trigger_iff_five_presses:
  "(\<exists>vs. second_phase K key rounds = Some (True, vs)) \<longleftrightarrow>
    (\<exists>k. in_time (deadline (k_second K) DETECTION_TIMEOUT) (take k rounds) \<and>
         list_all (\<lambda>c. c = key) (all_presses (take k rounds)) \<and> 4 \<le> length (all_presses (take k rounds)))"
proof -
  let ?w = "wait_trigger (deadline (k_second K) DETECTION_TIMEOUT) key 1 [Vibrate 2 150 200] rounds"
  have "(\<exists>vs. second_phase K key rounds = Some (True, vs)) \<longleftrightarrow> (\<exists>m vs'. ?w = Some (Some m, vs') \<and> DETECTION_PRESSES \<le> m)"
    by (auto simp: second_phase_def split: option.splits if_splits)
  then show ?thesis unfolding wait_trigger_iff triggers_def by auto
qed

text \<open>
  \<open>openKeyDevices\<close> keeps the first four usable devices: those that can be opened and report a physical
  key.  The pressed key it reports is 0 if none of their physical keys is held down, the key if one is, and
  \<open>-1\<close> if more are held, or one key on two devices.
\<close>

theorem open_key_devices_result:
  "\<exists>ops. openKeyDevices (Some ds) MAX_DEVICES =
    (map d_fd (take 4 (filter usable ds)), key_code (concat (map held (take 4 (filter usable ds)))), ops)"
  using open_devices_spec [of "[]" ds 4 "[]"] by (simp add: openKeyDevices_def)

text \<open>
  The detection leaks no descriptor: whatever it returns and by whatever path, everything it opened, input
  devices and the epoll descriptor, is closed as often as it was opened.
\<close>

theorem detection_closes_descriptors:
  assumes "detectSafemodeTrigger K skipInitialDelay = Some (result, vs, ops)"
  shows "count_list ops (Closed fd) = count_list ops (Opened fd)"
proof -
  obtain fds key ops0 where o: "openKeyDevices (k_dir K) MAX_DEVICES = (fds, key, ops0)"
    by (cases "openKeyDevices (k_dir K) MAX_DEVICES") auto
  from openKeyDevices_balance [OF o, of fd] have bal: "fd_balance fd ops0 + fd_balance fd (map Closed fds) = 0" by simp
  have "ops = ops0 \<and> fds = [] \<or> ops = ops0 @ leave (- 1) fds \<or> k_efd K < 0 \<and> ops = ops0 @ leave (k_efd K) fds \<or>
      k_efd K \<ge> 0 \<and> ops = ops0 @ [Opened (k_efd K)] @ leave (k_efd K) fds"
    using assms by (auto simp: detectSafemodeTrigger_def o Let_def split: if_splits option.splits sum.splits prod.splits)
  with bal have "fd_balance fd ops = 0"
    by (auto simp: leave_def)
  then show ?thesis by (simp add: fd_balance_def)
qed

definition demo_kernel :: kernel where
  "demo_kernel = \<lparr>k_dir = Some [\<lparr>d_name = ''event0'', d_fd = 7, d_keys = replicate 96 (- 1), d_down = replicate 96 0\<rparr>],
     k_efd = 9, k_epoll_ctl = (\<lambda>_. True), k_start = \<lparr>tv_sec = 10, tv_nsec = 0\<rparr>,
     k_rounds = [\<lparr>now = \<lparr>tv_sec = 12, tv_nsec = 5\<rparr>, poll = Some []\<rparr>], k_second = \<lparr>tv_sec = 12, tv_nsec = 0\<rparr>\<rparr>"

theorem detection_closes_descriptors_witness:
  "detectSafemodeTrigger demo_kernel False = Some (False, [], [Opened 7, Opened 9, Closed 9, Closed 7]) \<and>
   count_list [Opened 7, Opened 9, Closed 9, Closed 7] (Closed 9) = count_list [Opened 7, Opened 9, Closed 9, Closed 7] (Opened (9::int))"
proof -
  have run: "detectSafemodeTrigger demo_kernel False = Some (False, [], [Opened 7, Opened 9, Closed 9, Closed 7])"
    by code_simp
  from run detection_closes_descriptors [OF run, of 9] show ?thesis by simp
qed

text \<open>
  The initial phase accepts two different keys at once.  If one poll brings a press from each of two devices,
  the last one is taken as the initial key, although the trigger is meant to require exactly one key.
\<close>

theorem initial_phase_accepts_two_keys:
  assumes "a \<in> set physical_keycodes" "b \<in> set physical_keycodes" "getRemainingTime expiration t > 0"
  shows "wait_first expiration 0
      (\<lparr>now = t, poll = Some [Some \<lparr>evt_type = EV_KEY, evt_code = a, evt_value = 1\<rparr>,
                             Some \<lparr>evt_type = EV_KEY, evt_code = b, evt_value = 1\<rparr>]\<rparr> # rounds) = Some (Inr (b, rounds))"
proof -
  have "b \<noteq> 0" using assms(2) physical_not_zero by metis
  then have stop: "wait_first expiration b rounds = Some (Inr (b, rounds))" by (subst wait_first.simps) simp
  show ?thesis using assms by (subst wait_first.simps) (simp add: key_press_def stop)
qed

theorem initial_phase_accepts_two_keys_witness:
  "wait_first \<lparr>tv_sec = 12, tv_nsec = 0\<rparr> 0
      [\<lparr>now = \<lparr>tv_sec = 10, tv_nsec = 0\<rparr>, poll = Some [Some \<lparr>evt_type = EV_KEY, evt_code = KEY_HOME, evt_value = 1\<rparr>,
        Some \<lparr>evt_type = EV_KEY, evt_code = KEY_POWER, evt_value = 1\<rparr>]\<rparr>] = Some (Inr (KEY_POWER, []))"
  by (rule initial_phase_accepts_two_keys) (simp_all add: physical_keycodes_def getRemainingTime_def)

end
