(* ===== verification/Membased.thy ===== *)
theory Membased
  imports Prelude "HOL-Library.Monad_Syntax"
begin

text \<open>
  The memory-based Zygote service of \<open>src/Xposed-master/xposed_service.cpp\<close> (namespace \<open>membased\<close>): a
  client in Zygote puts a request into shared memory, a server process executes it with its own privileges and
  puts the answer there.  This theory has the data, the server's actions and the client operations, with a call
  of the service as one step; theory \<open>Membased_Sync\<close> has the locking and signalling around it.

  The file system is an argument: \<open>fsys\<close> says what the system calls give at the moment of a service call.
  Streams are those of \<open>stdio\<close>.  \<open>malloc n\<close> says whether a block of \<open>n\<close> bytes can be had.  A client operation returns
  \<open>None\<close> if it waits for ever; \<open>Inl\<close> is a write outside of the result buffer or through a null pointer.
\<close>

section \<open>The file system\<close>

record statbuf =
  st_size :: int
  st_mtime :: int
  st_isdir :: bool

text \<open>An open file: its bytes, whether \<open>fseek\<close> works, and what \<open>ferror\<close> says after a read.\<close>

record stream =
  f_data :: "byte list"
  f_seek :: bool
  f_ferror :: int

text \<open>\<open>fs_access\<close> gives the error number, 0 for success; the left value of the others is the error number.\<close>

record fsys =
  fs_access :: "string \<Rightarrow> int \<Rightarrow> int"
  fs_stat :: "string \<Rightarrow> int + statbuf"
  fs_open :: "string \<Rightarrow> int + stream"

definition fread :: "stream \<Rightarrow> nat \<Rightarrow> nat \<Rightarrow> byte list" where
  "fread f offset n = take n (drop offset (f_data f))"

definition feof_after :: "stream \<Rightarrow> nat \<Rightarrow> nat \<Rightarrow> bool" where
  "feof_after f offset n \<longleftrightarrow> length (f_data f) - offset < n"

section \<open>The shared state\<close>

datatype State = STATE_NOT_RUNNING | STATE_IDLE | STATE_SERVICE_ACTION | STATE_SERVER_RESPONSE

datatype Action = OP_NONE | OP_ACCESS_FILE | OP_STAT_FILE | OP_READ_FILE

abbreviation (input) PATH_MAX :: nat where "PATH_MAX \<equiv> 4096"
abbreviation (input) CHUNK :: nat where "CHUNK \<equiv> 32768"

text \<open>
  The union \<open>data\<close>: every operation writes the fields it passes and reads only fields the server sets for it,
  so the members are kept side by side; all three start with the path.
\<close>

record memdata =
  m_path :: string
  m_mode :: int
  m_result :: int
  m_st :: statbuf
  m_offset :: nat
  m_totalSize :: int
  m_bytesRead :: nat
  m_eof :: bool
  m_content :: "byte list"

record shared =
  sh_state :: State
  sh_action :: Action
  sh_error :: int
  sh_data :: memdata

section \<open>The server\<close>

definition access_action :: "fsys \<Rightarrow> shared \<Rightarrow> shared" where
  "access_action fs sh =
     (let d = sh_data sh; err = fs_access fs (m_path d) (m_mode d)
      in if err = 0 then sh\<lparr>sh_data := d\<lparr>m_result := 0\<rparr>\<rparr>
         else sh\<lparr>sh_data := d\<lparr>m_result := - 1\<rparr>, sh_error := err\<rparr>)"

definition stat_action :: "fsys \<Rightarrow> shared \<Rightarrow> shared" where
  "stat_action fs sh =
     (let d = sh_data sh
      in case fs_stat fs (m_path d) of
           Inl err \<Rightarrow> sh\<lparr>sh_data := d\<lparr>m_result := - 1\<rparr>, sh_error := err\<rparr>
         | Inr st \<Rightarrow> sh\<lparr>sh_data := d\<lparr>m_result := 0, m_st := st\<rparr>\<rparr>)"

definition read_action :: "fsys \<Rightarrow> shared \<Rightarrow> shared" where
  "read_action fs sh =
     (let d = sh_data sh
      in case fs_stat fs (m_path d) of
           Inl err \<Rightarrow> sh\<lparr>sh_error := err\<rparr>
         | Inr st \<Rightarrow>
             let d1 = d\<lparr>m_totalSize := int32 (st_size st)\<rparr>
             in case fs_open fs (m_path d) of
                  Inl err \<Rightarrow> sh\<lparr>sh_data := d1, sh_error := err\<rparr>
                | Inr f \<Rightarrow>
                    if m_offset d > 0 \<and> \<not> f_seek f then sh\<lparr>sh_data := d1, sh_error := 0\<rparr>
                    else sh\<lparr>sh_data := d1\<lparr>m_content := fread f (m_offset d) CHUNK,
                                          m_bytesRead := length (fread f (m_offset d) CHUNK),
                                          m_eof := feof_after f (m_offset d) CHUNK\<rparr>,
                            sh_error := f_ferror f\<rparr>)"

text \<open>
  The \<open>switch\<close> of \<open>looper\<close>.  \<open>ferror\<close> of a stream on which only \<open>fseek\<close> failed is 0.
\<close>

definition service_action :: "fsys \<Rightarrow> shared \<Rightarrow> shared" where
  "service_action fs sh =
     (case sh_action sh of
        OP_ACCESS_FILE \<Rightarrow> access_action fs sh
      | OP_STAT_FILE \<Rightarrow> stat_action fs sh
      | OP_READ_FILE \<Rightarrow> read_action fs sh
      | OP_NONE \<Rightarrow> sh)\<lparr>sh_state := STATE_SERVER_RESPONSE\<rparr>"

section \<open>The client\<close>

record zproc =
  z_shared :: "shared option"
  z_zygotePid :: int
  z_pid :: int
  z_always :: bool
  z_errno :: int

definition membased_init :: "bool \<Rightarrow> shared \<Rightarrow> zproc \<Rightarrow> bool \<times> zproc" where
  "membased_init mapped mem p =
     (if \<not> mapped then (False, p\<lparr>z_shared := None\<rparr>)
      else (True, p\<lparr>z_zygotePid := z_pid p, z_always := True,
                   z_shared := Some (mem\<lparr>sh_state := STATE_NOT_RUNNING, sh_action := OP_NONE, sh_error := 0\<rparr>)\<rparr>))"

definition restrictMemoryInheritance :: "zproc \<Rightarrow> zproc" where
  "restrictMemoryInheritance p = p\<lparr>z_always := False\<rparr>"

definition isServiceAccessible :: "zproc \<Rightarrow> bool \<times> zproc" where
  "isServiceAccessible p =
     (if \<not> z_always p \<and> (z_shared p = None \<or> z_zygotePid p \<noteq> z_pid p)
      then (False, p\<lparr>z_shared := None, z_errno := EPERM\<rparr>)
      else (True, p))"

text \<open>
  \<open>waitForRunning\<close>: every wait gives the return code of \<open>pthread_cond_timedwait\<close> and the state found after
  it.  The argument is only tested for its sign; the deadline is five seconds from now whatever it is.
\<close>

fun wait_running :: "State \<Rightarrow> int \<Rightarrow> (int \<times> State) list \<Rightarrow> (int \<times> State) option" where
  "wait_running st rc waits =
     (if st = STATE_NOT_RUNNING \<and> rc = 0
      then (case waits of [] \<Rightarrow> None | (rc', st') # rest \<Rightarrow> wait_running st' rc' rest)
      else Some (rc, st))"

definition waitForRunning :: "int \<Rightarrow> (int \<times> State) list \<Rightarrow> zproc \<Rightarrow> (bool \<times> zproc) option" where
  "waitForRunning timeout waits p =
     (case z_shared p of
        None \<Rightarrow> Some (False, p)
      | Some sh \<Rightarrow>
          if timeout < 0 then Some (False, p)
          else map_option (\<lambda>(rc, st). (rc = 0, p\<lparr>z_shared := Some (sh\<lparr>sh_state := st\<rparr>)\<rparr>))
                 (wait_running (sh_state sh) 0 waits))"

declare wait_running.simps [simp del]

lemma wait_running_runs: "wait_running st rc waits = Some (0, st') \<Longrightarrow> st' \<noteq> STATE_NOT_RUNNING"
proof (induction st rc waits rule: wait_running.induct)
  case (1 st rc waits)
  then show ?case by (subst (asm) (2) wait_running.simps) (auto split: if_splits list.splits)
qed

definition waitForIdle :: "zproc \<Rightarrow> shared option" where
  "waitForIdle p = do { sh \<leftarrow> z_shared p; if sh_state sh = STATE_IDLE then Some sh else None }"

definition callService :: "fsys \<Rightarrow> Action \<Rightarrow> shared \<Rightarrow> shared" where
  "callService fs action sh =
     service_action fs (sh\<lparr>sh_action := action, sh_state := STATE_SERVICE_ACTION, sh_error := 0\<rparr>)"

definition makeIdle :: "shared \<Rightarrow> shared" where
  "makeIdle sh = sh\<lparr>sh_action := OP_NONE, sh_state := STATE_IDLE\<rparr>"

text \<open>The end of an operation: the shared state and \<open>errno\<close>.\<close>

definition finish :: "shared \<Rightarrow> zproc \<Rightarrow> zproc" where
  "finish sh p = p\<lparr>z_shared := Some (makeIdle sh), z_errno := sh_error sh\<rparr>"

definition accessFile :: "fsys \<Rightarrow> string \<Rightarrow> int \<Rightarrow> zproc \<Rightarrow> (int \<times> zproc) option" where
  "accessFile fs path mode p =
     (case isServiceAccessible p of
        (False, p1) \<Rightarrow> Some (- 1, p1)
      | (True, p1) \<Rightarrow>
          if length path > PATH_MAX - 1 then Some (- 1, p1\<lparr>z_errno := ENAMETOOLONG\<rparr>)
          else do {
            sh \<leftarrow> waitForIdle p1;
            let sh1 = callService fs OP_ACCESS_FILE (sh\<lparr>sh_data := (sh_data sh)\<lparr>m_path := path, m_mode := mode\<rparr>\<rparr>);
            Some (if sh_error sh1 \<noteq> 0 then - 1 else m_result (sh_data sh1), finish sh1 p1) })"

definition statFile :: "fsys \<Rightarrow> string \<Rightarrow> zproc \<Rightarrow> (int \<times> statbuf option \<times> zproc) option" where
  "statFile fs path p =
     (case isServiceAccessible p of
        (False, p1) \<Rightarrow> Some (- 1, None, p1)
      | (True, p1) \<Rightarrow>
          if length path > PATH_MAX - 1 then Some (- 1, None, p1\<lparr>z_errno := ENAMETOOLONG\<rparr>)
          else do {
            sh \<leftarrow> waitForIdle p1;
            let sh1 = callService fs OP_STAT_FILE (sh\<lparr>sh_data := (sh_data sh)\<lparr>m_path := path\<rparr>\<rparr>);
            Some (if sh_error sh1 \<noteq> 0 then - 1 else m_result (sh_data sh1), Some (m_st (sh_data sh1)), finish sh1 p1) })"

text \<open>
  \<open>readFile\<close> calls the service until it reports the end of the file; \<open>fs i\<close> is the file system at the
  \<open>i\<close>-th call.  The result buffer has one byte more than the size the first call reported; its bytes are 0
  here until they are written.  The result of \<open>malloc\<close> is not checked before the last byte is written.  Sums of
  \<open>int\<close> variables wrap around; \<open>offset\<close> itself never gets beyond the buffer.
\<close>

datatype overrun = Overrun | Null_buffer

definition memcpy :: "byte list \<Rightarrow> nat \<Rightarrow> byte list \<Rightarrow> overrun + byte list" where
  "memcpy buf i bs =
     (if length buf < i + length bs then Inl Overrun else Inr (take i buf @ bs @ drop (i + length bs) buf))"

partial_function (option) read_loop ::
  "(nat \<Rightarrow> fsys) \<Rightarrow> nat \<Rightarrow> nat \<Rightarrow> byte list \<Rightarrow> nat \<Rightarrow> shared \<Rightarrow> (overrun + byte list option \<times> nat \<times> shared) option"
  where
  "read_loop fs i totalSize buf offset sh =
     (let d = sh_data sh
      in if m_eof d then Some (Inr (Some buf, offset + m_bytesRead d, sh))
         else let offset1 = offset + m_bytesRead d;
                  sh1 = callService (fs i) OP_READ_FILE (sh\<lparr>sh_data := d\<lparr>m_offset := offset1\<rparr>\<rparr>);
                  d1 = sh_data sh1
              in if sh_error sh1 \<noteq> 0 then Some (Inr (None, 0, sh1))
                 else if int32 (int (offset1 + m_bytesRead d1)) > int totalSize
                 then Some (Inr (None, 0, sh1\<lparr>sh_error := EBUSY\<rparr>))
                 else case memcpy buf offset1 (take (m_bytesRead d1) (m_content d1)) of
                        Inl e \<Rightarrow> Some (Inl e)
                      | Inr buf1 \<Rightarrow> read_loop fs (i + 1) totalSize buf1 offset1 sh1)"

definition readFile ::
  "(nat \<Rightarrow> bool) \<Rightarrow> (nat \<Rightarrow> fsys) \<Rightarrow> string \<Rightarrow> zproc \<Rightarrow> (overrun + byte list option \<times> nat \<times> zproc) option" where
  "readFile malloc fs path p =
     (case isServiceAccessible p of
        (False, p1) \<Rightarrow> Some (Inr (None, 0, p1))
      | (True, p1) \<Rightarrow>
          if length path > PATH_MAX - 1 then Some (Inr (None, 0, p1\<lparr>z_errno := ENAMETOOLONG\<rparr>))
          else do {
            sh \<leftarrow> waitForIdle p1;
            let sh1 = callService (fs 0) OP_READ_FILE (sh\<lparr>sh_data := (sh_data sh)\<lparr>m_path := path, m_offset := 0\<rparr>\<rparr>);
            let d1 = sh_data sh1;
            if sh_error sh1 \<noteq> 0 then Some (Inr (None, 0, finish sh1 p1))
            else if \<not> malloc (nat (int32 (m_totalSize d1 + 1) mod 2 ^ 32)) then Some (Inl Null_buffer)
            else if m_totalSize d1 < 0 then Some (Inl Overrun)
            else case memcpy (replicate (nat (m_totalSize d1)) 0 @ [0]) 0 (take (m_bytesRead d1) (m_content d1)) of
                   Inl e \<Rightarrow> Some (Inl e)
                 | Inr buf \<Rightarrow> do {
                     r \<leftarrow> read_loop fs 1 (nat (m_totalSize d1)) buf 0 sh1;
                     case r of
                       Inl e \<Rightarrow> Some (Inl e)
                     | Inr (result, bytesRead, sh2) \<Rightarrow> Some (Inr (result, bytesRead, finish sh2 p1)) } })"

section \<open>Reading a file in chunks\<close>

text \<open>The file at \<open>path\<close> can be read and has the contents \<open>c\<close>.\<close>

definition readable :: "fsys \<Rightarrow> string \<Rightarrow> byte list \<Rightarrow> bool" where
  "readable fs path c \<longleftrightarrow>
     (case (fs_stat fs path, fs_open fs path) of
        (Inr st, Inr f) \<Rightarrow> st_size st = int (length c) \<and> f_data f = c \<and> f_seek f \<and> f_ferror f = 0
      | _ \<Rightarrow> False)"

text \<open>The data fields after the chunk at \<open>offset\<close> has been read.\<close>

definition chunk_read :: "byte list \<Rightarrow> nat \<Rightarrow> memdata \<Rightarrow> bool" where
  "chunk_read c offset d \<longleftrightarrow>
     m_totalSize d = int (length c) \<and> m_content d = take CHUNK (drop offset c) \<and>
     m_bytesRead d = length (take CHUNK (drop offset c)) \<and> (m_eof d \<longleftrightarrow> length c - offset < CHUNK)"

lemma callService_read:
  assumes "readable fs path c" "m_path (sh_data sh) = path" "m_offset (sh_data sh) = offset" "int (length c) < INT_MAX"
  shows "sh_error (callService fs OP_READ_FILE sh) = 0" "m_path (sh_data (callService fs OP_READ_FILE sh)) = path"
    and "chunk_read c offset (sh_data (callService fs OP_READ_FILE sh))"
proof -
  obtain st f where "fs_stat fs path = Inr st" "fs_open fs path = Inr f"
      "st_size st = int (length c)" "f_data f = c" "f_seek f" "f_ferror f = 0"
    using assms(1) by (auto simp: readable_def split: sum.splits)
  moreover have "int32 (int (length c)) = int (length c)" using assms(4) by (intro int32_id) (simp add: is_int32_def)
  ultimately show "sh_error (callService fs OP_READ_FILE sh) = 0"
      "m_path (sh_data (callService fs OP_READ_FILE sh)) = path"
      "chunk_read c offset (sh_data (callService fs OP_READ_FILE sh))"
    using assms(2,3)
    by (auto simp: callService_def service_action_def read_action_def fread_def feof_after_def chunk_read_def Let_def)
qed

text \<open>The buffer when the first \<open>n\<close> bytes of \<open>c\<close> are in place.\<close>

definition filled :: "byte list \<Rightarrow> nat \<Rightarrow> byte list" where
  "filled c n = take n c @ replicate (length c - n) 0 @ [0]"

lemma memcpy_filled:
  assumes "offset \<le> length c" "bs = take n (drop offset c)"
  shows "memcpy (filled c offset) offset bs = Inr (filled c (offset + length bs))"
proof -
  have len: "offset + length bs \<le> length c" "length (filled c offset) = length c + 1"
    using assms by (simp_all add: filled_def)
  have bs: "bs = take (length bs) (drop offset c)" using assms(2) by (simp add: min_def)
  have "take offset (filled c offset) = take offset c" using assms(1) by (simp add: filled_def)
  moreover have "drop (offset + length bs) (filled c offset) = replicate (length c - (offset + length bs)) 0 @ [0]"
    using len assms(1) by (simp add: filled_def)
  moreover have "take offset c @ bs = take (offset + length bs) c"
    using take_add [of offset "length bs" c] bs by simp
  ultimately have "take offset (filled c offset) @ bs @ drop (offset + length bs) (filled c offset) =
      filled c (offset + length bs)"
    by (simp only: filled_def append_assoc [symmetric])
  with len show ?thesis by (simp add: memcpy_def)
qed

lemma chunk_bytes:
  assumes "chunk_read c offset d"
  shows "take (m_bytesRead d) (m_content d) = take CHUNK (drop offset c)"
proof -
  have "m_bytesRead d = length (m_content d)" "m_content d = take CHUNK (drop offset c)"
    using assms by (simp_all add: chunk_read_def)
  then show ?thesis by (metis order_refl take_all)
qed

lemma read_loop_reads:
  assumes "\<And>i. readable (fs i) path c" "int (length c) < INT_MAX"
    and "m_path (sh_data sh) = path" "chunk_read c offset (sh_data sh)" "sh_error sh = 0" "offset \<le> length c"
  shows "\<exists>sh'. sh_error sh' = 0 \<and>
    read_loop fs i (length c) (filled c (offset + m_bytesRead (sh_data sh))) offset sh = Some (Inr (Some (c @ [0]), length c, sh'))"
  using assms(3-)
proof (induction "length c - offset" arbitrary: offset sh i rule: less_induct)
  case less
  let ?d = "sh_data sh"
  show ?case
  proof (cases "m_eof ?d")
    case True
    with less.prems have "offset + m_bytesRead ?d = length c" by (simp add: chunk_read_def)
    with True less.prems(3) show ?thesis
      by (intro exI [of _ sh], subst read_loop.simps) (simp add: filled_def)
  next
    case False
    let ?o = "offset + m_bytesRead ?d"
    from False less.prems have br: "m_bytesRead ?d = CHUNK" "?o \<le> length c"
      by (auto simp: chunk_read_def)
    obtain sh1 where sh1: "callService (fs i) OP_READ_FILE (sh\<lparr>sh_data := ?d\<lparr>m_offset := ?o\<rparr>\<rparr>) = sh1" "sh_error sh1 = 0"
        "m_path (sh_data sh1) = path" "chunk_read c ?o (sh_data sh1)"
      using callService_read [of "fs i" path c "sh\<lparr>sh_data := ?d\<lparr>m_offset := ?o\<rparr>\<rparr>" ?o] assms(1,2) less.prems(1) by simp
    let ?d1 = "sh_data sh1"
    have take: "take (m_bytesRead ?d1) (m_content ?d1) = take CHUNK (drop ?o c)" "m_bytesRead ?d1 = length (take CHUNK (drop ?o c))"
      using sh1(4) chunk_bytes [OF sh1(4)] by (simp_all add: chunk_read_def)
    have "?o + m_bytesRead ?d1 \<le> length c" using take(2) br(2) by simp
    then have fits: "\<not> int32 (int (?o + m_bytesRead ?d1)) > int (length c)"
      using assms(2) int32_id [of "int (?o + m_bytesRead ?d1)"] by (simp add: is_int32_def)
    have "read_loop fs i (length c) (filled c ?o) offset sh =
        read_loop fs (i + 1) (length c) (filled c (?o + m_bytesRead ?d1)) ?o sh1"
      using False sh1(1,2) fits take memcpy_filled [OF br(2) refl, of CHUNK]
      by (subst read_loop.simps) (simp add: Let_def)
    moreover have "length c - ?o < length c - offset" using br by simp
    ultimately show ?thesis using less.hyps [of ?o sh1 "i + 1"] sh1 br(2) by simp
  qed
qed

section \<open>Properties\<close>

text \<open>The service is there for the process and idle.\<close>

definition ready :: "zproc \<Rightarrow> bool" where
  "ready p \<longleftrightarrow>
     (z_always p \<or> z_zygotePid p = z_pid p) \<and>
     (case z_shared p of None \<Rightarrow> False | Some sh \<Rightarrow> sh_state sh = STATE_IDLE)"

lemma readyE:
  assumes "ready p"
  obtains sh where "z_shared p = Some sh" "sh_state sh = STATE_IDLE" "z_always p \<or> z_zygotePid p = z_pid p"
    and "isServiceAccessible p = (True, p)"
  using assms by (auto simp: ready_def isServiceAccessible_def split: option.splits)

lemma readFile_reads:
  assumes "ready p" "length path < PATH_MAX" "\<And>i. readable (fs i) path c" "int (length c) < INT_MAX" "malloc (length c + 1)"
  shows "\<exists>p'. readFile malloc fs path p = Some (Inr (Some (c @ [0]), length c, p')) \<and> z_errno p' = 0 \<and> ready p'"
proof -
  obtain sh where sh: "z_shared p = Some sh" "sh_state sh = STATE_IDLE" "z_always p \<or> z_zygotePid p = z_pid p"
      and acc: "isServiceAccessible p = (True, p)"
    using assms(1) by (rule readyE)
  let ?sh0 = "sh\<lparr>sh_data := (sh_data sh)\<lparr>m_path := path, m_offset := 0\<rparr>\<rparr>"
  obtain sh1 where sh1: "callService (fs 0) OP_READ_FILE ?sh0 = sh1" "sh_error sh1 = 0" "m_path (sh_data sh1) = path"
      "chunk_read c 0 (sh_data sh1)"
    using callService_read [of "fs 0" path c ?sh0 0] assms(3,4) by simp
  let ?d = "sh_data sh1"
  have d: "take (m_bytesRead ?d) (m_content ?d) = take CHUNK (drop 0 c)" "m_totalSize ?d = int (length c)"
      "m_bytesRead ?d = length (take CHUNK (drop 0 c))"
    using sh1(4) chunk_bytes [OF sh1(4)] by (simp_all add: chunk_read_def)
  have copy: "memcpy (replicate (length c) 0 @ [0]) 0 (take CHUNK (drop 0 c)) = Inr (filled c (0 + m_bytesRead ?d))"
    using memcpy_filled [of 0 c _ CHUNK] d(3) by (simp add: filled_def)
  obtain sh2 where "sh_error sh2 = 0"
      "read_loop fs 1 (length c) (filled c (0 + m_bytesRead ?d)) 0 sh1 = Some (Inr (Some (c @ [0]), length c, sh2))"
    using read_loop_reads [of fs path c sh1 0 1] assms(3,4) sh1(3,4,2) by auto
  moreover have "nat (int32 (m_totalSize ?d + 1) mod 2 ^ 32) = length c + 1"
    using assms(4) int32_id [of "int (length c) + 1"] unfolding d(2) by (simp add: is_int32_def nat_add_distrib)
  ultimately show ?thesis
    using acc sh sh1(1,2) d(1,2) copy assms(2,5)
    by (simp add: readFile_def waitForIdle_def Let_def finish_def makeIdle_def ready_def)
qed

lemma readFile_no_memory:
  assumes "ready p" "length path < PATH_MAX" "readable (fs 0) path c" "int (length c) < INT_MAX" "\<not> malloc (length c + 1)"
  shows "readFile malloc fs path p = Some (Inl Null_buffer)"
proof -
  obtain sh where sh: "z_shared p = Some sh" "sh_state sh = STATE_IDLE" and acc: "isServiceAccessible p = (True, p)"
    using assms(1) by (rule readyE)
  let ?sh1 = "callService (fs 0) OP_READ_FILE (sh\<lparr>sh_data := (sh_data sh)\<lparr>m_path := path, m_offset := 0\<rparr>\<rparr>)"
  have sh1: "sh_error ?sh1 = 0" "m_totalSize (sh_data ?sh1) = int (length c)"
    using callService_read [of "fs 0" path c "sh\<lparr>sh_data := (sh_data sh)\<lparr>m_path := path, m_offset := 0\<rparr>\<rparr>" 0] assms(3,4)
    by (simp_all add: chunk_read_def)
  have "nat (int32 (m_totalSize (sh_data ?sh1) + 1) mod 2 ^ 32) = length c + 1"
    using assms(4) int32_id [of "int (length c) + 1"] unfolding sh1(2) by (simp add: is_int32_def nat_add_distrib)
  then show ?thesis using acc sh sh1 assms(2,5) by (simp add: readFile_def waitForIdle_def Let_def)
qed

text \<open>
  C29 For a file of less than 2 GiB (its size and one more are values of an \<open>int\<close>), \<open>readFile\<close> through the shared memory returns
  the whole file, terminated by a zero byte, and its length, if the buffer can be allocated: also if the file is
  smaller than a chunk of 32 KiB, larger, or an exact multiple of it.  Afterwards \<open>errno\<close> is 0 and the service is
  idle again.  If the buffer cannot be allocated, the null pointer is written through.
\<close>

theorem read_file_whole:
  assumes "ready p" "length path < PATH_MAX" "\<And>i. readable (fs i) path c" "int (length c) < INT_MAX"
  shows "if malloc (length c + 1)
    then \<exists>p'. readFile malloc fs path p = Some (Inr (Some (c @ [0]), length c, p')) \<and> z_errno p' = 0 \<and> ready p'
    else readFile malloc fs path p = Some (Inl Null_buffer)"
  using readFile_reads [of p path fs c malloc, OF assms] readFile_no_memory [of p path fs c malloc, OF assms(1,2) assms(3) assms(4)] by simp

definition demo_shared :: shared where
  "demo_shared = \<lparr>sh_state = STATE_IDLE, sh_action = OP_NONE, sh_error = 0,
     sh_data = \<lparr>m_path = [], m_mode = 0, m_result = 0, m_st = \<lparr>st_size = 0, st_mtime = 0, st_isdir = False\<rparr>, m_offset = 0,
       m_totalSize = 0, m_bytesRead = 0, m_eof = False, m_content = []\<rparr>\<rparr>"

definition demo_zygote :: zproc where
  "demo_zygote = \<lparr>z_shared = Some demo_shared, z_zygotePid = 55, z_pid = 55, z_always = False, z_errno = 0\<rparr>"

definition demo_fs :: "int \<Rightarrow> byte list \<Rightarrow> fsys" where
  "demo_fs n c = \<lparr>fs_access = (\<lambda>_ _. 0), fs_stat = (\<lambda>_. Inr \<lparr>st_size = n, st_mtime = 7, st_isdir = False\<rparr>),
     fs_open = (\<lambda>_. Inr \<lparr>f_data = c, f_seek = True, f_ferror = 0\<rparr>)\<rparr>"

theorem read_file_whole_witness:
  "\<exists>p'. readFile (\<lambda>n. n \<le> 4) (\<lambda>_. demo_fs 3 [1, 2, 3]) ''/data/x'' demo_zygote = Some (Inr (Some [1, 2, 3, 0], 3, p')) \<and>
    z_errno p' = 0 \<and> ready p'"
proof -
  have "ready demo_zygote" by (simp add: ready_def demo_zygote_def demo_shared_def)
  moreover have "readable (demo_fs 3 [1, 2, 3]) ''/data/x'' [1, 2, 3]" by (simp add: readable_def demo_fs_def)
  moreover have len: "length [1, 2, 3 :: byte] = 3" by simp
  ultimately show ?thesis
    using read_file_whole [of demo_zygote "''/data/x''" "\<lambda>_. demo_fs 3 [1, 2, 3]" "[1, 2, 3]" "\<lambda>n. n \<le> 4"]
    unfolding len append.simps by simp
qed

text \<open>
  The first chunk is copied without a look at the size.  If a file of at most 32 KiB grows between the server's
  \<open>stat\<close> and its \<open>fread\<close>, \<open>readFile\<close> writes past the buffer it allocated for the old size; only later
  chunks are checked (\<open>EBUSY\<close>).
\<close>

theorem growing_file_overruns:
  assumes "ready p" "length path < PATH_MAX"
    and "fs_stat (fs 0) path = Inr st" "fs_open (fs 0) path = Inr f" "f_ferror f = 0"
    and "0 \<le> st_size st" "nat (st_size st) + 1 < length (f_data f)" "length (f_data f) \<le> CHUNK"
  shows "readFile (\<lambda>_. True) fs path p = Some (Inl Overrun)"
proof -
  have "int32 (st_size st) = st_size st" using assms(6-8) by (intro int32_id) (simp add: is_int32_def)
  then show ?thesis using assms
    by (auto simp: ready_def readFile_def isServiceAccessible_def waitForIdle_def callService_def service_action_def
        read_action_def fread_def memcpy_def Let_def split: option.splits)
qed

theorem growing_file_overruns_witness:
  "readFile (\<lambda>_. True) (\<lambda>_. demo_fs 1 [1, 2, 3]) ''/data/x'' demo_zygote = Some (Inl Overrun)"
  by (rule growing_file_overruns [where st = "\<lparr>st_size = 1, st_mtime = 7, st_isdir = False\<rparr>"
        and f = "\<lparr>f_data = [1, 2, 3], f_seek = True, f_ferror = 0\<rparr>"]) (simp_all add: ready_def demo_zygote_def demo_shared_def demo_fs_def)

text \<open>
  A file check through the service tells what the system call of the server told: 0, or \<open>-1\<close> with its error
  number in \<open>errno\<close>; and the service is idle again.
\<close>

theorem access_file_mirrors_server:
  assumes "ready p" "length path < PATH_MAX" "fs_access fs path mode = e"
  shows "\<exists>p'. accessFile fs path mode p = Some (if e = 0 then 0 else - 1, p') \<and> z_errno p' = e \<and> ready p'"
proof -
  obtain sh where sh: "z_shared p = Some sh" "sh_state sh = STATE_IDLE" "z_always p \<or> z_zygotePid p = z_pid p"
      "isServiceAccessible p = (True, p)"
    using assms(1) by (rule readyE)
  with assms(2,3) show ?thesis
    by (cases "e = 0") (simp_all add: accessFile_def waitForIdle_def callService_def service_action_def
      access_action_def finish_def makeIdle_def ready_def Let_def)
qed

theorem access_file_mirrors_server_witness:
  "\<exists>p'. accessFile ((demo_fs 0 [])\<lparr>fs_access := \<lambda>_ _. ENOENT\<rparr>) ''/data/x'' 4 demo_zygote = Some (- 1, p') \<and> z_errno p' = ENOENT"
  using access_file_mirrors_server [of demo_zygote "''/data/x''" "(demo_fs 0 [])\<lparr>fs_access := \<lambda>_ _. ENOENT\<rparr>" 4 ENOENT]
  by (auto simp: ready_def demo_zygote_def demo_shared_def)

text \<open>
  C30 After the memory inheritance is restricted, a process forked from Zygote gets nothing out of the service:
  every operation fails with \<open>EPERM\<close>, and the process has lost the shared memory for good.
\<close>

theorem forked_process_is_refused:
  assumes "q = (restrictMemoryInheritance p)\<lparr>z_pid := child\<rparr>" "child \<noteq> z_zygotePid p"
    and "q' = q\<lparr>z_shared := None, z_errno := EPERM\<rparr>"
  shows "accessFile fs path mode q = Some (- 1, q') \<and> statFile fs path q = Some (- 1, None, q') \<and>
    readFile malloc fss path q = Some (Inr (None, 0, q'))"
  using assms by (simp add: accessFile_def statFile_def readFile_def isServiceAccessible_def restrictMemoryInheritance_def)

theorem forked_process_is_refused_witness:
  "accessFile (demo_fs 0 []) ''/x'' 0 ((restrictMemoryInheritance demo_zygote)\<lparr>z_pid := 56\<rparr>) =
    Some (- 1, (restrictMemoryInheritance demo_zygote)\<lparr>z_pid := 56, z_shared := None, z_errno := EPERM\<rparr>)"
  using forked_process_is_refused [OF refl _ refl, of 56 demo_zygote "demo_fs 0 []" "''/x''" 0] by (simp add: demo_zygote_def)

end
