(* ===== verification/XposedCommon.thy ===== *)
theory XposedCommon
  imports Client Membased
begin

text \<open>
  The part of the framework's native library that both runtimes share
  (\<open>src/Xposed-master/libxposed_common.cpp\<close>), and how the library for the Android runtime starts it
  (\<open>libxposed_art.cpp\<close>): initialisation, rewriting of resource references in binary XML, and file access through
  the memory-based service for Java code.

  The variables of the library are a record; the virtual machine is the one of \<open>Jni\<close>.
\<close>

abbreviation (input) CLASS_XPOSED_BRIDGE :: string where "CLASS_XPOSED_BRIDGE \<equiv> ''de/robv/android/xposed/XposedBridge''"
abbreviation (input) CLASS_XRESOURCES :: string where "CLASS_XRESOURCES \<equiv> ''android/content/res/XResources''"
abbreviation (input) CLASS_MIUI_RESOURCES :: string where "CLASS_MIUI_RESOURCES \<equiv> ''android/content/res/MiuiResources''"
abbreviation (input) CLASS_XTYPED_ARRAY :: string where "CLASS_XTYPED_ARRAY \<equiv> ''android/content/res/XResources$XTypedArray''"
abbreviation (input) CLASS_ZYGOTE_SERVICE :: string where "CLASS_ZYGOTE_SERVICE \<equiv> ''de/robv/android/xposed/services/ZygoteService''"
abbreviation (input) CLASS_FILE_RESULT :: string where "CLASS_FILE_RESULT \<equiv> ''de/robv/android/xposed/services/FileResult''"

abbreviation (input) JNI_OK :: jref where "JNI_OK \<equiv> 0"

section \<open>Variables\<close>

record library =
  xposedLoadedSuccessfully :: bool
  classXposedBridge :: jref
  classXResources :: jref
  classFileResult :: jref
  methodXResourcesTranslateResId :: jref
  methodXResourcesTranslateAttrId :: jref
  constructorFileResult :: jref

text \<open>Those of the library for the Android runtime, and the class that has been prepared for replacing its superclass.\<close>

record art_library = library +
  xposed_callback_class :: jref
  xposed_callback_method :: jref
  prepared_class :: jref

text \<open>
  \<open>readIntConfig\<close>: the text of the file, if it can be opened, and \<open>fscanf("%i")\<close>, which reads a number in
  decimal, octal or hexadecimal notation and is an argument.
\<close>

definition readIntConfig :: "(string \<Rightarrow> int option) \<Rightarrow> string option \<Rightarrow> int \<Rightarrow> int" where
  "readIntConfig scan file defaultValue =
     (case file of
        None \<Rightarrow> defaultValue
      | Some content \<Rightarrow> (case scan content of None \<Rightarrow> defaultValue | Some result \<Rightarrow> result))"

section \<open>Initialisation\<close>

text \<open>
  Every failing branch clears the exception.  Most of them log it before, which is the business of the library of the
  runtime: \<open>log\<close> tells whether that succeeds.  The library for the Android runtime dereferences the pending exception,
  so that the process crashes when there is none; a crash is the result \<open>None\<close>.
\<close>

definition just_clear :: "(jni, bool) state" where
  "just_clear = State (\<lambda>j. (True, j\<lparr>j_pending := False, j_log := j_log j @ [ExceptionClear]\<rparr>))"

definition log_clear :: "(jni, bool) state \<Rightarrow> (jni, bool) state" where
  "log_clear log = do { logged \<leftarrow> log; if logged then just_clear else State_Monad.return False }"

definition or_fail :: "bool \<Rightarrow> (jni, bool) state \<Rightarrow> 'a \<Rightarrow> (jni, 'a option) state \<Rightarrow> (jni, 'a option) state" where
  "or_fail ok clear failed continue =
     (if ok then continue
      else do { cleared \<leftarrow> clear; State_Monad.return (if cleared then Some failed else None) })"

definition register_natives_XposedBridge :: "bool \<Rightarrow> jref \<Rightarrow> (jni, jref) state" where
  "register_natives_XposedBridge art clazz =
     jni_call (Jni.RegisterNatives clazz
       ([''getStartClassName'', ''getRuntime'', ''startsSystemServer'', ''getXposedVersion'', ''initNative'', ''hookMethodNative''] @
        (if art then [''invokeOriginalMethodNative''] else []) @
        [''setObjectClassNative'', ''dumpObjectNative'', ''cloneToSubclassNative'']))"

definition register_natives_XResources :: "jref \<Rightarrow> (jni, jref) state" where
  "register_natives_XResources clazz = jni_call (Jni.RegisterNatives clazz [''rewriteXmlReferencesNative''])"

definition register_natives_ZygoteService :: "jref \<Rightarrow> (jni, jref) state" where
  "register_natives_ZygoteService clazz = jni_call (Jni.RegisterNatives clazz [''checkFileAccess'', ''statFile'', ''readFile''])"

text \<open>
  \<open>XposedBridge_initNative\<close>; the callback of the library of the runtime is an argument.  The references are
  stored as they are found, also when a later step fails.
\<close>

definition init_FileResult :: "(jni, bool) state \<Rightarrow> 'a library_scheme \<Rightarrow> (jni, (bool \<times> 'a library_scheme) option) state" where
  "init_FileResult log L = do {
     f \<leftarrow> jni_call (FindClass CLASS_FILE_RESULT);
     fr \<leftarrow> jni_call (NewGlobalRef f);
     let L1 = L\<lparr>classFileResult := fr\<rparr>;
     or_fail (fr \<noteq> NULL) (log_clear log) (False, L1) (do {
       ctor \<leftarrow> jni_call (GetMethodID fr ''<init>'' ''(JJ)V'');
       let L2 = L1\<lparr>constructorFileResult := ctor\<rparr>;
       or_fail (ctor \<noteq> NULL) (log_clear log) (False, L2) (State_Monad.return (Some (True, L2))) }) }"

definition init_ZygoteService :: "(jni, bool) state \<Rightarrow> 'a library_scheme \<Rightarrow> (jni, (bool \<times> 'a library_scheme) option) state" where
  "init_ZygoteService log L = do {
     zygoteServiceClass \<leftarrow> jni_call (FindClass CLASS_ZYGOTE_SERVICE);
     or_fail (zygoteServiceClass \<noteq> NULL) (log_clear log) (False, L) (do {
       r \<leftarrow> register_natives_ZygoteService zygoteServiceClass;
       or_fail (r = JNI_OK) just_clear (False, L) (init_FileResult log L) }) }"

definition init_XResources :: "(jni, bool) state \<Rightarrow> 'a library_scheme \<Rightarrow> (jni, (bool \<times> 'a library_scheme) option) state" where
  "init_XResources log L = do {
     c \<leftarrow> jni_call (FindClass CLASS_XRESOURCES);
     xres \<leftarrow> jni_call (NewGlobalRef c);
     let L1 = L\<lparr>classXResources := xres\<rparr>;
     or_fail (xres \<noteq> NULL) (log_clear log) (False, L1) (do {
       r \<leftarrow> register_natives_XResources xres;
       or_fail (r = JNI_OK) just_clear (False, L1) (do {
         res \<leftarrow> jni_call (GetStaticMethodID xres ''translateResId''
           ''(ILandroid/content/res/XResources;Landroid/content/res/Resources;)I'');
         let L2 = L1\<lparr>methodXResourcesTranslateResId := res\<rparr>;
         or_fail (res \<noteq> NULL) (log_clear log) (False, L2) (do {
           att \<leftarrow> jni_call (GetStaticMethodID xres ''translateAttrId'' ''(Ljava/lang/String;Landroid/content/res/XResources;)I'');
           let L3 = L2\<lparr>methodXResourcesTranslateAttrId := att\<rparr>;
           or_fail (att \<noteq> NULL) (log_clear log) (False, L3) (init_ZygoteService log L3) }) }) }) }"

definition initNative ::
    "(jni, bool) state \<Rightarrow> ('a library_scheme \<Rightarrow> (jni, (bool \<times> 'a library_scheme) option) state) \<Rightarrow> 'a library_scheme \<Rightarrow>
       (jni, (bool \<times> 'a library_scheme) option) state" where
  "initNative log callback_XposedBridge_initNative L =
     (if \<not> xposedLoadedSuccessfully L then State_Monad.return (Some (False, L))
      else do {
        r \<leftarrow> callback_XposedBridge_initNative L;
        case r of
          None \<Rightarrow> State_Monad.return None
        | Some (ok, L1) \<Rightarrow> if \<not> ok then State_Monad.return (Some (False, L1)) else init_XResources log L1 })"

section \<open>The library for the Android runtime\<close>

definition HANDLER_SIGNATURE :: string where
  "HANDLER_SIGNATURE = ''(Ljava/lang/reflect/Member;ILjava/lang/Object;Ljava/lang/Object;[Ljava/lang/Object;)Ljava/lang/Object;''"

text \<open>The methods of a null exception are called.\<close>

definition logExceptionStackTrace_art :: "(jni, bool) state" where
  "logExceptionStackTrace_art = jni_pending"

definition callback_art :: "art_library \<Rightarrow> (jni, (bool \<times> art_library) option) state" where
  "callback_art L = do {
     m \<leftarrow> jni_call (GetStaticMethodID (classXposedBridge L) ''handleHookedMethod'' HANDLER_SIGNATURE);
     let L1 = L\<lparr>xposed_callback_method := m\<rparr>;
     or_fail (m \<noteq> NULL) (log_clear logExceptionStackTrace_art) (False, L1) (State_Monad.return (Some (True, L1))) }"

text \<open>
  \<open>onVmCreated\<close>: what \<open>NewGlobalRef\<close> returns is not checked.  When the native methods cannot be registered, the message
  of the exception is logged, which is assumed to have one.
\<close>

definition onVmCreated_art :: "art_library \<Rightarrow> (jni, art_library option) state" where
  "onVmCreated_art L = do {
     t \<leftarrow> jni_call (FindClass CLASS_XTYPED_ARRAY);
     or_fail (t \<noteq> NULL) (log_clear logExceptionStackTrace_art) L (do {
       let L1 = L\<lparr>prepared_class := t\<rparr>;
       c \<leftarrow> jni_call (FindClass CLASS_XPOSED_BRIDGE);
       or_fail (c \<noteq> NULL) (log_clear logExceptionStackTrace_art) (L1\<lparr>classXposedBridge := c\<rparr>) (do {
         b \<leftarrow> jni_call (NewGlobalRef c);
         let L2 = L1\<lparr>classXposedBridge := b, xposed_callback_class := b\<rparr>;
         r \<leftarrow> register_natives_XposedBridge True b;
         or_fail (r = JNI_OK) (log_clear jni_pending) L2 (State_Monad.return (Some (L2\<lparr>xposedLoadedSuccessfully := True\<rparr>))) }) }) }"

section \<open>Failures leave no exception\<close>

text \<open>Code that has no exception pending when it crashes and when its result is not \<open>P\<close>, and what code returns if it returns.\<close>

definition clean_unless :: "('a \<Rightarrow> bool) \<Rightarrow> (jni, 'a option) state \<Rightarrow> bool" where
  "clean_unless P m \<longleftrightarrow>
     (\<forall>j. (case fst (run_state m j) of None \<Rightarrow> True | Some x \<Rightarrow> \<not> P x) \<longrightarrow> \<not> j_pending (snd (run_state m j)))"

definition yields :: "('a \<Rightarrow> bool) \<Rightarrow> (jni, 'a option) state \<Rightarrow> bool" where
  "yields P m \<longleftrightarrow> (\<forall>j x. fst (run_state m j) = Some x \<longrightarrow> P x)"

text \<open>Logging fails only where there is no exception.\<close>

definition fails_clean :: "(jni, bool) state \<Rightarrow> bool" where
  "fails_clean log \<longleftrightarrow> (\<forall>j. \<not> fst (run_state log j) \<longrightarrow> \<not> j_pending (snd (run_state log j)))"

named_theorems clean_intros \<open>rules for code that fails without a pending exception\<close>
named_theorems yields_intros \<open>rules for what code returns\<close>

lemma clean_unless_bind [clean_intros]: "(\<And>x. clean_unless P (f x)) \<Longrightarrow> clean_unless P (State_Monad.bind m f)"
  by (auto simp: clean_unless_def split: prod.splits)

lemma clean_unless_return [clean_intros]: "P x \<Longrightarrow> clean_unless P (State_Monad.return (Some x))"
  by (simp add: clean_unless_def)

lemma clean_unless_or_fail [clean_intros]:
  "fails_clean log \<Longrightarrow> (ok \<Longrightarrow> clean_unless P k) \<Longrightarrow> clean_unless P (or_fail ok (log_clear log) failed k)"
  "(ok \<Longrightarrow> clean_unless P k) \<Longrightarrow> clean_unless P (or_fail ok just_clear failed k)"
  by (auto simp: clean_unless_def or_fail_def just_clear_def log_clear_def fails_clean_def split: prod.splits if_splits)
    (metis fst_conv snd_conv)

lemma clean_unless_let [clean_intros]: "(\<And>x. x = e \<Longrightarrow> clean_unless P (f x)) \<Longrightarrow> clean_unless P (let x = e in f x)"
  by simp

lemma fails_clean_pending [clean_intros]: "fails_clean jni_pending" "fails_clean logExceptionStackTrace_art"
  by (simp_all add: fails_clean_def logExceptionStackTrace_art_def)

lemma yields_bind [yields_intros]: "(\<And>x. yields P (f x)) \<Longrightarrow> yields P (State_Monad.bind m f)"
  by (auto simp: yields_def split: prod.splits)

lemma yields_return [yields_intros]: "P x \<Longrightarrow> yields P (State_Monad.return (Some x))"
  by (simp add: yields_def)

lemma yields_or_fail [yields_intros]: "(ok \<Longrightarrow> yields P k) \<Longrightarrow> (\<not> ok \<Longrightarrow> P failed) \<Longrightarrow> yields P (or_fail ok clear failed k)"
  by (auto simp: yields_def or_fail_def split: prod.splits if_splits)

lemma yields_let [yields_intros]: "(\<And>x. x = e \<Longrightarrow> yields P (f x)) \<Longrightarrow> yields P (let x = e in f x)"
  by simp

lemma clean_unlessD:
  "clean_unless P m \<Longrightarrow> run_state m j = (r, j') \<Longrightarrow> (case r of None \<Rightarrow> True | Some x \<Rightarrow> \<not> P x) \<Longrightarrow> \<not> j_pending j'"
  unfolding clean_unless_def by (metis fst_conv snd_conv)

lemma yieldsD: "yields P m \<Longrightarrow> run_state m j = (Some x, j') \<Longrightarrow> P x"
  unfolding yields_def by (metis fst_conv)

text \<open>All references that \<open>initNative\<close> looks up are there.\<close>

definition complete :: "'a library_scheme \<Rightarrow> bool" where
  "complete L \<longleftrightarrow> classXResources L \<noteq> NULL \<and> methodXResourcesTranslateResId L \<noteq> NULL \<and>
     methodXResourcesTranslateAttrId L \<noteq> NULL \<and> classFileResult L \<noteq> NULL \<and> constructorFileResult L \<noteq> NULL"

lemma init_clean:
  assumes "fails_clean log"
  shows "clean_unless fst (init_FileResult log L)" "clean_unless fst (init_ZygoteService log L)" "clean_unless fst (init_XResources log L)"
  unfolding init_XResources_def init_ZygoteService_def init_FileResult_def by (intro clean_intros assms; simp)+

lemma init_complete:
  "yields (\<lambda>(ok, L'). ok \<longrightarrow> complete L' \<and> classXposedBridge L' = classXposedBridge L \<and> library.more L' = library.more L) (init_XResources log L)"
  unfolding init_XResources_def init_ZygoteService_def init_FileResult_def
  by (intro yields_intros) (auto simp: complete_def)

text \<open>What the library of a runtime promises of its callback and of logging, and what the common part makes of it.\<close>

locale runtime_library =
  fixes log :: "(jni, bool) state" and callback :: "'a library_scheme \<Rightarrow> (jni, (bool \<times> 'a library_scheme) option) state"
    and found :: "'a library_scheme \<Rightarrow> 'a library_scheme \<Rightarrow> bool"
  assumes log_clean: "fails_clean log"
    and callback_clean: "clean_unless fst (callback L)"
    and callback_found: "yields (\<lambda>(ok, L'). ok \<longrightarrow> found L L') (callback L)"
    and found_own: "found L L1 \<Longrightarrow> classXposedBridge L' = classXposedBridge L1 \<Longrightarrow> library.more L' = library.more L1 \<Longrightarrow> found L L'"
begin

lemma initNative_run:
  assumes "xposedLoadedSuccessfully L" "run_state (callback L) j = (r, j1)"
  shows "run_state (initNative log callback L) j =
    (case r of None \<Rightarrow> (None, j1) | Some (ok, L1) \<Rightarrow> if ok then run_state (init_XResources log L1) j1 else (Some (False, L1), j1))"
  using assms by (auto simp: initNative_def split: option.splits)

lemma initNative_fails_clean:
  assumes "\<not> j_pending j" "run_state (initNative log callback L) j = (r, j')" "case r of None \<Rightarrow> True | Some (ok, L') \<Rightarrow> \<not> ok"
  shows "\<not> j_pending j'"
proof (cases "xposedLoadedSuccessfully L")
  case True
  obtain c j1 where c: "run_state (callback L) j = (c, j1)" by (metis surj_pair)
  note run = assms(2) [unfolded initNative_run [OF True c]]
  have failed: "case r of None \<Rightarrow> True | Some x \<Rightarrow> \<not> fst x" using assms(3) by (auto split: option.splits)
  show ?thesis
  proof (cases "\<exists>L1. c = Some (True, L1)")
    case True
    then obtain L1 where "run_state (init_XResources log L1) j1 = (r, j')" using run by auto
    from clean_unlessD [OF init_clean(3) [OF log_clean] this failed] show ?thesis .
  next
    case False
    then have "j' = j1" using run by (auto split: option.splits if_splits)
    moreover have "case c of None \<Rightarrow> True | Some x \<Rightarrow> \<not> fst x" using False by (auto split: option.splits)
    ultimately show ?thesis using clean_unlessD [OF callback_clean c] by simp
  qed
qed (use assms in \<open>simp add: initNative_def\<close>)

lemma initNative_complete:
  assumes "run_state (initNative log callback L) j = (Some (True, L'), j')"
  shows "xposedLoadedSuccessfully L \<and> complete L' \<and> found L L'"
proof -
  have l: "xposedLoadedSuccessfully L" using assms by (auto simp: initNative_def split: if_splits)
  obtain c j1 where c: "run_state (callback L) j = (c, j1)" by (metis surj_pair)
  note run = assms [unfolded initNative_run [OF l c]]
  obtain L1 where L1: "c = Some (True, L1)" and i: "run_state (init_XResources log L1) j1 = (Some (True, L'), j')"
    using run by (auto split: option.splits if_splits)
  have "found L L1" using yieldsD [OF callback_found c [unfolded L1]] by simp
  with yieldsD [OF init_complete i] l show ?thesis using found_own [of L L1 L'] by simp
qed

end

interpretation art: runtime_library logExceptionStackTrace_art callback_art
  "\<lambda>L L'. xposed_callback_method L' \<noteq> NULL \<and> classXposedBridge L' = classXposedBridge L \<and> xposed_callback_class L' = xposed_callback_class L"
proof unfold_locales
  show "fails_clean logExceptionStackTrace_art" by (rule clean_intros)
  show "clean_unless fst (callback_art L)" for L unfolding callback_art_def by (intro clean_intros) simp
  show "yields (\<lambda>(ok, L'). ok \<longrightarrow> xposed_callback_method L' \<noteq> NULL \<and> classXposedBridge L' = classXposedBridge L \<and>
      xposed_callback_class L' = xposed_callback_class L) (callback_art L)" for L
    unfolding callback_art_def by (intro yields_intros) auto
  show "xposed_callback_method L' \<noteq> NULL \<and> classXposedBridge L' = classXposedBridge L \<and> xposed_callback_class L' = xposed_callback_class L"
    if "xposed_callback_method L1 \<noteq> NULL \<and> classXposedBridge L1 = classXposedBridge L \<and> xposed_callback_class L1 = xposed_callback_class L"
      "classXposedBridge L' = classXposedBridge L1" "library.more L' = library.more L1" for L L1 L' :: art_library
    using that by (cases L1; cases L') (simp add: art_library.defs)
qed

lemma onVmCreated_clean: "clean_unless xposedLoadedSuccessfully (onVmCreated_art L)"
  unfolding onVmCreated_art_def register_natives_XposedBridge_def by (intro clean_intros) simp

lemma onVmCreated_prepared:
  assumes "\<not> xposedLoadedSuccessfully L"
  shows "yields (\<lambda>L'. xposedLoadedSuccessfully L' \<longrightarrow> prepared_class L' \<noteq> NULL \<and> xposed_callback_class L' = classXposedBridge L') (onVmCreated_art L)"
  unfolding onVmCreated_art_def register_natives_XposedBridge_def by (intro yields_intros) (use assms in auto)

text \<open>
  C39 Whatever calls of the virtual machine fail during the start of the native library for the Android runtime, no Java
  exception is left pending: neither by \<open>onVmCreated\<close>, after which the framework is then not marked as loaded,
  nor by \<open>initNative\<close>, which then returns false.  Both return, or crash where a call has failed without an
  exception.  If \<open>initNative\<close> succeeds, the class for typed arrays has been prepared, the classes, methods and the
  constructor that \<open>initNative\<close> and its callback look up are not null, and the class of the callback is the class of the
  framework that \<open>onVmCreated\<close> has stored; that class itself is what \<open>NewGlobalRef\<close> has returned and may be null.
\<close>

theorem native_start_is_clean:
  assumes "\<not> xposedLoadedSuccessfully L" "run_state (onVmCreated_art L) j = (v, j1)"
  shows "(case v of None \<Rightarrow> \<not> j_pending j1 | Some L1 \<Rightarrow> xposedLoadedSuccessfully L1 \<or> \<not> j_pending j1) \<and>
    (v = Some L1 \<and> \<not> j_pending j2 \<and> run_state (initNative logExceptionStackTrace_art callback_art L1) j2 = (r, j3) \<longrightarrow>
      (case r of
         None \<Rightarrow> \<not> j_pending j3
       | Some (False, L2) \<Rightarrow> \<not> j_pending j3
       | Some (True, L2) \<Rightarrow>
           xposedLoadedSuccessfully L1 \<and> prepared_class L1 \<noteq> NULL \<and> complete L2 \<and> xposed_callback_method L2 \<noteq> NULL \<and>
           classXposedBridge L2 = classXposedBridge L1 \<and> xposed_callback_class L2 = classXposedBridge L1))"
proof (intro conjI impI)
  show "case v of None \<Rightarrow> \<not> j_pending j1 | Some L1 \<Rightarrow> xposedLoadedSuccessfully L1 \<or> \<not> j_pending j1"
    using clean_unlessD [OF onVmCreated_clean assms(2)] by (auto split: option.splits)
next
  assume a: "v = Some L1 \<and> \<not> j_pending j2 \<and> run_state (initNative logExceptionStackTrace_art callback_art L1) j2 = (r, j3)"
  have p: "xposedLoadedSuccessfully L1 \<longrightarrow> prepared_class L1 \<noteq> NULL \<and> xposed_callback_class L1 = classXposedBridge L1"
    using yieldsD [OF onVmCreated_prepared [OF assms(1)]] assms(2) a by blast
  show "case r of None \<Rightarrow> \<not> j_pending j3 | Some (False, L2) \<Rightarrow> \<not> j_pending j3
    | Some (True, L2) \<Rightarrow> xposedLoadedSuccessfully L1 \<and> prepared_class L1 \<noteq> NULL \<and> complete L2 \<and> xposed_callback_method L2 \<noteq> NULL \<and>
        classXposedBridge L2 = classXposedBridge L1 \<and> xposed_callback_class L2 = classXposedBridge L1"
  proof (cases "\<exists>L2. r = Some (True, L2)")
    case True
    then obtain L2 where L2: "r = Some (True, L2)" by blast
    from art.initNative_complete [OF a [THEN conjunct2, THEN conjunct2, unfolded L2]] p show ?thesis unfolding L2 by simp
  next
    case False
    then have "case r of None \<Rightarrow> True | Some (ok, L') \<Rightarrow> \<not> ok" by (auto split: option.splits)
    from art.initNative_fails_clean [OF _ _ this] a have "\<not> j_pending j3" by blast
    with False show ?thesis by (simp split: option.split prod.split bool.split)
  qed
qed

definition demo_library :: art_library where
  "demo_library = \<lparr>xposedLoadedSuccessfully = False, classXposedBridge = 0, classXResources = 0, classFileResult = 0,
     methodXResourcesTranslateResId = 0, methodXResourcesTranslateAttrId = 0, constructorFileResult = 0,
     xposed_callback_class = 0, xposed_callback_method = 0, prepared_class = 0\<rparr>"

definition demo_machine :: "(jref \<times> bool) list \<Rightarrow> jni" where
  "demo_machine script = \<lparr>j_pending = False, j_script = script, j_log = []\<rparr>"

lemmas native_start_defs = onVmCreated_art_def initNative_def callback_art_def init_XResources_def init_ZygoteService_def
  init_FileResult_def or_fail_def log_clear_def just_clear_def logExceptionStackTrace_art_def register_natives_XposedBridge_def
  register_natives_XResources_def register_natives_ZygoteService_def jni_call_def Let_def demo_machine_def

theorem native_start_is_clean_witness:
  "\<exists>L1 j1 L2 j3. run_state (onVmCreated_art demo_library) (demo_machine [(7, False), (8, False), (9, False), (0, False)]) = (Some L1, j1) \<and>
     run_state (initNative logExceptionStackTrace_art callback_art L1)
       (demo_machine [(3, False), (4, False), (5, False), (0, False), (6, False), (7, False), (8, False), (0, False)]) = (Some (True, L2), j3) \<and>
     complete L2 \<and> xposed_callback_class L2 = classXposedBridge L1"
proof -
  let ?j = "demo_machine [(7, False), (8, False), (9, False), (0, False)]"
    and ?j2 = "demo_machine [(3, False), (4, False), (5, False), (0, False), (6, False), (7, False), (8, False), (0, False)]"
  obtain L1 j1 where v: "run_state (onVmCreated_art demo_library) ?j = (Some L1, j1)" "xposedLoadedSuccessfully L1"
    by (simp add: native_start_defs)
  obtain L2 j3 where i: "run_state (initNative logExceptionStackTrace_art callback_art L1) ?j2 = (Some (True, L2), j3)"
    using v(2) by (simp add: native_start_defs)
  have "\<not> xposedLoadedSuccessfully demo_library" "\<not> j_pending ?j2" by (simp_all add: demo_library_def demo_machine_def)
  from native_start_is_clean [OF this(1) v(1), of L1 ?j2 "Some (True, L2)" j3] this(2) v i show ?thesis by auto
qed

text \<open>The start succeeds although \<open>NewGlobalRef\<close> has returned NULL, and the hooks then have no class to call.\<close>

lemma null_bridge_class_accepted:
  "\<exists>L1 j1 L2 j3. run_state (onVmCreated_art demo_library) (demo_machine [(7, False), (8, False), (0, False), (0, False)]) = (Some L1, j1) \<and>
     run_state (initNative logExceptionStackTrace_art callback_art L1)
       (demo_machine [(3, False), (4, False), (5, False), (0, False), (6, False), (7, False), (8, False), (0, False)]) = (Some (True, L2), j3) \<and>
     xposed_callback_class L2 = NULL"
  by (simp add: native_start_defs)

text \<open>A class that is not found without an exception crashes the process.\<close>

lemma failure_without_exception_crashes:
  "fst (run_state (onVmCreated_art L) (demo_machine [(NULL, False)])) = None"
  by (simp add: native_start_defs)

section \<open>Binary XML\<close>

text \<open>
  The parser hands out the elements of a document from its position on, until it reports the end or a bad document;
  an attribute has the index of its name in the table of strings, a type and a value.  \<open>rp_resIds\<close> is the table of
  resource identifiers of the attribute names.  What the Java methods return for a name and for an identifier is an
  argument; \<open>None\<close> is an exception.
\<close>

record ResXMLTree_attribute =
  at_nameID :: int
  at_dataType :: nat
  at_data :: u32

abbreviation (input) TYPE_REFERENCE :: nat where "TYPE_REFERENCE \<equiv> 1"

datatype element = START_TAG "ResXMLTree_attribute list" | END_DOCUMENT | BAD_DOCUMENT | Other_element

record ResXMLParser =
  rp_elements :: "element list"
  rp_pos :: nat
  rp_resIds :: "u32 list"

record translator =
  translateAttrId :: "string \<Rightarrow> u32 option"
  translateResId :: "u32 \<Rightarrow> u32 option"

text \<open>Names are compared as unsigned, values as signed numbers.\<close>

definition app_name :: "u32 list \<Rightarrow> int \<Rightarrow> bool" where
  "app_name mResIds nameID \<longleftrightarrow> nameID \<ge> 0 \<and> nat nameID < length mResIds \<and> mResIds ! nat nameID \<ge> 0x7f000000"

definition app_value :: "ResXMLTree_attribute \<Rightarrow> bool" where
  "app_value a \<longleftrightarrow> at_dataType a = TYPE_REFERENCE \<and> \<not> at_data a <s 0x7f000000"

text \<open>One attribute: the table of identifiers, the attribute, and whether a method threw.\<close>

definition rewrite_attribute ::
    "translator \<Rightarrow> (nat \<Rightarrow> string) \<Rightarrow> u32 list \<Rightarrow> ResXMLTree_attribute \<Rightarrow> u32 list \<times> ResXMLTree_attribute \<times> bool" where
  "rewrite_attribute T stringAt mResIds a =
     (case (if app_name mResIds (at_nameID a)
            then map_option (\<lambda>r. mResIds[nat (at_nameID a) := r]) (translateAttrId T (stringAt (nat (at_nameID a))))
            else Some mResIds) of
        None \<Rightarrow> (mResIds, a, True)
      | Some mResIds1 \<Rightarrow>
          if \<not> app_value a then (mResIds1, a, False)
          else case translateResId T (at_data a) of
                 None \<Rightarrow> (mResIds1, a, True)
               | Some newValue \<Rightarrow> (mResIds1, if newValue \<noteq> at_data a then a\<lparr>at_data := newValue\<rparr> else a, False))"

fun rewrite_attributes ::
    "translator \<Rightarrow> (nat \<Rightarrow> string) \<Rightarrow> u32 list \<Rightarrow> ResXMLTree_attribute list \<Rightarrow> u32 list \<times> ResXMLTree_attribute list \<times> bool" where
  "rewrite_attributes T stringAt mResIds [] = (mResIds, [], False)"
| "rewrite_attributes T stringAt mResIds (a # as) =
     (case rewrite_attribute T stringAt mResIds a of
        (r, a1, True) \<Rightarrow> (r, a1 # as, True)
      | (r, a1, False) \<Rightarrow> (case rewrite_attributes T stringAt r as of (r1, as1, threw) \<Rightarrow> (r1, a1 # as1, threw)))"

fun rewrite_elements ::
    "translator \<Rightarrow> (nat \<Rightarrow> string) \<Rightarrow> u32 list \<Rightarrow> element list \<Rightarrow> u32 list \<times> element list \<times> bool" where
  "rewrite_elements T stringAt mResIds [] = (mResIds, [], False)"
| "rewrite_elements T stringAt mResIds (START_TAG as # es) =
     (case rewrite_attributes T stringAt mResIds as of
        (r, as1, True) \<Rightarrow> (r, START_TAG as1 # es, True)
      | (r, as1, False) \<Rightarrow> (case rewrite_elements T stringAt r es of (r1, es1, threw) \<Rightarrow> (r1, START_TAG as1 # es1, threw)))"
| "rewrite_elements T stringAt mResIds (END_DOCUMENT # es) = (mResIds, END_DOCUMENT # es, False)"
| "rewrite_elements T stringAt mResIds (BAD_DOCUMENT # es) = (mResIds, BAD_DOCUMENT # es, False)"
| "rewrite_elements T stringAt mResIds (Other_element # es) =
     (case rewrite_elements T stringAt mResIds es of (r, es1, threw) \<Rightarrow> (r, Other_element # es1, threw))"

text \<open>
  \<open>XResources_rewriteXmlReferencesNative\<close>: the tree is read through the pointer before it is compared with NULL, so
  that there is no result for a null pointer.  In the end the parser is back at the start; the flag tells whether an
  exception is pending.
\<close>

definition rewriteXmlReferencesNative ::
    "translator \<Rightarrow> (nat \<Rightarrow> string) \<Rightarrow> ResXMLParser option \<Rightarrow> (ResXMLParser \<times> bool) option" where
  "rewriteXmlReferencesNative T stringAt parser =
     (case parser of
        None \<Rightarrow> None
      | Some p \<Rightarrow>
          (case rewrite_elements T stringAt (rp_resIds p) (drop (rp_pos p) (rp_elements p)) of
             (r, es, threw) \<Rightarrow>
               Some (p\<lparr>rp_resIds := r, rp_elements := take (rp_pos p) (rp_elements p) @ es, rp_pos := 0\<rparr>, threw)))"


text \<open>What the rewriting is for: the table of identifiers and the elements as functions of the translations.\<close>

definition translated_value :: "(u32 \<Rightarrow> u32) \<Rightarrow> ResXMLTree_attribute \<Rightarrow> ResXMLTree_attribute" where
  "translated_value tr a = (if app_value a then a\<lparr>at_data := tr (at_data a)\<rparr> else a)"

definition tag_attributes :: "element list \<Rightarrow> ResXMLTree_attribute list" where
  "tag_attributes es = concat (map (\<lambda>e. case e of START_TAG as \<Rightarrow> as | _ \<Rightarrow> []) es)"

definition translated_ids :: "(string \<Rightarrow> u32) \<Rightarrow> (nat \<Rightarrow> string) \<Rightarrow> ResXMLTree_attribute list \<Rightarrow> u32 list \<Rightarrow> u32 list" where
  "translated_ids ta stringAt as ids =
     map (\<lambda>i. if ids ! i \<ge> 0x7f000000 \<and> int i \<in> at_nameID ` set as then ta (stringAt i) else ids ! i) [0..<length ids]"

fun translated_element :: "(u32 \<Rightarrow> u32) \<Rightarrow> element \<Rightarrow> element" where
  "translated_element tr (START_TAG as) = START_TAG (map (translated_value tr) as)"
| "translated_element tr e = e"

definition in_document :: "element \<Rightarrow> bool" where
  "in_document e \<longleftrightarrow> e \<noteq> END_DOCUMENT \<and> e \<noteq> BAD_DOCUMENT"

lemma length_translated_ids [simp]: "length (translated_ids ta stringAt as ids) = length ids"
  by (simp add: translated_ids_def)

lemma translated_ids_Nil [simp]: "translated_ids ta stringAt [] ids = ids"
  by (simp add: translated_ids_def map_nth)

lemma translated_ids_append:
  "translated_ids ta stringAt bs (translated_ids ta stringAt as ids) = translated_ids ta stringAt (as @ bs) ids"
  by (auto simp: translated_ids_def intro!: nth_equalityI)

lemma rewrite_attribute_translates:
  assumes "\<And>n. translateAttrId T n = Some (ta n)" "\<And>v. translateResId T v = Some (tr v)"
  shows "rewrite_attribute T stringAt ids a = (translated_ids ta stringAt [a] ids, translated_value tr a, False)"
proof -
  have "translated_ids ta stringAt [a] ids =
      (if app_name ids (at_nameID a) then ids[nat (at_nameID a) := ta (stringAt (nat (at_nameID a)))] else ids)"
  proof (cases "at_nameID a \<ge> 0")
    case True
    then obtain k where "at_nameID a = int k" by (rule nonneg_int_cases)
    then show ?thesis by (auto simp: translated_ids_def app_name_def nth_list_update intro!: nth_equalityI)
  qed (auto simp: translated_ids_def app_name_def intro!: nth_equalityI)
  then show ?thesis using assms by (auto simp: rewrite_attribute_def translated_value_def)
qed

lemma rewrite_attributes_translates:
  assumes "\<And>n. translateAttrId T n = Some (ta n)" "\<And>v. translateResId T v = Some (tr v)"
  shows "rewrite_attributes T stringAt ids as = (translated_ids ta stringAt as ids, map (translated_value tr) as, False)"
  by (induction as arbitrary: ids)
    (simp_all add: rewrite_attribute_translates [OF assms] translated_ids_append)

lemma rewrite_elements_translates:
  assumes "\<And>n. translateAttrId T n = Some (ta n)" "\<And>v. translateResId T v = Some (tr v)"
  shows "rewrite_elements T stringAt ids es =
    (translated_ids ta stringAt (tag_attributes (takeWhile in_document es)) ids,
     map (translated_element tr) (takeWhile in_document es) @ dropWhile in_document es, False)"
proof (induction es arbitrary: ids)
  case Nil
  show ?case by (simp add: tag_attributes_def)
next
  case (Cons e es)
  then show ?case
    by (cases e) (simp_all add: rewrite_attributes_translates [OF assms] translated_ids_append in_document_def tag_attributes_def)
qed

text \<open>
  C40 The rewriting of binary XML does what it is for.  When the Java methods throw no exception, it replaces, in the
  elements from the position of the parser to the end of the document, the value of every attribute that is a
  reference into an application package (as a signed number) by its translation, and in the table of identifiers
  that of every attribute name used there which belongs to an application package; everything else stays as it is,
  names that occur several times included, and the parser is back at the start.
\<close>

theorem xml_references_translated:
  assumes "\<And>n. translateAttrId T n = Some (ta n)" "\<And>v. translateResId T v = Some (tr v)"
    and "es = takeWhile in_document (drop (rp_pos p) (rp_elements p))"
  shows "rewriteXmlReferencesNative T stringAt (Some p) =
    Some (p\<lparr>rp_resIds := translated_ids ta stringAt (tag_attributes es) (rp_resIds p),
            rp_elements := take (rp_pos p) (rp_elements p) @ map (translated_element tr) es @ drop (rp_pos p + length es) (rp_elements p),
            rp_pos := 0\<rparr>, False)"
proof -
  have "dropWhile in_document (drop (rp_pos p) (rp_elements p)) = drop (rp_pos p + length es) (rp_elements p)"
    unfolding assms(3) by (simp add: dropWhile_eq_drop add.commute)
  then show ?thesis
    by (simp add: rewriteXmlReferencesNative_def rewrite_elements_translates [OF assms(1,2)] assms(3))
qed

theorem xml_references_translated_witness:
  "rewriteXmlReferencesNative \<lparr>translateAttrId = \<lambda>n. Some (if n = ''size'' then 0x7f010099 else 0), translateResId = \<lambda>v. Some (v + 1)\<rparr>
     (\<lambda>i. [''id'', ''size''] ! i)
     (Some \<lparr>rp_elements = [Other_element, START_TAG [\<lparr>at_nameID = 1, at_dataType = 1, at_data = 0x7f020003\<rparr>, \<lparr>at_nameID = 0, at_dataType = 1, at_data = 0x01020003\<rparr>],
                           END_DOCUMENT], rp_pos = 1, rp_resIds = [0x01010001, 0x7f010001]\<rparr>) =
   Some (\<lparr>rp_elements = [Other_element, START_TAG [\<lparr>at_nameID = 1, at_dataType = 1, at_data = 0x7f020004\<rparr>, \<lparr>at_nameID = 0, at_dataType = 1, at_data = 0x01020003\<rparr>],
                         END_DOCUMENT], rp_pos = 0, rp_resIds = [0x01010001, 0x7f010099]\<rparr>, False)"
  by (subst xml_references_translated [where ta = "\<lambda>n. if n = ''size'' then 0x7f010099 else 0" and tr = "\<lambda>v. v + 1", OF _ _ refl])
    (simp_all add: in_document_def translated_ids_def tag_attributes_def translated_value_def app_value_def word_sless_alt upt_rec)


section \<open>Files for Java code\<close>

datatype java_io = FileNotFoundException | IOException int

definition io_exception :: "int \<Rightarrow> java_io" where
  "io_exception errno = (if errno = ENOENT then FileNotFoundException else IOException errno)"

definition ZygoteService_checkFileAccess :: "fsys \<Rightarrow> string \<Rightarrow> int \<Rightarrow> zproc \<Rightarrow> (bool \<times> zproc) option" where
  "ZygoteService_checkFileAccess fs filename mode p = map_option (\<lambda>(r, p1). (r = 0, p1)) (accessFile fs filename mode p)"

text \<open>The size and the time of the \<open>FileResult\<close>, or an exception.\<close>

definition ZygoteService_statFile :: "fsys \<Rightarrow> string \<Rightarrow> zproc \<Rightarrow> ((java_io + int \<times> int) \<times> zproc) option" where
  "ZygoteService_statFile fs filename p =
     map_option (\<lambda>(result, st, p1).
         (case st of
            None \<Rightarrow> Inl (io_exception (z_errno p1))
          | Some b \<Rightarrow> if result \<noteq> 0 then Inl (io_exception (z_errno p1)) else Inr (st_size b, st_mtime b), p1))
       (statFile fs filename p)"

text \<open>\<open>array\<close>: the byte array can be allocated; \<open>critical\<close>: its bytes, which are 0 at first, can be reached.\<close>

definition ZygoteService_readFile ::
    "(nat \<Rightarrow> bool) \<Rightarrow> (nat \<Rightarrow> fsys) \<Rightarrow> bool \<Rightarrow> bool \<Rightarrow> string \<Rightarrow> zproc \<Rightarrow> (overrun + (java_io + byte list option) \<times> zproc) option" where
  "ZygoteService_readFile malloc fs array critical filename p =
     map_option
       (map_sum id (\<lambda>(content, bytesRead, p1).
          (case content of
             None \<Rightarrow> Inl (io_exception (z_errno p1))
           | Some bytes \<Rightarrow> Inr (if \<not> array then None else Some (if critical then take bytesRead bytes else replicate bytesRead 0)), p1)))
       (readFile malloc fs filename p)"

text \<open>In the process that may use the service, Java code gets exactly the bytes of the file.\<close>

lemma java_reads_file:
  assumes "ready p" "length path < PATH_MAX" "\<And>i. readable (fs i) path c" "int (length c) < INT_MAX" "malloc (length c + 1)"
  shows "\<exists>p1. ZygoteService_readFile malloc fs True True path p = Some (Inr (Inr (Some c), p1)) \<and> ready p1"
proof -
  obtain p1 where "readFile malloc fs path p = Some (Inr (Some (c @ [0]), length c, p1))" "ready p1"
    using readFile_reads [of p path fs c malloc] assms by auto
  then show ?thesis by (simp add: ZygoteService_readFile_def)
qed

text \<open>A process that was forked after the restriction is refused by each of the methods.\<close>

lemma java_forked_refused:
  assumes "q = (restrictMemoryInheritance p)\<lparr>z_pid := child\<rparr>" "child \<noteq> z_zygotePid p"
  shows "map_option fst (ZygoteService_checkFileAccess fs path mode q) = Some False"
    and "map_option fst (ZygoteService_statFile fs path q) = Some (Inl (IOException EPERM))"
    and "map_option (map_sum id fst) (ZygoteService_readFile malloc fss array critical path q) = Some (Inr (Inl (IOException EPERM)))"
  using assms
  by (simp_all add: ZygoteService_checkFileAccess_def ZygoteService_statFile_def ZygoteService_readFile_def accessFile_def
      statFile_def readFile_def isServiceAccessible_def restrictMemoryInheritance_def io_exception_def)

end
