(* ===== verification/Membased_Sync.thy ===== *)
theory Membased_Sync
  imports Membased
begin

text \<open>
  The locking and signalling of the memory-based service, \<open>src/Xposed-master/xposed_service.cpp\<close>:
  \<open>looper\<close>, \<open>waitForIdle\<close>, \<open>callService\<close> and \<open>makeIdle\<close> share one mutex and one condition
  variable, and every \<open>pthread_cond_signal\<close> wakes one of the waiting threads, whichever it is waiting for.

  Thread 0 is the server, threads 1 to \<open>n\<close> are clients with one request each.  A step of the relation is what
  a thread does while it holds the mutex up to the next test of a waiting loop; the pcs tell where it is.  With
  the flag \<open>sp\<close> threads may also wake up spuriously, which POSIX allows.  The further calls \<open>readFile\<close> makes for the later parts
  of a long file, and \<open>waitForRunning\<close>, which waits on the same variable for the start of the server, are not
  among the steps: the server runs, and a client is one exchange.
\<close>

section \<open>Threads\<close>

datatype pc =
    Start      \<comment> \<open>before the lock\<close>
  | Check      \<comment> \<open>in the first waiting loop, with the mutex\<close>
  | Waiting    \<comment> \<open>in \<open>pthread_cond_wait\<close> of that loop\<close>
  | Woken      \<comment> \<open>signalled, waiting for the mutex\<close>
  | Check2     \<comment> \<open>in the loop of \<open>callService\<close>, with the mutex\<close>
  | Waiting2
  | Woken2
  | Reading    \<comment> \<open>after \<open>makeIdle\<close>, about to read the error and the result\<close>
  | Finished

record request =
  q_action :: Action
  q_fill :: "memdata \<Rightarrow> memdata"

record sys =
  mutex :: "nat option"
  mem :: shared
  pcs :: "nat \<Rightarrow> pc"
  got :: "nat \<Rightarrow> (int \<times> int) option"

definition asleep :: "pc \<Rightarrow> bool" where
  "asleep c \<longleftrightarrow> c = Waiting \<or> c = Waiting2"

fun wake :: "pc \<Rightarrow> pc" where
  "wake Waiting = Woken"
| "wake Waiting2 = Woken2"
| "wake c = c"

text \<open>\<open>pthread_cond_signal\<close>\<close>

inductive cond_signal :: "(nat \<Rightarrow> pc) \<Rightarrow> (nat \<Rightarrow> pc) \<Rightarrow> bool" where
  signal_nobody: "\<forall>t. \<not> asleep (p t) \<Longrightarrow> cond_signal p p"
| signal_one: "asleep (p t) \<Longrightarrow> cond_signal p (p(t := wake (p t)))"

definition put_request :: "request \<Rightarrow> shared \<Rightarrow> shared" where
  "put_request q sh =
     sh\<lparr>sh_data := q_fill q (sh_data sh), sh_action := q_action q, sh_state := STATE_SERVICE_ACTION, sh_error := 0\<rparr>"

section \<open>Steps\<close>

inductive step :: "bool \<Rightarrow> fsys \<Rightarrow> nat \<Rightarrow> (nat \<Rightarrow> request) \<Rightarrow> sys \<Rightarrow> sys \<Rightarrow> bool"
  for sp :: bool and fs :: fsys and n :: nat and req :: "nat \<Rightarrow> request" where
  looper_start: "pcs s 0 = Start \<Longrightarrow> mutex s = None \<Longrightarrow> cond_signal (pcs s) p \<Longrightarrow>
    step sp fs n req s (s\<lparr>mutex := Some 0, mem := (mem s)\<lparr>sh_state := STATE_IDLE\<rparr>, pcs := p(0 := Check)\<rparr>)"
| looper_wait: "pcs s 0 = Check \<Longrightarrow> sh_state (mem s) \<noteq> STATE_SERVICE_ACTION \<Longrightarrow>
    step sp fs n req s (s\<lparr>mutex := None, pcs := (pcs s)(0 := Waiting)\<rparr>)"
| looper_action: "pcs s 0 = Check \<Longrightarrow> sh_state (mem s) = STATE_SERVICE_ACTION \<Longrightarrow> cond_signal (pcs s) p \<Longrightarrow>
    step sp fs n req s (s\<lparr>mem := service_action fs (mem s), pcs := p\<rparr>)"
| client_lock: "0 < i \<Longrightarrow> i \<le> n \<Longrightarrow> pcs s i = Start \<Longrightarrow> mutex s = None \<Longrightarrow>
    step sp fs n req s (s\<lparr>mutex := Some i, pcs := (pcs s)(i := Check)\<rparr>)"
| client_wait_idle: "0 < i \<Longrightarrow> i \<le> n \<Longrightarrow> pcs s i = Check \<Longrightarrow> sh_state (mem s) \<noteq> STATE_IDLE \<Longrightarrow>
    step sp fs n req s (s\<lparr>mutex := None, pcs := (pcs s)(i := Waiting)\<rparr>)"
| client_call: "0 < i \<Longrightarrow> i \<le> n \<Longrightarrow> pcs s i = Check \<Longrightarrow> sh_state (mem s) = STATE_IDLE \<Longrightarrow> cond_signal (pcs s) p \<Longrightarrow>
    step sp fs n req s (s\<lparr>mem := put_request (req i) (mem s), pcs := p(i := Check2)\<rparr>)"
| client_wait_response: "0 < i \<Longrightarrow> i \<le> n \<Longrightarrow> pcs s i = Check2 \<Longrightarrow> sh_state (mem s) \<noteq> STATE_SERVER_RESPONSE \<Longrightarrow>
    step sp fs n req s (s\<lparr>mutex := None, pcs := (pcs s)(i := Waiting2)\<rparr>)"
| client_make_idle: "0 < i \<Longrightarrow> i \<le> n \<Longrightarrow> pcs s i = Check2 \<Longrightarrow> sh_state (mem s) = STATE_SERVER_RESPONSE \<Longrightarrow>
    cond_signal (pcs s) p \<Longrightarrow>
    step sp fs n req s (s\<lparr>mutex := None, mem := makeIdle (mem s), pcs := p(i := Reading)\<rparr>)"
| client_read: "0 < i \<Longrightarrow> i \<le> n \<Longrightarrow> pcs s i = Reading \<Longrightarrow>
    step sp fs n req s (s\<lparr>got := (got s)(i \<mapsto> (sh_error (mem s), m_result (sh_data (mem s)))), pcs := (pcs s)(i := Finished)\<rparr>)"
| relock: "t \<le> n \<Longrightarrow> pcs s t = Woken \<Longrightarrow> mutex s = None \<Longrightarrow>
    step sp fs n req s (s\<lparr>mutex := Some t, pcs := (pcs s)(t := Check)\<rparr>)"
| relock2: "t \<le> n \<Longrightarrow> pcs s t = Woken2 \<Longrightarrow> mutex s = None \<Longrightarrow>
    step sp fs n req s (s\<lparr>mutex := Some t, pcs := (pcs s)(t := Check2)\<rparr>)"
| spurious: "sp \<Longrightarrow> asleep (pcs s t) \<Longrightarrow> step sp fs n req s (s\<lparr>pcs := (pcs s)(t := wake (pcs s t))\<rparr>)"

inductive_cases cond_signalE: "cond_signal p p'"

definition initial :: "shared \<Rightarrow> sys" where
  "initial m = \<lparr>mutex = None, mem = m\<lparr>sh_state := STATE_NOT_RUNNING\<rparr>, pcs = (\<lambda>_. Start), got = Map.empty\<rparr>"

definition reachable :: "bool \<Rightarrow> fsys \<Rightarrow> nat \<Rightarrow> (nat \<Rightarrow> request) \<Rightarrow> shared \<Rightarrow> sys \<Rightarrow> bool" where
  "reachable sp fs n req m s \<longleftrightarrow> (step sp fs n req)\<^sup>*\<^sup>* (initial m) s"

section \<open>The invariant\<close>

text \<open>A client between its call of the service and \<open>makeIdle\<close>.\<close>

definition inside :: "pc \<Rightarrow> bool" where
  "inside c \<longleftrightarrow> c = Check2 \<or> c = Waiting2 \<or> c = Woken2"

definition holds :: "pc \<Rightarrow> bool" where
  "holds c \<longleftrightarrow> c = Check \<or> c = Check2"

lemma signal_keeps:
  assumes "cond_signal p p'"
  shows "holds (p' t) = holds (p t)" "inside (p' t) = inside (p t)" "(p' t = Start) = (p t = Start)"
    "(p' t = Reading) = (p t = Reading)" "(p' t = Finished) = (p t = Finished)"
  using assms by (auto elim!: cond_signalE simp: asleep_def holds_def inside_def split: if_splits)

lemma service_action_state [simp]: "sh_state (service_action fs sh) = STATE_SERVER_RESPONSE"
  by (simp add: service_action_def)

lemma put_request_state [simp]: "sh_state (put_request q sh) = STATE_SERVICE_ACTION"
  by (simp add: put_request_def)

lemma makeIdle_state [simp]: "sh_state (makeIdle sh) = STATE_IDLE"
  by (simp add: makeIdle_def)

lemma inside_simps [simp]:
  "\<not> inside Start" "\<not> inside Check" "\<not> inside Waiting" "\<not> inside Woken" "inside Check2" "inside Waiting2"
  "inside Woken2" "\<not> inside Reading" "\<not> inside Finished"
  by (simp_all add: inside_def)

lemma inside_wake [simp]: "inside (wake c) = inside c"
  by (cases c) simp_all

lemma holds_simps [simp]:
  "\<not> holds Start" "holds Check" "\<not> holds Waiting" "\<not> holds Woken" "holds Check2" "\<not> holds Waiting2"
  "\<not> holds Woken2" "\<not> holds Reading" "\<not> holds Finished"
  by (simp_all add: holds_def)

lemma holds_wake [simp]: "holds (wake c) = holds c"
  by (cases c) simp_all

text \<open>The mutex is held by exactly the thread that runs under it.\<close>

definition inv_lock :: "sys \<Rightarrow> bool" where
  "inv_lock s \<longleftrightarrow> (\<forall>t. holds (pcs s t) \<longleftrightarrow> mutex s = Some t)"

lemma inv_lock_same:
  "inv_lock s \<Longrightarrow> (\<And>t. holds (pcs s' t) = holds (pcs s t)) \<Longrightarrow> mutex s' = mutex s \<Longrightarrow> inv_lock s'"
  by (simp add: inv_lock_def)

lemma inv_lock_acquire:
  "inv_lock s \<Longrightarrow> mutex s = None \<Longrightarrow> holds c \<Longrightarrow> (\<And>t. t \<noteq> i \<Longrightarrow> holds (pcs s' t) = holds (pcs s t)) \<Longrightarrow>
    pcs s' i = c \<Longrightarrow> mutex s' = Some i \<Longrightarrow> inv_lock s'"
  unfolding inv_lock_def by (metis option.distinct(1) option.inject)

lemma inv_lock_release:
  "inv_lock s \<Longrightarrow> holds (pcs s i) \<Longrightarrow> (\<And>t. t \<noteq> i \<Longrightarrow> holds (pcs s' t) = holds (pcs s t)) \<Longrightarrow>
    \<not> holds (pcs s' i) \<Longrightarrow> mutex s' = None \<Longrightarrow> inv_lock s'"
  unfolding inv_lock_def by (metis option.distinct(1) option.inject)

lemma inv_lock_step:
  assumes "step sp fs n req s s'" "inv_lock s"
  shows "inv_lock s'"
  using assms(1)
proof cases
  case (looper_start p)
  with signal_keeps(1) [OF looper_start(4)] show ?thesis
    by (intro inv_lock_acquire [OF assms(2), of Check 0]) auto
next
  case looper_wait
  then show ?thesis by (intro inv_lock_release [OF assms(2), of 0]) auto
next
  case (looper_action p)
  with signal_keeps(1) [OF looper_action(4)] show ?thesis by (intro inv_lock_same [OF assms(2)]) auto
next
  case (client_lock i)
  then show ?thesis by (intro inv_lock_acquire [OF assms(2), of Check i]) auto
next
  case (client_wait_idle i)
  then show ?thesis by (intro inv_lock_release [OF assms(2), of i]) auto
next
  case (client_call i p)
  with signal_keeps(1) [OF client_call(6)] show ?thesis by (intro inv_lock_same [OF assms(2)]) auto
next
  case (client_wait_response i)
  then show ?thesis by (intro inv_lock_release [OF assms(2), of i]) auto
next
  case (client_make_idle i p)
  with signal_keeps(1) [OF client_make_idle(6)] show ?thesis
    by (intro inv_lock_release [OF assms(2), of i]) auto
next
  case (client_read i)
  then show ?thesis by (intro inv_lock_same [OF assms(2)]) auto
next
  case (relock t)
  then show ?thesis by (intro inv_lock_acquire [OF assms(2), of Check t]) auto
next
  case (relock2 t)
  then show ?thesis by (intro inv_lock_acquire [OF assms(2), of Check2 t]) auto
next
  case (spurious t)
  then show ?thesis by (intro inv_lock_same [OF assms(2)]) auto
qed

text \<open>The server runs exactly when the state says so; threads beyond the last client do not exist.\<close>

definition server_pc :: "pc \<Rightarrow> bool" where
  "server_pc c \<longleftrightarrow> c = Start \<or> c = Check \<or> c = Waiting \<or> c = Woken"

definition inv_server :: "nat \<Rightarrow> sys \<Rightarrow> bool" where
  "inv_server n s \<longleftrightarrow>
     (\<forall>t. n < t \<longrightarrow> pcs s t = Start) \<and> server_pc (pcs s 0) \<and>
     (pcs s 0 = Start \<longleftrightarrow> sh_state (mem s) = STATE_NOT_RUNNING)"

lemma signal_server_pc: "cond_signal p p' \<Longrightarrow> server_pc (p t) \<Longrightarrow> server_pc (p' t)"
  by (auto elim!: cond_signalE simp: asleep_def server_pc_def split: if_splits)

lemma inv_server_step:
  assumes "step sp fs n req s s'" "inv_server n s"
  shows "inv_server n s'"
  using assms(1)
proof cases
  case (looper_start p)
  with assms(2) signal_keeps(3) [OF looper_start(4)] show ?thesis by (auto simp: inv_server_def server_pc_def)
next
  case (looper_action p)
  with assms(2) signal_keeps(3) [OF looper_action(4)] signal_server_pc [OF looper_action(4)] show ?thesis
    by (auto simp: inv_server_def)
next
  case (client_call i p)
  with assms(2) signal_keeps(3) [OF client_call(6)] signal_server_pc [OF client_call(6)] show ?thesis
    by (auto simp: inv_server_def)
next
  case (client_make_idle i p)
  with assms(2) signal_keeps(3) [OF client_make_idle(6)] signal_server_pc [OF client_make_idle(6)] show ?thesis
    by (auto simp: inv_server_def)
next
  case (relock t)
  with assms(2) show ?thesis by (cases "t = 0") (auto simp: inv_server_def server_pc_def)
next
  case (relock2 t)
  with assms(2) show ?thesis by (cases "t = 0") (auto simp: inv_server_def server_pc_def)
next
  case (spurious t)
  then have "t \<le> n" using assms(2) by (auto simp: inv_server_def asleep_def intro: leI)
  with spurious assms(2) show ?thesis by (cases "t = 0") (auto simp: inv_server_def server_pc_def asleep_def)
qed (use assms(2) in \<open>auto simp: inv_server_def server_pc_def\<close>)

text \<open>One client at most is inside, exactly while a request or its answer is in the memory.\<close>

definition inv_owner :: "sys \<Rightarrow> bool" where
  "inv_owner s \<longleftrightarrow>
     (\<forall>i j. inside (pcs s i) \<longrightarrow> inside (pcs s j) \<longrightarrow> i = j) \<and>
     ((\<exists>i. inside (pcs s i)) \<longleftrightarrow>
        sh_state (mem s) = STATE_SERVICE_ACTION \<or> sh_state (mem s) = STATE_SERVER_RESPONSE)"

lemma inv_owner_same:
  "inv_owner s \<Longrightarrow> (\<And>t. inside (pcs s' t) = inside (pcs s t)) \<Longrightarrow> sh_state (mem s') = sh_state (mem s) \<Longrightarrow> inv_owner s'"
  by (simp add: inv_owner_def)

lemma inv_owner_none:
  "(\<And>t. \<not> inside (pcs s' t)) \<Longrightarrow> sh_state (mem s') = STATE_IDLE \<Longrightarrow> inv_owner s'"
  by (simp add: inv_owner_def)

lemma inv_owner_step:
  assumes "step sp fs n req s s'" "inv_owner s" "inv_server n s"
  shows "inv_owner s'"
  using assms(1)
proof cases
  case (looper_start p)
  then have "sh_state (mem s) = STATE_NOT_RUNNING" using assms(3) by (simp add: inv_server_def)
  then have "\<not> inside (pcs s t)" for t using assms(2) by (auto simp: inv_owner_def)
  with looper_start signal_keeps(2) [OF looper_start(4)] show ?thesis by (intro inv_owner_none) auto
next
  case (looper_action p)
  with assms(2) signal_keeps(2) [OF looper_action(4)] show ?thesis by (simp add: inv_owner_def)
next
  case (client_call i p)
  then have "\<not> inside (pcs s t)" for t using assms(2) by (auto simp: inv_owner_def)
  with client_call signal_keeps(2) [OF client_call(6)] show ?thesis by (auto simp: inv_owner_def)
next
  case (client_make_idle i p)
  then have "inside (pcs s i)" by simp
  then have "\<not> inside (pcs s j)" if "j \<noteq> i" for j using assms(2) that by (auto simp: inv_owner_def)
  with client_make_idle signal_keeps(2) [OF client_make_idle(6)] show ?thesis by (intro inv_owner_none) auto
qed (rule inv_owner_same [OF assms(2)]; simp)+

text \<open>What is in the memory while a client is inside is its own request, or the server's answer to it.\<close>

definition answer :: "fsys \<Rightarrow> request \<Rightarrow> shared \<Rightarrow> shared" where
  "answer fs q m = service_action fs (put_request q m)"

definition inv_memory :: "fsys \<Rightarrow> (nat \<Rightarrow> request) \<Rightarrow> sys \<Rightarrow> bool" where
  "inv_memory fs req s \<longleftrightarrow>
     (\<forall>i. inside (pcs s i) \<longrightarrow> (\<exists>m. mem s = put_request (req i) m \<or> mem s = answer fs (req i) m))"

lemma answer_state [simp]: "sh_state (answer fs q m) = STATE_SERVER_RESPONSE"
  by (simp add: answer_def)

lemma inv_memory_same:
  "inv_memory fs req s \<Longrightarrow> (\<And>t. inside (pcs s' t) = inside (pcs s t)) \<Longrightarrow> mem s' = mem s \<Longrightarrow> inv_memory fs req s'"
  by (simp add: inv_memory_def)

lemma inv_memory_none: "(\<And>t. \<not> inside (pcs s' t)) \<Longrightarrow> inv_memory fs req s'"
  by (simp add: inv_memory_def)

lemma inv_memory_step:
  assumes "step sp fs n req s s'" "inv_memory fs req s" "inv_owner s" "inv_server n s"
  shows "inv_memory fs req s'"
  using assms(1)
proof cases
  case (looper_start p)
  then have "sh_state (mem s) = STATE_NOT_RUNNING" using assms(4) by (simp add: inv_server_def)
  then have "\<not> inside (pcs s t)" for t using assms(3) by (auto simp: inv_owner_def)
  with looper_start signal_keeps(2) [OF looper_start(4)] show ?thesis by (intro inv_memory_none) auto
next
  case (looper_action p)
  have "\<exists>m. service_action fs (mem s) = answer fs (req i) m" if i: "inside (pcs s i)" for i
  proof -
    obtain m where "mem s = put_request (req i) m \<or> mem s = answer fs (req i) m"
      using assms(2) i by (auto simp: inv_memory_def)
    with looper_action(3) have "mem s = put_request (req i) m" by auto
    then show ?thesis by (auto simp: answer_def)
  qed
  with looper_action signal_keeps(2) [OF looper_action(4)] show ?thesis by (auto simp: inv_memory_def)
next
  case (client_call i p)
  then have "\<not> inside (pcs s t)" for t using assms(3) by (auto simp: inv_owner_def)
  with client_call signal_keeps(2) [OF client_call(6)] show ?thesis by (auto simp: inv_memory_def)
next
  case (client_make_idle i p)
  then have "inside (pcs s i)" by simp
  then have "\<not> inside (pcs s j)" if "j \<noteq> i" for j using assms(3) that by (auto simp: inv_owner_def)
  with client_make_idle signal_keeps(2) [OF client_make_idle(6)] show ?thesis by (intro inv_memory_none) auto
qed (rule inv_memory_same [OF assms(2)]; simp)+

definition sync_inv :: "fsys \<Rightarrow> nat \<Rightarrow> (nat \<Rightarrow> request) \<Rightarrow> sys \<Rightarrow> bool" where
  "sync_inv fs n req s \<longleftrightarrow> inv_lock s \<and> inv_server n s \<and> inv_owner s \<and> inv_memory fs req s"

lemma sync_inv_step:
  assumes "step sp fs n req s s'" "sync_inv fs n req s"
  shows "sync_inv fs n req s'"
  using assms(2) inv_lock_step [OF assms(1)] inv_server_step [OF assms(1)] inv_owner_step [OF assms(1)]
    inv_memory_step [OF assms(1)]
  by (simp add: sync_inv_def)

lemma sync_inv_initial: "sync_inv fs n req (initial m)"
  by (simp add: sync_inv_def initial_def inv_lock_def inv_server_def inv_owner_def inv_memory_def server_pc_def)

lemma sync_inv_reachable:
  assumes "reachable sp fs n req m s"
  shows "sync_inv fs n req s"
  using assms unfolding reachable_def
proof (induction rule: rtranclp_induct)
  case base
  show ?case by (rule sync_inv_initial)
next
  case (step y z)
  then show ?case by (intro sync_inv_step [OF step.hyps(2)])
qed

section \<open>A single client\<close>

text \<open>No wakeup is lost: a sleeping thread has nothing to do yet.\<close>

definition inv_single :: "fsys \<Rightarrow> (nat \<Rightarrow> request) \<Rightarrow> sys \<Rightarrow> bool" where
  "inv_single fs req s \<longleftrightarrow>
     (pcs s 0 = Waiting \<longrightarrow> sh_state (mem s) \<noteq> STATE_SERVICE_ACTION) \<and>
     (pcs s 1 = Waiting \<longrightarrow> sh_state (mem s) = STATE_NOT_RUNNING) \<and>
     (pcs s 1 = Waiting2 \<longrightarrow> sh_state (mem s) \<noteq> STATE_SERVER_RESPONSE) \<and>
     (pcs s 1 = Reading \<longrightarrow> (\<exists>m. mem s = makeIdle (answer fs (req 1) m))) \<and>
     (pcs s 1 = Finished \<longrightarrow> sh_state (mem s) = STATE_IDLE \<and>
        (\<exists>m. got s 1 = Some (sh_error (answer fs (req 1) m), m_result (sh_data (answer fs (req 1) m)))))"

lemma makeIdle_fields [simp]: "sh_error (makeIdle sh) = sh_error sh" "sh_data (makeIdle sh) = sh_data sh"
  by (simp_all add: makeIdle_def)

lemma signal_sleeper:
  assumes "cond_signal p p'" "asleep (p t)" "\<And>t'. asleep (p t') \<Longrightarrow> t' = t"
  shows "p' = p(t := wake (p t))"
  using assms(1)
proof (cases rule: cond_signal.cases)
  case signal_nobody
  with assms(2) show ?thesis by blast
next
  case (signal_one t')
  with assms(3) [of t'] show ?thesis by simp
qed

lemma single_inside:
  assumes "sync_inv fs 1 req s" "sh_state (mem s) = STATE_SERVICE_ACTION \<or> sh_state (mem s) = STATE_SERVER_RESPONSE"
  shows "inside (pcs s 1)"
proof -
  obtain i where i: "inside (pcs s i)" using assms by (auto simp: sync_inv_def inv_owner_def)
  have "\<not> inside (pcs s t)" if "t = 0 \<or> 1 < t" for t
    using assms(1) that by (auto simp: sync_inv_def inv_server_def server_pc_def)
  with i have "i = 1" by (metis less_one linorder_neqE_nat)
  with i show ?thesis by simp
qed

lemma single_asleep:
  assumes "sync_inv fs 1 req s" "asleep (pcs s t)"
  shows "t = 0 \<or> t = 1"
proof (rule ccontr)
  assume "\<not> (t = 0 \<or> t = 1)"
  then have "1 < t" by simp
  then have "pcs s t = Start" using assms(1) by (simp add: sync_inv_def inv_server_def)
  with assms(2) show False by (simp add: asleep_def)
qed

text \<open>With one client a signal of one thread wakes the other one, if that is asleep.\<close>

lemma single_signal:
  assumes "sync_inv fs 1 req s" "cond_signal (pcs s) p" "\<not> asleep (pcs s t)" "t = 0 \<and> u = 1 \<or> t = 1 \<and> u = 0"
  shows "p t = pcs s t" "p u = wake (pcs s u)"
proof -
  have u: "t' = u" if "asleep (pcs s t')" for t'
    using single_asleep [OF assms(1) that] that assms(3,4) by auto
  have tu: "t \<noteq> u" using assms(4) by auto
  show "p t = pcs s t" using assms(2,3) by (auto elim!: cond_signalE)
  show "p u = wake (pcs s u)"
  proof (cases "asleep (pcs s u)")
    case True
    with signal_sleeper [OF assms(2) True u] show ?thesis by simp
  next
    case False
    then have "p = pcs s" using assms(2) u by (auto elim!: cond_signalE)
    moreover have "wake (pcs s u) = pcs s u" using False by (cases "pcs s u") (auto simp: asleep_def)
    ultimately show ?thesis by simp
  qed
qed

lemma wake_simps [simp]: "wake c \<noteq> Waiting" "wake c \<noteq> Waiting2"
  "wake c = Reading \<longleftrightarrow> c = Reading" "wake c = Finished \<longleftrightarrow> c = Finished"
  by (cases c; simp)+

lemma inv_single_step:
  assumes "step False fs 1 req s s'" "inv_single fs req s" "sync_inv fs 1 req s"
  shows "inv_single fs req s'"
  using assms(1)
proof cases
  case (looper_start p)
  have "sh_state (mem s) = STATE_NOT_RUNNING" using looper_start assms(3) by (simp add: sync_inv_def inv_server_def)
  with single_signal [OF assms(3) looper_start(4), of 0 1] looper_start assms(2) show ?thesis
    by (auto simp: inv_single_def asleep_def)
next
  case looper_wait
  with assms(2) show ?thesis by (simp add: inv_single_def)
next
  case (looper_action p)
  have "inside (pcs s 1)" using single_inside [OF assms(3)] looper_action by simp
  with single_signal [OF assms(3) looper_action(4), of 0 1] looper_action show ?thesis
    by (auto simp: inv_single_def asleep_def inside_def)
next
  case (client_lock i)
  then have "i = 1" by simp
  with client_lock assms(2) show ?thesis by (auto simp: inv_single_def)
next
  case (client_wait_idle i)
  then have i: "i = 1" by simp
  then have "sh_state (mem s) = STATE_NOT_RUNNING"
    using client_wait_idle i single_inside [OF assms(3)] by (cases "sh_state (mem s)") auto
  with client_wait_idle assms(2) i show ?thesis by (auto simp: inv_single_def)
next
  case (client_call i p)
  then have "i = 1" by simp
  with single_signal [OF assms(3) client_call(6), of 1 0] client_call show ?thesis
    by (auto simp: inv_single_def asleep_def)
next
  case (client_wait_response i)
  then have "i = 1" by simp
  with client_wait_response assms(2) show ?thesis by (auto simp: inv_single_def)
next
  case (client_make_idle i p)
  then have i: "i = 1" by simp
  obtain m where "mem s = put_request (req 1) m \<or> mem s = answer fs (req 1) m"
    using assms(3) client_make_idle(4) i unfolding sync_inv_def inv_memory_def by (metis inside_simps(5))
  with client_make_idle(5) have "mem s = answer fs (req 1) m" by auto
  with single_signal [OF assms(3) client_make_idle(6), of 1 0] client_make_idle i show ?thesis
    by (auto simp: inv_single_def asleep_def)
next
  case (client_read i)
  then have "i = 1" by simp
  with client_read assms(2) show ?thesis by (auto simp: inv_single_def)
next
  case (relock t)
  then have "t = 0 \<or> t = 1" by auto
  with relock assms(2) show ?thesis by (auto simp: inv_single_def)
next
  case (relock2 t)
  then have "t = 0 \<or> t = 1" by auto
  with relock2 assms(2) show ?thesis by (auto simp: inv_single_def)
next
  case (spurious t)
  then show ?thesis by simp
qed

lemma cond_signal_total: "\<exists>p'. cond_signal p p'"
  by (cases "\<exists>t. asleep (p t)") (auto intro: cond_signal.intros)

lemma single_progress_holder:
  assumes "sync_inv fs 1 req s" "mutex s = Some t"
  shows "\<exists>s'. step False fs 1 req s s'"
proof -
  obtain p where p: "cond_signal (pcs s) p" using cond_signal_total by blast
  have holds: "holds (pcs s t)" using assms by (simp add: sync_inv_def inv_lock_def)
  then have "\<not> 1 < t" using assms(1) by (auto simp: sync_inv_def inv_server_def)
  then consider "t = 0" | "t = 1" by linarith
  then show ?thesis
  proof cases
    case 1
    then have "pcs s 0 = Check" using holds assms(1) by (auto simp: sync_inv_def inv_server_def server_pc_def)
    then show ?thesis using p by (cases "sh_state (mem s) = STATE_SERVICE_ACTION") (blast intro: step.intros)+
  next
    case 2
    with holds consider "pcs s 1 = Check" | "pcs s 1 = Check2" by (auto simp: holds_def)
    then show ?thesis
    proof cases
      case 1
      then show ?thesis using p
        by (cases "sh_state (mem s) = STATE_IDLE")
          (rule exI, erule step.client_call [rotated 3] step.client_wait_idle [rotated 3]; simp)+
    next
      case 2
      then show ?thesis using p
        by (cases "sh_state (mem s) = STATE_SERVER_RESPONSE")
          (rule exI, erule step.client_make_idle [rotated 3] step.client_wait_response [rotated 3]; simp)+
    qed
  qed
qed

lemma client_can_move:
  assumes "pcs s i \<in> {Start, Woken, Woken2, Reading}" "mutex s = None" "0 < i" "i \<le> n"
  shows "\<exists>s'. step sp fs n req s s'"
  using assms step.client_lock [of i n s] step.relock [of i n s] step.relock2 [of i n s] step.client_read [of i n s]
  by (elim insertE emptyE) blast+

lemma single_progress_free:
  assumes "sync_inv fs 1 req s" "inv_single fs req s" "mutex s = None" "pcs s 1 \<noteq> Finished"
  shows "\<exists>s'. step False fs 1 req s s'"
proof -
  obtain p where p: "cond_signal (pcs s) p" using cond_signal_total by blast
  have free: "\<not> holds (pcs s t)" for t using assms(1,3) by (simp add: sync_inv_def inv_lock_def)
  have "server_pc (pcs s 0)" using assms(1) by (simp add: sync_inv_def inv_server_def)
  with free [of 0] consider "pcs s 0 = Start" | "pcs s 0 = Woken" | "pcs s 0 = Waiting"
    by (auto simp: server_pc_def)
  then show ?thesis
  proof cases
    case 3
    then have run: "sh_state (mem s) \<noteq> STATE_NOT_RUNNING" "sh_state (mem s) \<noteq> STATE_SERVICE_ACTION"
      using assms(1,2) by (auto simp: sync_inv_def inv_server_def inv_single_def)
    have "inside (pcs s 1) \<Longrightarrow> sh_state (mem s) = STATE_SERVER_RESPONSE"
      using assms(1) run by (auto simp: sync_inv_def inv_owner_def)
    then have awake: "pcs s 1 \<noteq> Waiting" "pcs s 1 \<noteq> Waiting2"
      using assms(2) run by (auto simp: inv_single_def)
    have "pcs s 1 \<in> {Start, Woken, Woken2, Reading}"
      using awake free [of 1] assms(4) by (cases "pcs s 1") auto
    then show ?thesis by (rule client_can_move) (use assms(3) in simp_all)
  qed (use assms(3) p in \<open>auto intro: step.looper_start step.relock [of 0]\<close>)
qed

text \<open>What is left to do: the state the exchange is in, then the steps a thread has before it sleeps.\<close>

fun to_sleep :: "pc \<Rightarrow> nat" where
  "to_sleep Start = 2"
| "to_sleep Check = 1"
| "to_sleep Waiting = 0"
| "to_sleep Woken = 2"
| "to_sleep Check2 = 1"
| "to_sleep Waiting2 = 0"
| "to_sleep Woken2 = 2"
| "to_sleep Reading = 0"
| "to_sleep Finished = 0"

fun stages :: "State \<Rightarrow> pc \<Rightarrow> nat" where
  "stages st Finished = 0"
| "stages st Reading = 1"
| "stages STATE_SERVER_RESPONSE c = 2"
| "stages STATE_SERVICE_ACTION c = 3"
| "stages STATE_IDLE c = 4"
| "stages STATE_NOT_RUNNING c = 5"

definition work :: "sys \<Rightarrow> nat" where
  "work s = 5 * stages (sh_state (mem s)) (pcs s 1) + to_sleep (pcs s 0) + to_sleep (pcs s 1)"

lemma to_sleep_wake: "to_sleep (wake c) \<le> to_sleep c + 2"
  by (cases c) simp_all

lemma stages_wake [simp]: "stages st (wake c) = stages st c"
  by (cases c; cases st) simp_all

lemma work_step:
  assumes "step False fs 1 req s s'" "sync_inv fs 1 req s"
  shows "work s' < work s"
  using assms(1)
proof cases
  case (looper_start p)
  have st: "sh_state (mem s) = STATE_NOT_RUNNING" using looper_start assms(2) by (simp add: sync_inv_def inv_server_def)
  have p: "p 1 = wake (pcs s 1)" using single_signal [OF assms(2) looper_start(4), of 0 1] looper_start by (simp add: asleep_def)
  show ?thesis using looper_start st p by (cases "pcs s 1") (simp_all add: work_def)
next
  case looper_wait
  then show ?thesis by (simp add: work_def)
next
  case (looper_action p)
  have "inside (pcs s 1)" using single_inside [OF assms(2)] looper_action by simp
  moreover have "p 0 = pcs s 0" "p 1 = wake (pcs s 1)"
    using single_signal [OF assms(2) looper_action(4), of 0 1] looper_action by (simp_all add: asleep_def)
  ultimately show ?thesis using looper_action by (cases "pcs s 1") (simp_all add: work_def)
next
  case (client_lock i)
  then have "i = 1" by simp
  with client_lock show ?thesis by (cases "sh_state (mem s)") (simp_all add: work_def)
next
  case (client_wait_idle i)
  then have "i = 1" by simp
  with client_wait_idle show ?thesis by (cases "sh_state (mem s)") (simp_all add: work_def)
next
  case (client_call i p)
  then have i: "i = 1" by simp
  have "p 0 = wake (pcs s 0)"
    using single_signal [OF assms(2) client_call(6), of 1 0] client_call i by (simp add: asleep_def)
  then show ?thesis using client_call to_sleep_wake [of "pcs s 0"] unfolding i by (simp add: work_def)
next
  case (client_wait_response i)
  then have "i = 1" by simp
  with client_wait_response show ?thesis by (cases "sh_state (mem s)") (simp_all add: work_def)
next
  case (client_make_idle i p)
  then have i: "i = 1" by simp
  have "p 0 = wake (pcs s 0)"
    using single_signal [OF assms(2) client_make_idle(6), of 1 0] client_make_idle i by (simp add: asleep_def)
  then show ?thesis using client_make_idle to_sleep_wake [of "pcs s 0"] unfolding i by (simp add: work_def)
next
  case (client_read i)
  then have "i = 1" by simp
  with client_read show ?thesis by (simp add: work_def)
next
  case (relock t)
  then have "t = 0 \<or> t = 1" by auto
  with relock show ?thesis by (cases "sh_state (mem s)") (auto simp: work_def)
next
  case (relock2 t)
  then have "t = 0 \<or> t = 1" by auto
  with relock2 show ?thesis by (cases "sh_state (mem s)") (auto simp: work_def)
next
  case (spurious t)
  then show ?thesis by simp
qed

lemma single_run:
  assumes "((step False fs 1 req) ^^ k) (initial m) s"
  shows "sync_inv fs 1 req s \<and> inv_single fs req s \<and> k + work s \<le> 29"
  using assms
proof (induction k arbitrary: s)
  case 0
  then have "s = initial m" by simp
  moreover have "inv_single fs req (initial m)" "work (initial m) = 29"
    by (simp_all add: inv_single_def initial_def work_def)
  ultimately show ?case by (simp only: sync_inv_initial) simp
next
  case (Suc k)
  then obtain s0 where s0: "((step False fs 1 req) ^^ k) (initial m) s0" "step False fs 1 req s0 s" by auto
  from Suc.IH [OF s0(1)] have inv: "sync_inv fs 1 req s0" "inv_single fs req s0" "k + work s0 \<le> 29" by simp_all
  from sync_inv_step [OF s0(2) inv(1)] inv_single_step [OF s0(2) inv(2,1)] work_step [OF s0(2) inv(1)] inv(3)
  show ?case by simp
qed

lemma single_run_ends: "\<exists>k s. ((step False fs 1 req) ^^ k) (initial m) s \<and> (\<nexists>s'. step False fs 1 req s s')"
proof (rule ccontr)
  assume no_end: "\<not> ?thesis"
  have "\<exists>s. ((step False fs 1 req) ^^ k) (initial m) s" for k
  proof (induction k)
    case (Suc k)
    then show ?case using no_end by (metis relpowp_Suc_I)
  qed auto
  then obtain s where "((step False fs 1 req) ^^ 30) (initial m) s" by blast
  from single_run [OF this] show False by simp
qed

section \<open>Properties\<close>

text \<open>
  C27 Whatever the number of clients and the scheduling, spurious wakeups included: when a client leaves the
  waiting loop of \<open>callService\<close>, the memory holds the server's answer to the request of this very client, and
  no other client is between its call and its \<open>makeIdle\<close>.
\<close>

theorem response_belongs_to_caller:
  assumes "reachable sp fs n req m s" "pcs s i = Check2" "sh_state (mem s) = STATE_SERVER_RESPONSE"
  shows "(\<exists>m'. mem s = service_action fs (put_request (req i) m')) \<and> (\<forall>j. inside (pcs s j) \<longleftrightarrow> j = i)"
proof -
  have inv: "inv_memory fs req s" "inv_owner s" using sync_inv_reachable [OF assms(1)] by (simp_all add: sync_inv_def)
  have i: "inside (pcs s i)" using assms(2) by simp
  obtain m' where "mem s = put_request (req i) m' \<or> mem s = answer fs (req i) m'"
    using inv(1) i unfolding inv_memory_def by blast
  with assms(3) have "mem s = answer fs (req i) m'" by auto
  moreover have "inside (pcs s j) \<longleftrightarrow> j = i" for j using inv(2) i unfolding inv_owner_def by blast
  ultimately show ?thesis unfolding answer_def by blast
qed

text \<open>
  C28 With a single client and no spurious wakeups no signal is lost: every run from the start of the service has
  at most 29 steps, and it can only end with the client done, having read the error and the result of the
  server's answer to its request.
\<close>

theorem single_client_completes:
  assumes "((step False fs 1 req) ^^ k) (initial m) s"
  shows "k \<le> 29 \<and>
    ((\<nexists>s'. step False fs 1 req s s') \<longrightarrow> pcs s 1 = Finished \<and>
      (\<exists>m'. let a = service_action fs (put_request (req 1) m') in
         got s 1 = Some (sh_error a, m_result (sh_data a))))"
proof -
  from single_run [OF assms] have inv: "sync_inv fs 1 req s" "inv_single fs req s" and k: "k \<le> 29" by simp_all
  have "pcs s 1 = Finished" if stuck: "\<nexists>s'. step False fs 1 req s s'"
    using single_progress_holder [OF inv(1)] single_progress_free [OF inv] stuck by (cases "mutex s") auto
  then show ?thesis using k inv(2) by (simp add: inv_single_def answer_def Let_def)
qed

definition demo_request :: "nat \<Rightarrow> request" where
  "demo_request i = \<lparr>q_action = OP_ACCESS_FILE, q_fill = id\<rparr>"

theorem single_client_completes_witness:
  "\<exists>k s. ((step False (demo_fs 0 []) 1 demo_request) ^^ k) (initial demo_shared) s \<and> k \<le> 29 \<and>
     (\<nexists>s'. step False (demo_fs 0 []) 1 demo_request s s') \<and> pcs s 1 = Finished"
proof -
  obtain k s where "((step False (demo_fs 0 []) 1 demo_request) ^^ k) (initial demo_shared) s"
    "\<nexists>s'. step False (demo_fs 0 []) 1 demo_request s s'"
    using single_run_ends by blast
  with single_client_completes [OF this(1)] show ?thesis by blast
qed

section \<open>Two clients\<close>

definition three :: "nat option \<Rightarrow> shared \<Rightarrow> pc \<Rightarrow> pc \<Rightarrow> pc \<Rightarrow> sys" where
  "three mu mm a b c = \<lparr>mutex = mu, mem = mm, pcs = (\<lambda>_. Start)(0 := a, Suc 0 := b, 2 := c), got = Map.empty\<rparr>"

lemma three_sel [simp]:
  "mutex (three mu mm a b c) = mu" "mem (three mu mm a b c) = mm" "got (three mu mm a b c) = Map.empty"
  "pcs (three mu mm a b c) = (\<lambda>_. Start)(0 := a, Suc 0 := b, 2 := c)"
  by (simp_all add: three_def)

lemma three_update:
  "(three mu mm a b c)\<lparr>mutex := mu'\<rparr> = three mu' mm a b c"
  "(three mu mm a b c)\<lparr>mem := mm'\<rparr> = three mu mm' a b c"
  "(three mu mm a b c)\<lparr>pcs := (\<lambda>_. Start)(0 := a', Suc 0 := b', 2 := c')\<rparr> = three mu mm a' b' c'"
  by (simp_all add: three_def)

lemma upd3 [simp]:
  fixes a b c x :: pc
  shows "((\<lambda>_ :: nat. Start)(0 := a, Suc 0 := b, 2 := c))(0 := x) = (\<lambda>_. Start)(0 := x, Suc 0 := b, 2 := c)"
    and "((\<lambda>_ :: nat. Start)(0 := a, Suc 0 := b, 2 := c))(Suc 0 := x) = (\<lambda>_. Start)(0 := a, Suc 0 := x, 2 := c)"
    and "((\<lambda>_ :: nat. Start)(0 := a, Suc 0 := b, 2 := c))(2 := x) = (\<lambda>_. Start)(0 := a, Suc 0 := b, 2 := x)"
  by (auto simp: fun_eq_iff)

lemma initial_three: "initial m = three None (m\<lparr>sh_state := STATE_NOT_RUNNING\<rparr>) Start Start Start"
  by (auto simp: initial_def three_def fun_eq_iff)

lemma signal3_nobody:
  "\<not> asleep a \<Longrightarrow> \<not> asleep b \<Longrightarrow> \<not> asleep c \<Longrightarrow>
    cond_signal ((\<lambda>_. Start)(0 := a, Suc 0 := b, 2 := c)) ((\<lambda>_. Start)(0 := a, Suc 0 := b, 2 := c))"
  by (rule signal_nobody) (auto simp: asleep_def)

lemma signal3_one:
  "asleep a \<Longrightarrow> cond_signal ((\<lambda>_. Start)(0 := a, Suc 0 := b, 2 := c)) ((\<lambda>_. Start)(0 := wake a, Suc 0 := b, 2 := c))"
  "asleep b \<Longrightarrow> cond_signal ((\<lambda>_. Start)(0 := a, Suc 0 := b, 2 := c)) ((\<lambda>_. Start)(0 := a, Suc 0 := wake b, 2 := c))"
  "asleep c \<Longrightarrow> cond_signal ((\<lambda>_. Start)(0 := a, Suc 0 := b, 2 := c)) ((\<lambda>_. Start)(0 := a, Suc 0 := b, 2 := wake c))"
  using signal_one [of "(\<lambda>_. Start)(0 := a, Suc 0 := b, 2 := c)" 0] signal_one [of "(\<lambda>_. Start)(0 := a, Suc 0 := b, 2 := c)" "Suc 0"]
    signal_one [of "(\<lambda>_. Start)(0 := a, Suc 0 := b, 2 := c)" 2]
  by simp_all

lemma server_starts:
  "\<not> asleep b \<Longrightarrow> \<not> asleep c \<Longrightarrow>
    step False fs 2 req (three None mm Start b c) (three (Some 0) (mm\<lparr>sh_state := STATE_IDLE\<rparr>) Check b c)"
  using step.looper_start [of "three None mm Start b c" "(\<lambda>_. Start)(0 := Start, Suc 0 := b, 2 := c)" False fs 2 req]
  by (simp add: three_update signal3_nobody asleep_def)

lemma server_waits:
  "sh_state mm \<noteq> STATE_SERVICE_ACTION \<Longrightarrow> step False fs 2 req (three mu mm Check b c) (three None mm Waiting b c)"
  using step.looper_wait [of "three mu mm Check b c" False fs 2 req] by (simp add: three_update)

lemma server_relocks: "step False fs 2 req (three None mm Woken b c) (three (Some 0) mm Check b c)"
  using step.relock [of 0 2 "three None mm Woken b c" False fs req] by (simp add: three_update)

lemma server_acts:
  "sh_state mm = STATE_SERVICE_ACTION \<Longrightarrow> asleep b \<Longrightarrow>
    step False fs 2 req (three mu mm Check b c) (three mu (service_action fs mm) Check (wake b) c)"
  "sh_state mm = STATE_SERVICE_ACTION \<Longrightarrow> asleep c \<Longrightarrow>
    step False fs 2 req (three mu mm Check b c) (three mu (service_action fs mm) Check b (wake c))"
  using step.looper_action [of "three mu mm Check b c" "(\<lambda>_. Start)(0 := Check, Suc 0 := wake b, 2 := c)" False fs 2 req]
    step.looper_action [of "three mu mm Check b c" "(\<lambda>_. Start)(0 := Check, Suc 0 := b, 2 := wake c)" False fs 2 req]
  by (simp_all add: three_update signal3_one)

lemma client1_moves:
  "step False fs 2 req (three None mm a Start c) (three (Some 1) mm a Check c)"
  "sh_state mm = STATE_IDLE \<Longrightarrow> asleep a \<Longrightarrow>
    step False fs 2 req (three mu mm a Check c) (three mu (put_request (req 1) mm) (wake a) Check2 c)"
  "sh_state mm \<noteq> STATE_SERVER_RESPONSE \<Longrightarrow> step False fs 2 req (three mu mm a Check2 c) (three None mm a Waiting2 c)"
  "step False fs 2 req (three None mm a Woken2 c) (three (Some 1) mm a Check2 c)"
  "sh_state mm = STATE_SERVER_RESPONSE \<Longrightarrow> asleep a \<Longrightarrow>
    step False fs 2 req (three mu mm a Check2 c) (three None (makeIdle mm) (wake a) Reading c)"
  using step.client_lock [of 1 2 "three None mm a Start c" False fs req]
    step.client_call [of 1 2 "three mu mm a Check c" "(\<lambda>_. Start)(0 := wake a, Suc 0 := Check, 2 := c)" False fs req]
    step.client_wait_response [of 1 2 "three mu mm a Check2 c" False fs req]
    step.relock2 [of 1 2 "three None mm a Woken2 c" False fs req]
    step.client_make_idle [of 1 2 "three mu mm a Check2 c" "(\<lambda>_. Start)(0 := wake a, Suc 0 := Check2, 2 := c)" False fs req]
  by (simp_all add: three_update signal3_one)

lemma client2_moves:
  "step False fs 2 req (three None mm a b Start) (three (Some 2) mm a b Check)"
  "sh_state mm \<noteq> STATE_IDLE \<Longrightarrow> step False fs 2 req (three mu mm a b Check) (three None mm a b Waiting)"
  "sh_state mm = STATE_IDLE \<Longrightarrow> \<not> asleep a \<Longrightarrow> \<not> asleep b \<Longrightarrow>
    step False fs 2 req (three mu mm a b Check) (three mu (put_request (req 2) mm) a b Check2)"
  "sh_state mm \<noteq> STATE_SERVER_RESPONSE \<Longrightarrow> step False fs 2 req (three mu mm a b Check2) (three None mm a b Waiting2)"
  "step False fs 2 req (three None mm a b Woken) (three (Some 2) mm a b Check)"
  using step.client_lock [of 2 2 "three None mm a b Start" False fs req]
    step.client_wait_idle [of 2 2 "three mu mm a b Check" False fs req]
    step.client_call [of 2 2 "three mu mm a b Check" "(\<lambda>_. Start)(0 := a, Suc 0 := b, 2 := Check)" False fs req]
    step.client_wait_response [of 2 2 "three mu mm a b Check2" False fs req]
    step.relock [of 2 2 "three None mm a b Woken" False fs req]
  by (simp_all add: three_update signal3_nobody asleep_def)

lemma all_asleep_stuck:
  assumes "asleep a" "asleep b" "asleep c"
  shows "\<not> step False fs 2 req (three None mm a b c) s'"
proof
  assume "step False fs 2 req (three None mm a b c) s'"
  then show False using assms by cases (auto simp: asleep_def split: if_splits)
qed

lemma client1_called:
  "(step False fs 2 req)\<^sup>*\<^sup>* (initial m)
     (three None (put_request (req 1) (m\<lparr>sh_state := STATE_IDLE\<rparr>)) Woken Waiting2 Start)"
proof -
  let ?R = "(step False fs 2 req)\<^sup>*\<^sup>*"
  let ?m = "m\<lparr>sh_state := STATE_IDLE\<rparr>"
  have "?R (initial m) (three (Some 0) ?m Check Start Start)"
    using server_starts [of Start Start fs req "m\<lparr>sh_state := STATE_NOT_RUNNING\<rparr>"]
    by (simp add: initial_three asleep_def)
  also have "?R \<dots> (three None ?m Waiting Start Start)" by (intro r_into_rtranclp server_waits) simp
  also have "?R \<dots> (three (Some 1) ?m Waiting Check Start)" by (intro r_into_rtranclp client1_moves)
  also have "?R \<dots> (three (Some 1) (put_request (req 1) ?m) Woken Check2 Start)"
    using client1_moves(2) [of ?m Waiting fs req "Some 1" Start] by (simp add: asleep_def)
  also have "?R \<dots> (three None (put_request (req 1) ?m) Woken Waiting2 Start)"
    by (intro r_into_rtranclp client1_moves) simp
  finally show ?thesis .
qed

lemma client1_answered:
  "(step False fs 2 req)\<^sup>*\<^sup>* (initial m)
     (three (Some 1) (service_action fs (put_request (req 1) (m\<lparr>sh_state := STATE_IDLE\<rparr>))) Waiting Check2 Start)"
proof -
  let ?R = "(step False fs 2 req)\<^sup>*\<^sup>*"
  let ?q = "put_request (req 1) (m\<lparr>sh_state := STATE_IDLE\<rparr>)"
  note client1_called [of fs req m]
  also have "?R (three None ?q Woken Waiting2 Start) (three (Some 0) ?q Check Waiting2 Start)"
    by (intro r_into_rtranclp server_relocks)
  also have "?R \<dots> (three (Some 0) (service_action fs ?q) Check Woken2 Start)"
    using server_acts(1) [of ?q Waiting2 fs req "Some 0" Start] by (simp add: asleep_def)
  also have "?R \<dots> (three None (service_action fs ?q) Waiting Woken2 Start)" by (intro r_into_rtranclp server_waits) simp
  also have "?R \<dots> (three (Some 1) (service_action fs ?q) Waiting Check2 Start)" by (intro r_into_rtranclp client1_moves)
  finally show ?thesis .
qed

text \<open>
  C31 Two clients can put the service to sleep for good: the server's answer to the first client can wake the
  second one, which waits for the idle state and goes back to sleep, while the first client has not been woken.
\<close>

theorem two_clients_deadlock:
  "\<exists>s. reachable False fs 2 req m s \<and> asleep (pcs s 0) \<and> asleep (pcs s 1) \<and> asleep (pcs s 2) \<and>
     (\<nexists>s'. step False fs 2 req s s')"
proof -
  define q where "q = put_request (req 1) (m\<lparr>sh_state := STATE_IDLE\<rparr>)"
  define r where "r = service_action fs q"
  have [simp]: "sh_state q = STATE_SERVICE_ACTION" "sh_state r = STATE_SERVER_RESPONSE"
    by (simp_all add: q_def r_def)
  let ?R = "(step False fs 2 req)\<^sup>*\<^sup>*"
  have "?R (initial m) (three None q Woken Waiting2 Start)" unfolding q_def by (rule client1_called)
  also have "?R \<dots> (three (Some 2) q Woken Waiting2 Check)" by (intro r_into_rtranclp client2_moves)
  also have "?R \<dots> (three None q Woken Waiting2 Waiting)" by (intro r_into_rtranclp client2_moves) simp
  also have "?R \<dots> (three (Some 0) q Check Waiting2 Waiting)" by (intro r_into_rtranclp server_relocks)
  also have "?R \<dots> (three (Some 0) r Check Waiting2 Woken)"
    using server_acts(2) [of q Waiting fs req "Some 0" Waiting2] by (simp add: asleep_def r_def)
  also have "?R \<dots> (three None r Waiting Waiting2 Woken)" by (intro r_into_rtranclp server_waits) simp
  also have "?R \<dots> (three (Some 2) r Waiting Waiting2 Check)" by (intro r_into_rtranclp client2_moves)
  also have "?R \<dots> (three None r Waiting Waiting2 Waiting)" by (intro r_into_rtranclp client2_moves) simp
  finally have "reachable False fs 2 req m (three None r Waiting Waiting2 Waiting)" by (simp add: reachable_def)
  then show ?thesis using all_asleep_stuck [of Waiting Waiting2 Waiting fs req r]
    by (intro exI [of _ "three None r Waiting Waiting2 Waiting"]) (simp add: asleep_def)
qed

text \<open>
  A client reads the error and the result after it has let go of the mutex, so with two clients it can be
  given those of the other one's request.
\<close>

theorem result_read_after_unlock:
  "\<exists>s m'. reachable False fs 2 req m s \<and> pcs s 1 = Finished \<and>
     got s 1 = Some (sh_error (service_action fs (put_request (req 2) m')),
                     m_result (sh_data (service_action fs (put_request (req 2) m'))))"
proof -
  define q where "q = put_request (req 1) (m\<lparr>sh_state := STATE_IDLE\<rparr>)"
  define r where "r = service_action fs q"
  define q2 where "q2 = put_request (req 2) (makeIdle r)"
  define r2 where "r2 = service_action fs q2"
  have [simp]: "sh_state q = STATE_SERVICE_ACTION" "sh_state r = STATE_SERVER_RESPONSE"
    "sh_state q2 = STATE_SERVICE_ACTION"
    by (simp_all add: q_def r_def q2_def)
  let ?R = "(step False fs 2 req)\<^sup>*\<^sup>*"
  have "?R (initial m) (three (Some 1) r Waiting Check2 Start)" unfolding r_def q_def by (rule client1_answered)
  also have "?R \<dots> (three None (makeIdle r) Woken Reading Start)"
    using client1_moves(5) [of r Waiting fs req "Some 1" Start] by (simp add: asleep_def)
  also have "?R \<dots> (three (Some 2) (makeIdle r) Woken Reading Check)" by (intro r_into_rtranclp client2_moves)
  also have "?R \<dots> (three (Some 2) q2 Woken Reading Check2)"
    using client2_moves(3) [of "makeIdle r" Woken Reading fs req "Some 2"] by (simp add: asleep_def q2_def)
  also have "?R \<dots> (three None q2 Woken Reading Waiting2)" by (intro r_into_rtranclp client2_moves) simp
  also have "?R \<dots> (three (Some 0) q2 Check Reading Waiting2)" by (intro r_into_rtranclp server_relocks)
  also have "?R \<dots> (three (Some 0) r2 Check Reading Woken2)"
    using server_acts(2) [of q2 Waiting2 fs req "Some 0" Reading] by (simp add: asleep_def r2_def)
  finally have reach: "?R (initial m) (three (Some 0) r2 Check Reading Woken2)" .
  let ?s = "three (Some 0) r2 Check Reading Woken2"
  let ?s' = "?s\<lparr>got := (got ?s)(1 \<mapsto> (sh_error (mem ?s), m_result (sh_data (mem ?s)))), pcs := (pcs ?s)(1 := Finished)\<rparr>"
  have "step False fs 2 req ?s ?s'" by (rule step.client_read) simp_all
  with reach have "reachable False fs 2 req m ?s'" unfolding reachable_def by (rule rtranclp.rtrancl_into_rtrancl)
  then show ?thesis by (intro exI [of _ ?s'] exI [of _ "makeIdle r"]) (simp add: r2_def q2_def)
qed

theorem response_belongs_to_caller_witness:
  "\<exists>s. reachable False (demo_fs 0 []) 2 demo_request demo_shared s \<and> pcs s 1 = Check2 \<and>
     sh_state (mem s) = STATE_SERVER_RESPONSE \<and>
     (\<exists>m'. mem s = service_action (demo_fs 0 []) (put_request (demo_request 1) m')) \<and> \<not> inside (pcs s 2)"
proof -
  let ?s = "three (Some 1) (service_action (demo_fs 0 []) (put_request (demo_request 1)
    (demo_shared\<lparr>sh_state := STATE_IDLE\<rparr>))) Waiting Check2 Start"
  have "reachable False (demo_fs 0 []) 2 demo_request demo_shared ?s" unfolding reachable_def by (rule client1_answered)
  moreover have "pcs ?s 1 = Check2" "sh_state (mem ?s) = STATE_SERVER_RESPONSE" by simp_all
  ultimately show ?thesis using response_belongs_to_caller [of False "demo_fs 0 []" 2 demo_request demo_shared ?s 1] by fastforce
qed

end
