(* ===== verification/Xposed.thy ===== *)
theory Xposed
  imports Prelude "HOL-Library.Word"
begin

text \<open>
  The helpers of \<open>src/Xposed-master/xposed.cpp\<close>: the property file, the special command line options, the
  environment variables, the runtime detection, the process name and the capabilities.  Theory \<open>Startup\<close> has
  the start-up sequence that calls them.

  The files are arguments (a file is its text, \<open>None\<close> if it cannot be opened), and so are the system
  properties.  Char buffers are lists with explicit indices; \<open>Inl\<close> is an access outside of a buffer.
\<close>

unbundle bit_operations_syntax

datatype bad_access = Before_buffer | Beyond_buffer

section \<open>The property file\<close>

text \<open>\<open>do { *tmp = 0; tmp--; } while (isspace(*tmp));\<close>\<close>

fun trim_key :: "string \<Rightarrow> nat \<Rightarrow> bad_access + string" where
  "trim_key buf tmp =
     (let buf1 = buf[tmp := NUL]
      in case tmp of
           0 \<Rightarrow> Inl Before_buffer
         | Suc tmp1 \<Rightarrow> if isspace (buf1 ! tmp1) then trim_key buf1 tmp1 else Inr buf1)"

text \<open>\<open>do { value++; } while (isspace(*value));\<close>\<close>

function skip_value :: "string \<Rightarrow> nat \<Rightarrow> nat" where
  "skip_value buf v =
     (if v + 1 < length buf \<and> isspace (buf ! (v + 1)) then skip_value buf (v + 1) else v + 1)"
  by pat_completeness auto
termination
  by (relation "measure (\<lambda>(buf, v). length buf - v)") auto

declare trim_key.simps [simp del] skip_value.simps [simp del]

text \<open>
  One pass of the loop over the string \<open>line\<close> in the buffer: nothing for a line that is skipped, otherwise the
  key and the value.
\<close>

definition prop_line :: "string \<Rightarrow> bad_access + (string \<times> string) option" where
  "prop_line line =
     (let buf = line @ [NUL];
          key = length (takeWhile isspace buf)
      in if buf ! key = CHR ''#'' then Inr None
         else if CHR ''='' \<notin> set line then Inr None
         else let value = length (takeWhile (\<lambda>c. c \<noteq> CHR ''='') line)
              in case trim_key buf value of
                   Inl e \<Rightarrow> Inl e
                 | Inr buf1 \<Rightarrow>
                     let value1 = skip_value buf1 value;
                         text = cut (drop value1 buf1)
                     in Inr (Some (cut (drop key buf1), takeWhile (\<lambda>c. c \<noteq> NL \<and> c \<noteq> CR) text)))"

record version =
  xposedVersion :: string
  xposedVersionInt :: u32

definition unknown_version :: version where
  "unknown_version = \<lparr>xposedVersion = ''unknown (invalid /system/xposed.prop)'', xposedVersionInt = 0\<rparr>"

definition prop_entry :: "string \<times> string \<Rightarrow> version \<Rightarrow> version" where
  "prop_entry e v =
     (if fst e = ''version'' \<and> snd e \<noteq> []
      then v\<lparr>xposedVersion := snd e, xposedVersionInt := word_of_int (atoi (snd e))\<rparr>
      else v)"

fun prop_lines :: "string list \<Rightarrow> version \<Rightarrow> bad_access + version" where
  "prop_lines [] v = Inr v"
| "prop_lines (l # ls) v =
     (case prop_line l of
        Inl e \<Rightarrow> Inl e
      | Inr None \<Rightarrow> prop_lines ls v
      | Inr (Some e) \<Rightarrow> prop_lines ls (prop_entry e v))"

definition parseXposedProp :: "string option \<Rightarrow> version \<Rightarrow> bad_access + version" where
  "parseXposedProp file v = (case file of None \<Rightarrow> Inr v | Some fp \<Rightarrow> prop_lines (fgets_lines 512 fp) v)"

section \<open>Command line, environment, runtime\<close>

text \<open>The cached SDK version; \<open>property\<close> is the value of \<open>ro.build.version.sdk\<close>.\<close>

definition getSdkVersion :: "string option \<Rightarrow> int \<Rightarrow> int" where
  "getSdkVersion property sdkVersion =
     (if sdkVersion < 0 then atoi (case property of None \<Rightarrow> ''0'' | Some s \<Rightarrow> s) else sdkVersion)"

text \<open>
  \<open>handleOptions\<close> has an option to handle, or it notes where the argument strings are; \<open>argv\<close> gives address
  and text of every argument.
\<close>

datatype handled =
    Show_version
  | Test_safemode
  | Arg_block nat nat

definition handleOptions :: "(nat \<times> string) list \<Rightarrow> handled" where
  "handleOptions argv =
     (if length argv = 2 \<and> snd (argv ! 1) = ''--xposedversion'' then Show_version
      else if length argv = 2 \<and> snd (argv ! 1) = ''--xposedtestsafemode'' then Test_safemode
      else let start = fst (argv ! 0);
               fin = fst (argv ! (length argv - 1)) + length (snd (argv ! (length argv - 1))) + 1
           in Arg_block start (fin - start))"

fun superuser_args :: "bool \<Rightarrow> string list \<Rightarrow> bool" where
  "superuser_args mightBeSuperuser [] = False"
| "superuser_args mightBeSuperuser (arg # args) =
     (if arg = ''com.noshufou.android.su.RESULT'' \<or> arg = ''eu.chainfire.supersu.NativeAccess'' then True
      else if mightBeSuperuser \<and> arg = ''--user'' then True
      else case strrchr arg CHR ''.'' of
             None \<Rightarrow> superuser_args mightBeSuperuser args
           | Some lastComponent \<Rightarrow>
               superuser_args
                 (mightBeSuperuser \<or> lastComponent = ''.RequestActivity'' \<or> lastComponent = ''.NotifyActivity''
                  \<or> lastComponent = ''.SuReceiver'') args)"

text \<open>Without a class name (a null pointer) the comparison is undefined.\<close>

definition shouldIgnoreCommand :: "string option \<Rightarrow> string list \<Rightarrow> bool option" where
  "shouldIgnoreCommand startClassName argv =
     (if length argv < 4 then Some False
      else map_option (\<lambda>className. className = ''com.android.commands.am.Am'' \<and> (argv ! 2 = ''broadcast'' \<or> argv ! 2 = ''start'') \<and>
          superuser_args False (drop 3 argv)) startClassName)"

type_synonym environ = "string \<rightharpoonup> string"

definition addPathToEnv :: "string \<Rightarrow> string \<Rightarrow> environ \<Rightarrow> bool \<times> environ" where
  "addPathToEnv name path env =
     (case env name of
        None \<Rightarrow> (True, env(name \<mapsto> path))
      | Some oldPath \<Rightarrow>
          let text = path @ '':'' @ oldPath; newPath = strlcpy 4096 text
          in if length text \<ge> 4096 then (False, env) else (True, env(name \<mapsto> newPath)))"

definition XPOSED_JAR :: string where
  "XPOSED_JAR = ''/system/framework/XposedBridge.jar''"

text \<open>\<open>readable\<close> is \<open>access(path, R_OK) == 0\<close>, \<open>exists\<close> is \<open>access(path, F_OK) == 0\<close>.\<close>

definition addJarToClasspath :: "(string \<Rightarrow> bool) \<Rightarrow> environ \<Rightarrow> bool \<times> environ" where
  "addJarToClasspath readable env =
     (if readable XPOSED_JAR then addPathToEnv ''CLASSPATH'' XPOSED_JAR env else (False, env))"

definition htcAdjustSystemServerClassPath :: "(string \<Rightarrow> bool) \<Rightarrow> environ \<Rightarrow> environ" where
  "htcAdjustSystemServerClassPath exists env =
     (if \<not> exists ''/system/framework/ub.jar'' then env
      else snd (addPathToEnv ''SYSTEMSERVERCLASSPATH'' ''/system/framework/ub.jar'' env))"

datatype runtime = Dalvik | Art

text \<open>The library for a runtime, in the directory of a 64-bit or a 32-bit build.\<close>

definition XPOSED_LIB :: "bool \<Rightarrow> runtime \<Rightarrow> string" where
  "XPOSED_LIB lp64 r =
     (if lp64 then ''/system/lib64/'' else ''/system/lib/'') @
     (case r of Dalvik \<Rightarrow> ''libxposed_dalvik.so'' | Art \<Rightarrow> ''libxposed_art.so'')"

fun find_runtime :: "string list \<Rightarrow> runtime option" where
  "find_runtime [] = None"
| "find_runtime (line # ls) =
     (case strrchr line CHR ''/'' of
        None \<Rightarrow> find_runtime ls
      | Some libname \<Rightarrow>
          if tl libname = ''libdvm.so'' @ [NL] then Some Dalvik
          else if tl libname = ''libart.so'' @ [NL] then Some Art
          else find_runtime ls)"

definition determineRuntime :: "string option \<Rightarrow> runtime option" where
  "determineRuntime maps = (case maps of None \<Rightarrow> None | Some fp \<Rightarrow> find_runtime (fgets_lines 256 fp))"

section \<open>Process name and capabilities\<close>

text \<open>The block of the argument strings after \<open>setProcessName\<close>.\<close>

definition setProcessName :: "nat \<Rightarrow> string \<Rightarrow> string" where
  "setProcessName argBlockLength name =
     (let block = replicate argBlockLength NUL; s = strlcpy argBlockLength name
      in if argBlockLength = 0 then block else s @ [NUL] @ drop (length s + 1) block)"

record cap_data =
  effective :: u32
  permitted :: u32
  inheritable :: u32

definition no_caps :: cap_data where
  "no_caps = \<lparr>effective = 0, permitted = 0, inheritable = 0\<rparr>"

definition CAP_TO_INDEX :: "int \<Rightarrow> nat" where
  "CAP_TO_INDEX x = nat (x div 32)"

definition CAP_TO_MASK :: "int \<Rightarrow> u32" where
  "CAP_TO_MASK x = push_bit (nat (x mod 32)) 1"

text \<open>\<open>keep\<close> ends with a negative entry; a list without one is read beyond its end.\<close>

fun keep_caps :: "int list \<Rightarrow> cap_data list \<Rightarrow> bad_access + cap_data list" where
  "keep_caps [] cap = Inl Beyond_buffer"
| "keep_caps (k # ks) cap =
     (if k < 0 then Inr cap
      else let i = CAP_TO_INDEX k
           in if length cap \<le> i then Inl Beyond_buffer
              else keep_caps ks (cap[i := (cap ! i)\<lparr>permitted := permitted (cap ! i) OR CAP_TO_MASK k\<rparr>]))"

definition copy_permitted :: "cap_data \<Rightarrow> cap_data" where
  "copy_permitted c = c\<lparr>effective := permitted c, inheritable := permitted c\<rparr>"

text \<open>The data passed to \<open>capset\<close>.\<close>

definition dropCapabilities :: "int list option \<Rightarrow> bad_access + cap_data list" where
  "dropCapabilities keep =
     (case keep of
        None \<Rightarrow> Inr [no_caps, no_caps]
      | Some ks \<Rightarrow>
          (case keep_caps ks [no_caps, no_caps] of
             Inl e \<Rightarrow> Inl e
           | Inr cap \<Rightarrow> Inr (map copy_permitted cap)))"

section \<open>Lines of the property file\<close>

definition rstrip :: "string \<Rightarrow> string" where
  "rstrip s = rev (dropWhile isspace (rev s))"

text \<open>What a line of the file means: key and value without the blanks around them.\<close>

definition entry_of :: "string \<Rightarrow> (string \<times> string) option" where
  "entry_of line =
     (let l = dropWhile isspace line
      in if CHR ''='' \<notin> set l \<or> hd l = CHR ''#'' then None
         else Some (rstrip (takeWhile (\<lambda>c. c \<noteq> CHR ''='') l),
                    takeWhile (\<lambda>c. c \<noteq> NL \<and> c \<noteq> CR) (dropWhile isspace (tl (dropWhile (\<lambda>c. c \<noteq> CHR ''='') l)))))"

definition blank_key :: "string \<Rightarrow> bool" where
  "blank_key line \<longleftrightarrow> (\<exists>v. dropWhile isspace line = CHR ''='' # v)"

lemma trim_key_run:
  assumes "list_all isspace trail" "body \<noteq> [] \<longrightarrow> \<not> isspace (last body)"
  shows "trim_key (body @ trail @ c # rest) (length body + length trail) =
    (if body = [] then Inl Before_buffer else Inr (body @ replicate (length trail + 1) NUL @ rest))"
  using assms(1)
proof (induction trail arbitrary: c rest rule: rev_induct)
  case Nil
  show ?case
  proof (cases body rule: rev_cases)
    case Nil
    then show ?thesis by (simp add: trim_key.simps)
  next
    case (snoc bs b)
    with assms(2) show ?thesis by (simp add: trim_key.simps nth_append list_update_append)
  qed
next
  case (snoc t ts)
  have "trim_key (body @ (ts @ [t]) @ c # rest) (length body + length (ts @ [t])) =
      trim_key (body @ ts @ t # NUL # rest) (length body + length ts)"
    using snoc.prems by (subst trim_key.simps) (simp add: nth_append list_update_append)
  also have "\<dots> = (if body = [] then Inl Before_buffer
      else Inr (body @ replicate (length ts + 1) NUL @ NUL # rest))"
    using snoc by simp
  finally show ?case by (simp add: replicate_append_same [symmetric])
qed

lemma skip_value_run:
  assumes "is_cstr v"
  shows "skip_value (p @ c # v @ [NUL]) (length p) = length p + 1 + length (takeWhile isspace v)"
  using assms
proof (induction v arbitrary: p c)
  case Nil
  show ?case by (subst skip_value.simps) (simp add: nth_append)
next
  case (Cons a v)
  show ?case
  proof (cases "isspace a")
    case True
    have "skip_value (p @ c # (a # v) @ [NUL]) (length p) = skip_value ((p @ [c]) @ a # v @ [NUL]) (length (p @ [c]))"
      using True by (subst skip_value.simps) (simp add: nth_append)
    also have "\<dots> = length (p @ [c]) + 1 + length (takeWhile isspace v)" using Cons by (intro Cons.IH) simp
    finally show ?thesis using True by simp
  next
    case False
    then show ?thesis by (subst skip_value.simps) (simp add: nth_append)
  qed
qed

text \<open>A line with a separator: blanks, key, blanks, separator, value.\<close>

lemma line_parts:
  assumes "CHR ''='' \<in> set line"
  obtains lead body trail v where "line = lead @ body @ trail @ CHR ''='' # v"
    "list_all isspace lead" "list_all isspace trail" "CHR ''='' \<notin> set (lead @ body @ trail)"
    "body \<noteq> [] \<longrightarrow> \<not> isspace (hd body) \<and> \<not> isspace (last body)" "body = [] \<longrightarrow> trail = []"
proof -
  obtain w v where w: "line = w @ CHR ''='' # v" "CHR ''='' \<notin> set w" using assms by (meson split_list_first)
  define lead where "lead = takeWhile isspace w"
  define kk where "kk = dropWhile isspace w"
  define body where "body = rstrip kk"
  define trail where "trail = rev (takeWhile isspace (rev kk))"
  have kk: "kk = body @ trail" unfolding body_def trail_def rstrip_def
    by (metis rev_append rev_rev_ident takeWhile_dropWhile_id)
  have "w = lead @ body @ trail" unfolding kk [symmetric] by (simp add: lead_def kk_def)
  moreover have "list_all isspace lead" "list_all isspace trail"
    by (auto simp: lead_def trail_def list_all_iff dest: set_takeWhileD)
  moreover have "\<not> isspace (last body)" if "body \<noteq> []"
    using that hd_dropWhile [of isspace "rev kk"] by (auto simp: body_def rstrip_def last_rev)
  moreover have "\<not> isspace (hd body)" if "body \<noteq> []"
    using that hd_dropWhile [of isspace w] kk by (metis append_is_Nil_conv hd_append2 kk_def)
  moreover have "trail = []" if "body = []"
  proof (rule ccontr)
    assume "trail \<noteq> []"
    then have "isspace (hd trail)" "kk = trail" using kk that \<open>list_all isspace trail\<close> by (simp_all add: list_all_iff)
    then show False using \<open>trail \<noteq> []\<close> hd_dropWhile [of isspace w] by (simp add: kk_def)
  qed
  ultimately show thesis using that w by auto
qed

lemma dropWhile_all: "list_all P xs \<Longrightarrow> dropWhile P (xs @ ys) = dropWhile P ys"
  by (simp add: list_all_iff)

lemma takeWhile_to: "c \<notin> set xs \<Longrightarrow> takeWhile (\<lambda>d. d \<noteq> c) (xs @ c # ys) = xs"
  by (subst takeWhile_append2) auto

lemma dropWhile_to: "c \<notin> set xs \<Longrightarrow> dropWhile (\<lambda>d. d \<noteq> c) (xs @ c # ys) = c # ys"
  by (subst dropWhile_append2) auto

lemma isspace_special [simp]: "\<not> isspace CHR ''=''" "\<not> isspace CHR ''#''" "isspace NL"
  by (simp_all add: isspace_def)

lemma takeWhile_lead:
  "list_all P xs \<Longrightarrow> ys = [] \<or> \<not> P (hd ys) \<Longrightarrow> takeWhile P (xs @ ys) = xs"
  by (cases ys) (auto simp: list_all_iff takeWhile_tail)

lemma prop_line_none:
  "CHR ''='' \<notin> set line \<Longrightarrow> prop_line line = Inr None \<and> \<not> blank_key line \<and> entry_of line = None"
  by (auto simp: prop_line_def entry_of_def blank_key_def Let_def dest: set_dropWhileD)

lemma prop_line_eq:
  assumes "is_cstr line"
  shows "prop_line line = (if blank_key line then Inl Before_buffer else Inr (entry_of line))"
proof (cases "CHR ''='' \<in> set line")
  case False
  then show ?thesis by (simp add: prop_line_none)
next
  case True
  then obtain lead body trail v where parts: "line = lead @ body @ trail @ CHR ''='' # v"
    "list_all isspace lead" "list_all isspace trail" "CHR ''='' \<notin> set (lead @ body @ trail)"
    "body \<noteq> [] \<longrightarrow> \<not> isspace (hd body) \<and> \<not> isspace (last body)" "body = [] \<longrightarrow> trail = []"
    by (rule line_parts)
  let ?rest = "body @ trail @ CHR ''='' # v"
  have hd_rest: "\<not> isspace (hd ?rest)" using parts(5,6) by (cases body) auto
  have "hd (?rest @ [NUL]) = hd ?rest" by (rule hd_append2) simp
  then have "takeWhile isspace (lead @ ?rest @ [NUL]) = lead" using hd_rest by (intro takeWhile_lead [OF parts(2)]) simp
  then have lead: "takeWhile isspace (line @ [NUL]) = lead" "dropWhile isspace line = ?rest"
    using parts(1) hd_rest by (auto simp: dropWhile_all [OF parts(2)] intro: dropWhile_eq_self_iff [THEN iffD2])
  have val: "takeWhile (\<lambda>c. c \<noteq> CHR ''='') line = lead @ body @ trail"
    using takeWhile_to [OF parts(4), of v] parts(1) by simp
  have key: "(line @ [NUL]) ! length lead = hd ?rest" using parts(1,6) by (cases body) (auto simp: nth_append)
  show ?thesis
  proof (cases "body = []")
    case True
    with parts(6) have line: "line @ [NUL] = [] @ lead @ CHR ''='' # (v @ [NUL])" using parts(1) by simp
    have "prop_line line = Inl Before_buffer"
      using trim_key_run [OF parts(2), of "[]" "CHR ''=''" "v @ [NUL]"] lead(1) val key True parts(6) \<open>CHR ''='' \<in> set line\<close>
      unfolding prop_line_def Let_def by (simp add: line)
    moreover have "blank_key line" using lead(2) True parts(6) by (simp add: blank_key_def)
    ultimately show ?thesis by simp
  next
    case False
    let ?buf1 = "(lead @ body) @ replicate (length trail + 1) NUL @ v @ [NUL]"
    have nb: "\<not> blank_key line" using False lead(2) parts(4) by (cases body) (auto simp: blank_key_def)
    have trim: "trim_key (line @ [NUL]) (length (lead @ body @ trail)) = Inr ?buf1"
      using trim_key_run [OF parts(3), of "lead @ body" "CHR ''=''" "v @ [NUL]"] parts(1,5) False by (simp add: add.assoc)
    have skip: "skip_value ?buf1 (length (lead @ body @ trail)) = length (lead @ body @ trail) + 1 + length (takeWhile isspace v)"
      using skip_value_run [of v "lead @ body @ replicate (length trail) NUL" NUL] assms parts(1)
      by (simp add: replicate_append_same [symmetric])
    have "is_cstr (dropWhile isspace v)" using assms parts(1) by (auto simp: is_cstr_def dest: set_dropWhileD)
    then have after: "cut (drop (length (lead @ body @ trail) + 1 + length (takeWhile isspace v)) ?buf1) = dropWhile isspace v"
      by (simp add: dropWhile_eq_drop [symmetric] drop_append takeWhile_cstr diff_is_0_eq' [OF length_takeWhile_le])
    have body: "cut (drop (length lead) ?buf1) = body" using assms parts(1) by (simp add: takeWhile_cstr)
    have "takeWhile (\<lambda>c. c \<noteq> CHR ''='') ?rest = body @ trail" "dropWhile (\<lambda>c. c \<noteq> CHR ''='') ?rest = CHR ''='' # v"
      using takeWhile_to [of "CHR ''=''" "body @ trail" v] dropWhile_to [of "CHR ''=''" "body @ trail" v] parts(4) by simp_all
    moreover have "rstrip (body @ trail) = body" using parts(3,5) False
      by (cases body rule: rev_cases) (simp_all add: rstrip_def dropWhile_all)
    ultimately have "entry_of line = (if hd body = CHR ''#'' then None
        else Some (body, takeWhile (\<lambda>c. c \<noteq> NL \<and> c \<noteq> CR) (dropWhile isspace v)))"
      using lead(2) False by (simp add: entry_of_def Let_def)
    then show ?thesis using nb trim skip after body lead(1) val key False \<open>CHR ''='' \<in> set line\<close>
      unfolding prop_line_def Let_def by simp
  qed
qed

lemma dropWhile_space_newline:
  "dropWhile isspace (l @ [NL]) = (if dropWhile isspace l = [] then [] else dropWhile isspace l @ [NL])"
  by (induction l) auto

lemma entry_of_newline:
  assumes "NL \<notin> set l"
  shows "entry_of (l @ [NL]) = entry_of l" "blank_key (l @ [NL]) \<longleftrightarrow> blank_key l"
proof -
  let ?d = "dropWhile isspace l"
  show "blank_key (l @ [NL]) \<longleftrightarrow> blank_key l"
    by (cases ?d) (auto simp: blank_key_def dropWhile_space_newline simp del: dropWhile_eq_Nil_conv)
  show "entry_of (l @ [NL]) = entry_of l"
  proof (cases "CHR ''='' \<in> set ?d")
    case False
    then show ?thesis by (auto simp: entry_of_def dropWhile_space_newline)
  next
    case True
    then obtain k v where kv: "?d = k @ CHR ''='' # v" "CHR ''='' \<notin> set k" by (meson split_list_first)
    have "NL \<notin> set ?d" using assms by (auto dest: set_dropWhileD)
    then have "takeWhile (\<lambda>c. c \<noteq> NL \<and> c \<noteq> CR) (dropWhile isspace (v @ [NL])) =
        takeWhile (\<lambda>c. c \<noteq> NL \<and> c \<noteq> CR) (dropWhile isspace v)"
      by (cases "dropWhile isspace v = []") (simp_all add: dropWhile_space_newline takeWhile_tail del: dropWhile_eq_Nil_conv)
    moreover have "hd (?d @ [NL]) = hd ?d" "?d \<noteq> []" using kv(1) by (cases k; simp)+
    ultimately show ?thesis
      using takeWhile_to [OF kv(2)] dropWhile_to [OF kv(2)] by (simp add: entry_of_def dropWhile_space_newline kv(1) Let_def)
  qed
qed

lemma prop_lines_eq:
  "list_all is_cstr ls \<Longrightarrow>
    prop_lines ls v =
      (if list_ex blank_key ls then Inl Before_buffer else Inr (fold prop_entry (List.map_filter entry_of ls) v))"
  by (induction ls arbitrary: v) (auto simp: prop_line_eq List.map_filter_simps split: option.splits)

text \<open>
  C37 \<open>parseXposedProp\<close> takes the version from the last \<open>version\<close> entry with a value, where key and value
  are what a line has before and after its first \<open>=\<close> without the blanks around them, and comments are
  skipped.  A line that has nothing but blanks before the \<open>=\<close> makes it read, and perhaps write, before the
  start of its buffer.
\<close>

theorem version_of_prop_file:
  assumes "list_all (text_line 512) ls"
  shows "parseXposedProp (Some (unlines ls)) v =
    (if list_ex blank_key ls then Inl Before_buffer else Inr (fold prop_entry (List.map_filter entry_of ls) v))"
proof -
  have "list_all is_cstr (map (\<lambda>l. l @ [NL]) ls)" using assms by (auto simp: list_all_iff text_line_def)
  moreover have "list_ex blank_key (map (\<lambda>l. l @ [NL]) ls) = list_ex blank_key ls"
    and "List.map_filter entry_of (map (\<lambda>l. l @ [NL]) ls) = List.map_filter entry_of ls"
    using assms by (induction ls) (auto simp: text_line_def entry_of_newline List.map_filter_simps split: option.splits)
  ultimately show ?thesis
    using fgets_lines_unlines [OF assms] by (simp add: parseXposedProp_def prop_lines_eq)
qed

theorem version_of_prop_file_witness:
  "parseXposedProp (Some (unlines [''# Xposed'', '' version = 65  '', ''arch=arm''])) unknown_version =
     Inr \<lparr>xposedVersion = ''65  '', xposedVersionInt = 65\<rparr>"
proof -
  have "list_all (text_line 512) [''# Xposed'', '' version = 65  '', ''arch=arm'']" by (simp add: text_line_def)
  note version_of_prop_file [OF this, of unknown_version]
  moreover have "list_ex blank_key [''# Xposed'', '' version = 65  '', ''arch=arm''] = False"
    by (simp add: blank_key_def isspace_def)
  moreover have "List.map_filter entry_of [''# Xposed'', '' version = 65  '', ''arch=arm''] = [(''version'', ''65  ''), (''arch'', ''arm'')]"
    by code_simp
  moreover have "atoi ''65  '' = 65" by code_simp
  ultimately show ?thesis by (simp add: prop_entry_def unknown_version_def)
qed

section \<open>Capabilities, process name, commands, environment\<close>

lemma bit_CAP_TO_MASK: "0 \<le> k \<Longrightarrow> b < 32 \<Longrightarrow> bit (CAP_TO_MASK k) b \<longleftrightarrow> int b = k mod 32"
  by (auto simp: CAP_TO_MASK_def bit_exp_iff)

lemma cap_position: "0 \<le> k \<Longrightarrow> b < 32 \<Longrightarrow> CAP_TO_INDEX k = i \<and> int b = k mod 32 \<longleftrightarrow> k = 32 * int i + int b"
  by (auto simp: CAP_TO_INDEX_def)

lemma keep_caps_bits:
  assumes "list_all (\<lambda>k. 0 \<le> k \<and> k < 64) ks" "length cap = 2"
  shows "\<exists>cap'. keep_caps (ks @ [- 1]) cap = Inr cap' \<and> length cap' = 2 \<and>
    (\<forall>i < 2. \<forall>b < 32. bit (permitted (cap' ! i)) b \<longleftrightarrow> bit (permitted (cap ! i)) b \<or> 32 * int i + int b \<in> set ks)"
  using assms
proof (induction ks arbitrary: cap)
  case Nil
  then show ?case by simp
next
  case (Cons k ks)
  let ?i = "CAP_TO_INDEX k"
  let ?cap = "cap[?i := (cap ! ?i)\<lparr>permitted := permitted (cap ! ?i) OR CAP_TO_MASK k\<rparr>]"
  have k: "0 \<le> k" "?i < 2" using Cons.prems by (auto simp: CAP_TO_INDEX_def)
  obtain cap' where cap': "keep_caps (ks @ [- 1]) ?cap = Inr cap'" "length cap' = 2"
    "\<forall>i < 2. \<forall>b < 32. bit (permitted (cap' ! i)) b \<longleftrightarrow> bit (permitted (?cap ! i)) b \<or> 32 * int i + int b \<in> set ks"
    using Cons.IH [of ?cap] Cons.prems by auto
  have "bit (permitted (?cap ! i)) b \<longleftrightarrow> bit (permitted (cap ! i)) b \<or> k = 32 * int i + int b" if "i < 2" "b < 32" for i b
    using that k Cons.prems(2) cap_position [of k b i] bit_CAP_TO_MASK [of k b] by (auto simp: nth_list_update bit_or_iff)
  then show ?case using cap' k Cons.prems(2) by (intro exI [of _ cap']) auto
qed

text \<open>
  The capability sets passed to \<open>capset\<close> have exactly the bits of the capabilities to keep, the same in the
  effective, permitted and inheritable sets, for all capabilities the two data words have room for.
\<close>

theorem dropCapabilities_keeps_exactly:
  assumes "list_all (\<lambda>k. 0 \<le> k \<and> k < 64) ks"
  shows "\<exists>cap. dropCapabilities (Some (ks @ [- 1])) = Inr cap \<and> length cap = 2 \<and>
    (\<forall>i < 2. \<forall>b < 32. bit (permitted (cap ! i)) b \<longleftrightarrow> 32 * int i + int b \<in> set ks) \<and>
    (\<forall>i < 2. effective (cap ! i) = permitted (cap ! i) \<and> inheritable (cap ! i) = permitted (cap ! i))"
proof -
  have "length [no_caps, no_caps] = 2" "bit (permitted ([no_caps, no_caps] ! i)) b \<longleftrightarrow> False" if "i < 2" for i b
    using that by (auto simp: no_caps_def less_2_cases_iff)
  with keep_caps_bits [OF assms, of "[no_caps, no_caps]"] obtain cap where
    "keep_caps (ks @ [- 1]) [no_caps, no_caps] = Inr cap" "length cap = 2"
    "\<forall>i < 2. \<forall>b < 32. bit (permitted (cap ! i)) b \<longleftrightarrow> 32 * int i + int b \<in> set ks"
    by auto
  then show ?thesis
    by (intro exI [of _ "map copy_permitted cap"]) (simp add: dropCapabilities_def copy_permitted_def)
qed

theorem dropCapabilities_keeps_exactly_witness:
  "\<exists>cap. dropCapabilities (Some ([34] @ [- 1])) = Inr cap \<and> bit (permitted (cap ! 1)) 2 \<and> \<not> bit (permitted (cap ! 0)) 2"
proof -
  obtain cap where "dropCapabilities (Some ([34] @ [- 1])) = Inr cap"
    and "\<forall>i < 2. \<forall>b < 32. bit (permitted (cap ! i)) b \<longleftrightarrow> 32 * int i + int b \<in> set [34]"
    using dropCapabilities_keeps_exactly [of "[34]"] by auto
  then show ?thesis by (intro exI [of _ cap]) auto
qed

text \<open>The name is written inside of the block of the argument strings, cut to its size.\<close>

lemma setProcessName_block:
  assumes "0 < n" "is_cstr name"
  shows "length (setProcessName n name) = n" "cstr_at (setProcessName n name) 0 = Some (take (n - 1) name)"
proof -
  have "is_cstr (take (n - 1) name)" using assms(2) by (auto simp: is_cstr_def dest: in_set_takeD)
  then show "length (setProcessName n name) = n" "cstr_at (setProcessName n name) 0 = Some (take (n - 1) name)"
    using assms(1) cstr_at_append [of "take (n - 1) name" "[]" "drop (length (take (n - 1) name) + 1) (replicate n NUL)"]
    by (auto simp: setProcessName_def strlcpy_def Let_def)
qed

definition superuser_action :: "string \<Rightarrow> bool" where
  "superuser_action arg \<longleftrightarrow> arg = ''com.noshufou.android.su.RESULT'' \<or> arg = ''eu.chainfire.supersu.NativeAccess''"

definition superuser_component :: "string \<Rightarrow> bool" where
  "superuser_component arg \<longleftrightarrow>
     strrchr arg CHR ''.'' \<in> {Some ''.RequestActivity'', Some ''.NotifyActivity'', Some ''.SuReceiver''}"

lemma split_Cons:
  "(\<exists>pre x post. a # xs = pre @ x # post \<and> P pre x) \<longleftrightarrow> P [] a \<or> (\<exists>pre x post. xs = pre @ x # post \<and> P (a # pre) x)"
proof
  assume "\<exists>pre x post. a # xs = pre @ x # post \<and> P pre x"
  then obtain pre x post where "a # xs = pre @ x # post" "P pre x" by blast
  then show "P [] a \<or> (\<exists>pre x post. xs = pre @ x # post \<and> P (a # pre) x)" by (cases pre) auto
next
  assume "P [] a \<or> (\<exists>pre x post. xs = pre @ x # post \<and> P (a # pre) x)"
  then show "\<exists>pre x post. a # xs = pre @ x # post \<and> P pre x" by (metis append_Cons append_Nil)
qed

lemma superuser_args_iff:
  "superuser_args m args \<longleftrightarrow>
     (\<exists>pre arg post. args = pre @ arg # post \<and>
        (superuser_action arg \<or> arg = ''--user'' \<and> (m \<or> list_ex superuser_component pre)))"
proof (induction args arbitrary: m)
  case Nil
  show ?case by simp
next
  case (Cons a args)
  have "superuser_args m (a # args) \<longleftrightarrow>
      superuser_action a \<or> m \<and> a = ''--user'' \<or> superuser_args (m \<or> superuser_component a) args"
    by (auto simp: superuser_action_def superuser_component_def split: option.splits)
  also have "\<dots> \<longleftrightarrow> (\<exists>pre arg post. a # args = pre @ arg # post \<and>
      (superuser_action arg \<or> arg = ''--user'' \<and> (m \<or> list_ex superuser_component pre)))"
    unfolding Cons.IH split_Cons [where P = "\<lambda>pre arg. superuser_action arg \<or> arg = ''--user'' \<and> (m \<or> list_ex superuser_component pre)"]
    by (auto simp: disj_assoc)
  finally show ?case .
qed

lemma addPathToEnv_first:
  "addPathToEnv name path env =
     (if length path + length (case env name of None \<Rightarrow> [] | Some old \<Rightarrow> CHR '':'' # old) < 4096 \<or> env name = None
      then (True, env(name \<mapsto> path @ (case env name of None \<Rightarrow> [] | Some old \<Rightarrow> CHR '':'' # old)))
      else (False, env))"
  by (auto simp: addPathToEnv_def strlcpy_def Let_def split: option.splits)

end
