(* ===== verification/Process.thy ===== *)
theory Process
  imports Xposed Jni
begin

text \<open>
  A process of the Xposed native layer as the sequence of system and library calls it makes.  The calls are not
  code of the repository: every call that can fail takes its success from a script, \<open>fork\<close> takes its return
  value from another, and a script that has run out means success (\<open>fork\<close> then returns in the parent).  The
  scripts of a theorem are arbitrary, so it covers every outcome, and with the return values of \<open>fork\<close> every
  process of the fork tree.

  A process ends when it exits, aborts, is replaced by \<open>execl\<close>, uses a null pointer, or stays in a service loop
  for ever; it makes no call after that.
\<close>

datatype ending = Exited int | Replaced "string list" | Serving | Waiting_forever | Aborted | Crashed

datatype pevent =
    Set_process_name string
  | Capset "cap_data list"
  | Setresgid int
  | Setcon string
  | Add_service string bool bool
  | Proxy_add_service string bool bool
  | Create_thread string
  | Start_thread_pool
  | Give_thread_pool_name
  | Looper
  | Umask int
  | Open_file string
  | Fdopen
  | Write_file string
  | Close_file
  | Rename string string
  | Pipe
  | Close_pipe_end nat
  | Dup2 int
  | Exec "string list"
  | Fork int
  | Sleep nat
  | Madvise_dontfork
  | Mmap_shared
  | Print string
  | Prctl_no_new_privs
  | Mkdir string
  | Chown_root string
  | Chmod string
  | Set_argv0 string
  | Personality int
  | Add_option string
  | Set_class string "string list"
  | Start_runtime string "string list" "bool option"
  | Call_main string jref "string list"
  | Stop_process
  | Enable_tracing
  | Runtime_exit int

text \<open>The trace tells for every call whether it succeeded; calls without a result count as successful.\<close>

datatype logged = Did pevent | Failed pevent

record proc =
  pr_trace :: "logged list"
  pr_end :: "ending option"
  pr_ok :: "bool list"
  pr_forks :: "int list"

definition emit :: "pevent \<Rightarrow> ('a proc_scheme, unit) state" where
  "emit e = State (\<lambda>s. ((), if pr_end s = None then s\<lparr>pr_trace := pr_trace s @ [Did e]\<rparr> else s))"

text \<open>A call that can fail.\<close>

definition attempt :: "pevent \<Rightarrow> ('a proc_scheme, bool) state" where
  "attempt e = State (\<lambda>s.
     if pr_end s \<noteq> None then (False, s)
     else case pr_ok s of
            [] \<Rightarrow> (True, s\<lparr>pr_trace := pr_trace s @ [Did e]\<rparr>)
          | b # bs \<Rightarrow> (b, s\<lparr>pr_trace := pr_trace s @ [if b then Did e else Failed e], pr_ok := bs\<rparr>))"

definition fork :: "('a proc_scheme, int) state" where
  "fork = State (\<lambda>s.
     if pr_end s \<noteq> None then (- 1, s)
     else case pr_forks s of
            [] \<Rightarrow> (1, s\<lparr>pr_trace := pr_trace s @ [Did (Fork 1)]\<rparr>)
          | p # ps \<Rightarrow> (p, s\<lparr>pr_trace := pr_trace s @ [Did (Fork p)], pr_forks := ps\<rparr>))"

definition stop :: "ending \<Rightarrow> ('a proc_scheme, unit) state" where
  "stop e = State (\<lambda>s. ((), if pr_end s = None then s\<lparr>pr_end := Some e\<rparr> else s))"

text \<open>The security contexts, and the call of \<open>dropCapabilities\<close> with the data it passes on.\<close>

abbreviation (input) EXIT_FAILURE :: int where "EXIT_FAILURE \<equiv> 1"

definition ctx_system :: string where
  "ctx_system = ''u:r:system_server:s0''"

definition ctx_app :: "int \<Rightarrow> string" where
  "ctx_app sdk = (if sdk \<ge> 23 then ''u:r:untrusted_app:s0:c512,c768'' else ''u:r:untrusted_app:s0'')"

definition drop_capabilities :: "int list option \<Rightarrow> ('a proc_scheme, unit) state" where
  "drop_capabilities keep =
     (case dropCapabilities keep of Inl _ \<Rightarrow> stop (Exited EXIT_FAILURE) | Inr cap \<Rightarrow> emit (Capset cap))"

section \<open>A program logic for traces\<close>

definition triple :: "('s \<Rightarrow> bool) \<Rightarrow> ('s, 'a) state \<Rightarrow> ('a \<Rightarrow> 's \<Rightarrow> bool) \<Rightarrow> bool" where
  "triple P m Q \<longleftrightarrow> (\<forall>s. P s \<longrightarrow> (case run_state m s of (x, s') \<Rightarrow> Q x s'))"

lemma tripleD: "triple P m Q \<Longrightarrow> P s \<Longrightarrow> Q (fst (run_state m s)) (snd (run_state m s))"
  by (simp add: triple_def case_prod_beta)

named_theorems vcg \<open>rules that follow the structure of the code\<close>

lemma triple_bind: "triple P m Q \<Longrightarrow> (\<And>x. triple (Q x) (f x) R) \<Longrightarrow> triple P (State_Monad.bind m f) R"
  by (fastforce simp: triple_def split: prod.splits)

lemma triple_if [vcg]: "(b \<Longrightarrow> triple P m Q) \<Longrightarrow> (\<not> b \<Longrightarrow> triple P n Q) \<Longrightarrow> triple P (if b then m else n) Q"
  by simp

lemma triple_weaken: "triple P m Q \<Longrightarrow> (\<And>s. P' s \<Longrightarrow> P s) \<Longrightarrow> (\<And>x s. Q x s \<Longrightarrow> Q' x s) \<Longrightarrow> triple P' m Q'"
  by (fastforce simp: triple_def)

text \<open>
  Precedence: \<open>req e\<close> are the calls that must have succeeded before the call \<open>e\<close> may succeed.  \<open>at req E\<close>
  says that the trace obeys this and that, unless the process has ended, all calls of \<open>E\<close> have succeeded.
\<close>

definition precedes :: "(pevent \<Rightarrow> pevent set) \<Rightarrow> logged list \<Rightarrow> bool" where
  "precedes req tr \<longleftrightarrow> (\<forall>i < length tr. \<forall>e. tr ! i = Did e \<longrightarrow> (\<forall>x \<in> req e. Did x \<in> set (take i tr)))"

definition at :: "(pevent \<Rightarrow> pevent set) \<Rightarrow> pevent set \<Rightarrow> 'a proc_scheme \<Rightarrow> bool" where
  "at req E s \<longleftrightarrow> precedes req (pr_trace s) \<and> (pr_end s = None \<longrightarrow> (\<forall>e \<in> E. Did e \<in> set (pr_trace s)))"

lemma precedes_snoc:
  "precedes req (tr @ [l]) \<longleftrightarrow>
     precedes req tr \<and> (case l of Did e \<Rightarrow> (\<forall>x \<in> req e. Did x \<in> set tr) | Failed _ \<Rightarrow> True)"
  by (auto simp: precedes_def nth_append less_Suc_eq split: logged.splits)

lemma precedes_Nil: "precedes req []"
  by (simp add: precedes_def)

lemma at_mono: "at req E s \<Longrightarrow> F \<subseteq> E \<Longrightarrow> at req F s"
  by (auto simp: at_def)

lemma at_emit: "req e \<subseteq> E \<Longrightarrow> triple (at req E) (emit e) (\<lambda>_. at req (insert e E))"
  by (auto simp: triple_def at_def emit_def precedes_snoc)

lemma at_attempt: "req e \<subseteq> E \<Longrightarrow> triple (at req E) (attempt e) (\<lambda>ok. at req (if ok then insert e E else E))"
  by (auto simp: triple_def at_def attempt_def precedes_snoc split: list.splits)

lemma at_fork: "(\<And>p. req (Fork p) \<subseteq> E) \<Longrightarrow> triple (at req E) fork (\<lambda>_. at req E)"
  by (auto simp: triple_def at_def fork_def precedes_snoc split: list.splits)

lemma at_stop: "triple (at req E) (stop x) (\<lambda>_. at req F)"
  by (auto simp: triple_def at_def stop_def)

lemma at_return: "F \<subseteq> E \<Longrightarrow> triple (at req E) (State_Monad.return x) (\<lambda>_. at req F)"
  by (auto simp: triple_def intro: at_mono)

lemma at_weaken: "triple (at req E) m (\<lambda>_. at req F') \<Longrightarrow> F \<subseteq> F' \<Longrightarrow> triple (at req E) m (\<lambda>_. at req F)"
  by (erule triple_weaken) (auto intro: at_mono)

lemma at_drop_all:
  "req (Capset [no_caps, no_caps]) \<subseteq> E \<Longrightarrow>
    triple (at req E) (drop_capabilities None) (\<lambda>_. at req (insert (Capset [no_caps, no_caps]) E))"
  by (simp add: drop_capabilities_def dropCapabilities_def at_emit)

section \<open>Code that does not return\<close>

definition ends :: "('a proc_scheme, 'b) state \<Rightarrow> bool" where
  "ends m \<longleftrightarrow> (\<forall>s. pr_end (snd (run_state m s)) \<noteq> None)"

lemma ends_stop [vcg]: "ends (stop x)"
  by (simp add: ends_def stop_def)

lemma ends_bind [vcg]: "(\<And>x. ends (f x)) \<Longrightarrow> ends (State_Monad.bind m f)"
  by (simp add: ends_def split: prod.splits)

lemma ends_if [vcg]: "(b \<Longrightarrow> ends m) \<Longrightarrow> (\<not> b \<Longrightarrow> ends n) \<Longrightarrow> ends (if b then m else n)"
  by simp

lemma ends_then_return [vcg]: "ends m \<Longrightarrow> ends (State_Monad.bind m (\<lambda>_. State_Monad.return x))"
  by (simp add: ends_def case_prod_beta)

lemma ends_case_prod [vcg]: "(\<And>x y. ends (f x y)) \<Longrightarrow> ends (case p of (x, y) \<Rightarrow> f x y)"
  by (cases p) simp

text \<open>A process in which \<open>fork\<close> returned 0 has ended: only the original one goes on.\<close>

definition original :: "'a proc_scheme \<Rightarrow> bool" where
  "original s \<longleftrightarrow> pr_end s = None \<longrightarrow> Did (Fork 0) \<notin> set (pr_trace s)"

lemma original_ends: "ends m \<Longrightarrow> triple P m (\<lambda>_. original)"
  by (simp add: triple_def ends_def original_def case_prod_beta del: not_None_eq)

lemma original_emit: "e \<noteq> Fork 0 \<Longrightarrow> triple original (emit e) (\<lambda>_. original)"
  by (auto simp: triple_def original_def emit_def)

lemma original_attempt: "e \<noteq> Fork 0 \<Longrightarrow> triple original (attempt e) (\<lambda>_. original)"
  by (auto simp: triple_def original_def attempt_def split: list.splits)

lemma original_stop: "triple original (stop x) (\<lambda>_. original)"
  by (auto simp: triple_def original_def stop_def)

lemma original_return: "triple original (State_Monad.return x) (\<lambda>_. original)"
  by (simp add: triple_def)

text \<open>After \<open>fork\<close> the code is still in the original process if the result is not 0.\<close>

lemma original_fork: "triple original fork (\<lambda>p s. p \<noteq> 0 \<longrightarrow> original s)"
  by (auto simp: triple_def original_def fork_def split: list.splits)

lemma original_fork_bind:
  assumes "\<And>p. p \<noteq> 0 \<Longrightarrow> triple original (f p) (\<lambda>_. original)" "ends (f 0)"
  shows "triple original (State_Monad.bind fork f) (\<lambda>_. original)"
proof (rule triple_bind [OF original_fork])
  fix p :: int
  show "triple (\<lambda>s. p \<noteq> 0 \<longrightarrow> original s) (f p) (\<lambda>_. original)"
  proof (cases "p = 0")
    case True
    with assms(2) show ?thesis by (simp add: original_ends)
  next
    case False
    from triple_weaken [OF assms(1) [OF False]] False show ?thesis by simp
  qed
qed

section \<open>Properties that code does not touch\<close>

text \<open>
  A property of the data a process has beside its calls, which may also say what follows from the success of the
  calls \<open>X\<close>.
\<close>

definition ignores :: "('a proc_scheme \<Rightarrow> bool) \<Rightarrow> pevent set \<Rightarrow> bool" where
  "ignores P X \<longleftrightarrow>
     (\<forall>s t r b f. P s \<longrightarrow> (\<forall>x \<in> X. Did x \<in> set t \<longrightarrow> Did x \<in> set (pr_trace s)) \<longrightarrow>
        P (s\<lparr>pr_trace := t, pr_end := r, pr_ok := b, pr_forks := f\<rparr>))"

named_theorems steady_intro \<open>rules for code that keeps a property\<close>

definition steady :: "('s \<Rightarrow> bool) \<Rightarrow> ('s, 'a) state \<Rightarrow> bool" where
  "steady P m \<longleftrightarrow> triple P m (\<lambda>_. P)"

lemma steady_return [steady_intro]: "steady P (State_Monad.return x)"
  by (simp add: steady_def triple_def)

lemma steady_bind [steady_intro]:
  "steady P m \<Longrightarrow> (\<And>x. steady P (f x)) \<Longrightarrow> steady P (State_Monad.bind m f)"
  unfolding steady_def by (rule triple_bind)

lemma steady_if [steady_intro]: "(b \<Longrightarrow> steady P m) \<Longrightarrow> (\<not> b \<Longrightarrow> steady P n) \<Longrightarrow> steady P (if b then m else n)"
  by simp

lemma steady_case_prod [steady_intro]: "(\<And>x y. steady P (f x y)) \<Longrightarrow> steady P (case p of (x, y) \<Rightarrow> f x y)"
  by (cases p) simp

lemma ignores_updates:
  assumes "ignores P X" "P s"
  shows "P (s\<lparr>pr_end := r\<rparr>)" "(\<And>x. x \<in> X \<Longrightarrow> Did x \<in> set t \<Longrightarrow> Did x \<in> set (pr_trace s)) \<Longrightarrow> P (s\<lparr>pr_trace := t\<rparr>)"
    "(\<And>x. x \<in> X \<Longrightarrow> Did x \<in> set t \<Longrightarrow> Did x \<in> set (pr_trace s)) \<Longrightarrow> P (s\<lparr>pr_trace := t, pr_ok := b\<rparr>)"
    "(\<And>x. x \<in> X \<Longrightarrow> Did x \<in> set t \<Longrightarrow> Did x \<in> set (pr_trace s)) \<Longrightarrow> P (s\<lparr>pr_trace := t, pr_forks := f\<rparr>)"
proof -
  have upd: "(\<And>x. x \<in> X \<Longrightarrow> Did x \<in> set t \<Longrightarrow> Did x \<in> set (pr_trace s)) \<Longrightarrow>
      P (s\<lparr>pr_trace := t, pr_end := r, pr_ok := b, pr_forks := f\<rparr>)" for t r b f
    using assms unfolding ignores_def by blast
  show "P (s\<lparr>pr_end := r\<rparr>)" using upd [where t="pr_trace s" and r=r and b="pr_ok s" and f="pr_forks s"] by simp
  show "(\<And>x. x \<in> X \<Longrightarrow> Did x \<in> set t \<Longrightarrow> Did x \<in> set (pr_trace s)) \<Longrightarrow> P (s\<lparr>pr_trace := t\<rparr>)"
    using upd [where t=t and r="pr_end s" and b="pr_ok s" and f="pr_forks s"] by simp
  show "(\<And>x. x \<in> X \<Longrightarrow> Did x \<in> set t \<Longrightarrow> Did x \<in> set (pr_trace s)) \<Longrightarrow> P (s\<lparr>pr_trace := t, pr_ok := b\<rparr>)"
    using upd [where t=t and r="pr_end s" and b=b and f="pr_forks s"] by simp
  show "(\<And>x. x \<in> X \<Longrightarrow> Did x \<in> set t \<Longrightarrow> Did x \<in> set (pr_trace s)) \<Longrightarrow> P (s\<lparr>pr_trace := t, pr_forks := f\<rparr>)"
    using upd [where t=t and r="pr_end s" and b="pr_ok s" and f=f] by simp
qed

lemma steady_calls:
  assumes "ignores P X"
  shows "e \<notin> X \<Longrightarrow> steady P (emit e)" "e \<notin> X \<Longrightarrow> steady P (attempt e)" "\<forall>p. Fork p \<notin> X \<Longrightarrow> steady P fork" "steady P (stop y)"
  unfolding steady_def triple_def emit_def attempt_def fork_def stop_def
  by (auto split: list.splits intro!: ignores_updates [OF assms])

lemma triple_conj: "triple P m Q \<Longrightarrow> triple P' m Q' \<Longrightarrow> triple (\<lambda>s. P s \<and> P' s) m (\<lambda>x s. Q x s \<and> Q' x s)"
  by (auto simp: triple_def split: prod.splits)

end
