(* ===== verification/Logcat.thy ===== *)
theory Logcat
  imports Process
begin

text \<open>
  The log daemon, \<open>src/Xposed-master/xposed_logcat.cpp\<close>: \<open>start\<close> forks a daemon that renames the old log,
  connects a \<open>logcat\<close> process to a pipe and copies what comes out of it behind the start-up marker into the
  log file, up to a maximal size.
\<close>

abbreviation (input) AID_LOG :: int where "AID_LOG \<equiv> 1007"
abbreviation (input) CAP_SYSLOG :: int where "CAP_SYSLOG \<equiv> 34"

definition XPOSEDLOG :: string where
  "XPOSEDLOG = ''/data/data/de.robv.android.xposed.installer/log/error.log''"

definition XPOSEDLOG_OLD :: string where
  "XPOSEDLOG_OLD = XPOSEDLOG @ ''.old''"

definition XPOSEDLOG_MAX_SIZE :: nat where
  "XPOSEDLOG_MAX_SIZE = 5 * 1024 * 1024"

definition logcat_args :: "string list" where
  "logcat_args =
     [''/system/bin/logcat'', ''logcat'', ''-v'', ''time'', ''-s'', ''XposedStartupMarker:D'', ''Xposed:I'', ''appproc:I'',
      ''XposedInstaller:I'', ''art:F'', ''libc:F'', ''DEBUG:I'']"

definition execLogcat :: "('a proc_scheme, unit) state" where
  "execLogcat = do {
     emit (Setresgid AID_LOG);
     drop_capabilities (Some [CAP_SYSLOG, - 1]);
     ok \<leftarrow> attempt (Exec logcat_args);
     if ok then stop (Replaced logcat_args) else stop (Exited EXIT_FAILURE) }"

text \<open>What the daemon writes for the strings \<open>fgets\<close> puts into its buffer, and whether it stops at the limit.\<close>

definition limit_message :: string where
  "limit_message =
     [NL] @ ''Reached maximum log size ('' @ dec_nat (XPOSEDLOG_MAX_SIZE div 1024) @ '' kB), further lines won'' @
     [CHR 0x27] @ ''t be logged.'' @ [NL]"

fun copy_log :: "string \<Rightarrow> bool \<Rightarrow> nat \<Rightarrow> string list \<Rightarrow> string list \<times> bool" where
  "copy_log marker foundMarker totalSize [] = ([], False)"
| "copy_log marker foundMarker totalSize (buf # bufs) =
     (if buf \<noteq> [] \<and> hd buf = CHR ''-'' then copy_log marker foundMarker totalSize bufs
      else if \<not> foundMarker
      then copy_log marker (strstr buf ''XposedStartupMarker'' \<noteq> None \<and> strstr buf marker \<noteq> None) totalSize bufs
      else let len = length buf; sz = totalSize + len
           in if sz > XPOSEDLOG_MAX_SIZE then ([buf, limit_message], True)
              else case copy_log marker foundMarker sz bufs of (w, full) \<Rightarrow> (buf # w, full))"

fun write_all :: "string list \<Rightarrow> ('a proc_scheme, unit) state" where
  "write_all [] = State_Monad.return ()"
| "write_all (w # ws) = do { emit (Write_file w); write_all ws }"

definition runDaemon :: "string \<Rightarrow> string \<Rightarrow> ('a proc_scheme, unit) state" where
  "runDaemon marker pipe = do {
     emit (Set_process_name ''xposed_logcat'');
     drop_capabilities None;
     emit (Umask 0);
     logfile \<leftarrow> attempt (Open_file XPOSEDLOG);
     if \<not> logfile then stop (Exited EXIT_FAILURE)
     else do {
       opened \<leftarrow> attempt Fdopen;
       if \<not> opened then stop (Exited EXIT_FAILURE)
       else case copy_log marker False 0 (fgets_lines 512 pipe) of
              (ws, full) \<Rightarrow> do {
                write_all ws;
                if full then stop (Exited EXIT_FAILURE)
                else do { emit Close_file; stop (Exited EXIT_FAILURE) } } } }"

definition log_marker :: "int \<Rightarrow> int \<Rightarrow> string" where
  "log_marker now pid = ''Current time: '' @ show_int now @ '', PID: '' @ show_int pid"

text \<open>\<open>pipe\<close> is what \<open>logcat\<close> will write.\<close>

definition logcat_start :: "int \<Rightarrow> bool \<Rightarrow> int \<Rightarrow> int \<Rightarrow> string \<Rightarrow> ('a proc_scheme, unit) state" where
  "logcat_start sdk isSELinuxEnabled now pid pipe = do {
     pid1 \<leftarrow> fork;
     if pid1 \<noteq> 0 then State_Monad.return ()
     else do {
       con \<leftarrow> (if isSELinuxEnabled then attempt (Setcon (ctx_app sdk)) else State_Monad.return True);
       if \<not> con then stop (Exited EXIT_FAILURE)
       else do {
         _ \<leftarrow> attempt (Rename XPOSEDLOG XPOSEDLOG_OLD);
         piped \<leftarrow> attempt Pipe;
         if \<not> piped then stop (Exited EXIT_FAILURE)
         else do {
           pid2 \<leftarrow> fork;
           if pid2 < 0 then stop (Exited EXIT_FAILURE)
           else if pid2 = 0 then do { emit (Close_pipe_end 1); runDaemon (log_marker now pid) pipe }
           else do {
             emit (Close_pipe_end 0);
             out \<leftarrow> attempt (Dup2 1);
             if \<not> out then stop (Exited EXIT_FAILURE)
             else do {
               err \<leftarrow> attempt (Dup2 2);
               if \<not> err then stop (Exited EXIT_FAILURE) else execLogcat } } } } } }"

section \<open>The contents of the log file\<close>

definition dashed :: "string \<Rightarrow> bool" where
  "dashed buf \<longleftrightarrow> buf \<noteq> [] \<and> hd buf = CHR ''-''"

definition marks :: "string \<Rightarrow> string \<Rightarrow> bool" where
  "marks marker buf \<longleftrightarrow> strstr buf ''XposedStartupMarker'' \<noteq> None \<and> strstr buf marker \<noteq> None"

text \<open>What belongs into the log: everything after the start-up marker but the headings of the log buffers.\<close>

definition after_marker :: "string \<Rightarrow> string list \<Rightarrow> string list" where
  "after_marker marker bufs = tl (dropWhile (\<lambda>buf. \<not> marks marker buf) (filter (\<lambda>buf. \<not> dashed buf) bufs))"

lemma copy_log_Cons:
  "copy_log marker found sz (buf # bufs) =
     (if dashed buf then copy_log marker found sz bufs
      else if \<not> found then copy_log marker (marks marker buf) sz bufs
      else if sz + length buf > XPOSEDLOG_MAX_SIZE then ([buf, limit_message], True)
      else case copy_log marker True (sz + length buf) bufs of (w, full) \<Rightarrow> (buf # w, full))"
  by (simp add: dashed_def marks_def Let_def)

declare copy_log.simps(2) [simp del]

text \<open>
  \<open>k\<close> lines are written: all of them if they fit into the limit, otherwise the shortest beginning that is longer
  than the limit.
\<close>

definition cut_at_limit :: "nat \<Rightarrow> string list \<Rightarrow> bool \<Rightarrow> nat \<Rightarrow> bool" where
  "cut_at_limit sz ls full k \<longleftrightarrow>
     k \<le> length ls \<and> (full \<longleftrightarrow> sz + length (concat ls) > XPOSEDLOG_MAX_SIZE) \<and>
     (if full
      then 0 < k \<and> sz + length (concat (take k ls)) > XPOSEDLOG_MAX_SIZE \<and> sz + length (concat (take (k - 1) ls)) \<le> XPOSEDLOG_MAX_SIZE
      else k = length ls)"

lemma cut_at_limit_Cons:
  assumes "cut_at_limit (sz + length b) ls full k" "sz \<le> XPOSEDLOG_MAX_SIZE" "sz + length b \<le> XPOSEDLOG_MAX_SIZE"
  shows "cut_at_limit sz (b # ls) full (Suc k)"
proof (cases k)
  case 0
  then show ?thesis using assms by (auto simp: cut_at_limit_def)
next
  case (Suc j)
  then show ?thesis using assms by (auto simp: cut_at_limit_def add.assoc)
qed

lemma copy_log_found:
  assumes "copy_log marker True sz bufs = (ws, full)" "sz \<le> XPOSEDLOG_MAX_SIZE"
  shows "\<exists>k. ws = take k (filter (\<lambda>b. \<not> dashed b) bufs) @ (if full then [limit_message] else []) \<and>
    cut_at_limit sz (filter (\<lambda>b. \<not> dashed b) bufs) full k"
  using assms
proof (induction bufs arbitrary: sz ws)
  case Nil
  then show ?case by (auto simp: cut_at_limit_def)
next
  case (Cons b bs)
  consider "dashed b" | "\<not> dashed b" "sz + length b > XPOSEDLOG_MAX_SIZE"
    | "\<not> dashed b" "sz + length b \<le> XPOSEDLOG_MAX_SIZE" by linarith
  then show ?case
  proof cases
    case 1
    with Cons show ?thesis by (simp add: copy_log_Cons)
  next
    case 2
    with Cons.prems have "ws = [b, limit_message]" "full" by (auto simp: copy_log_Cons)
    with 2 Cons.prems show ?thesis by (intro exI [of _ 1]) (auto simp: cut_at_limit_def)
  next
    case 3
    obtain ws' where ws': "copy_log marker True (sz + length b) bs = (ws', full)" "ws = b # ws'"
      using Cons.prems(1) 3 by (auto simp: copy_log_Cons split: prod.splits)
    from Cons.IH [OF ws'(1) 3(2)] obtain k where
      "ws' = take k (filter (\<lambda>b. \<not> dashed b) bs) @ (if full then [limit_message] else [])"
      "cut_at_limit (sz + length b) (filter (\<lambda>b. \<not> dashed b) bs) full k" by blast
    with ws'(2) 3 Cons.prems(2) show ?thesis by (intro exI [of _ "Suc k"]) (auto intro: cut_at_limit_Cons)
  qed
qed

text \<open>With lines that fit into the buffer, at most one buffer is written beyond the limit.\<close>

lemma cut_at_limit_size:
  assumes "cut_at_limit 0 ls full k" "list_all (\<lambda>b. length b \<le> 511) ls"
  shows "length (concat (take k ls)) \<le> XPOSEDLOG_MAX_SIZE + 511"
proof (cases full)
  case True
  with assms(1) obtain j where j: "k = Suc j" "j < length ls" "length (concat (take j ls)) \<le> XPOSEDLOG_MAX_SIZE"
    by (cases k) (auto simp: cut_at_limit_def)
  moreover have "length (ls ! j) \<le> 511" using assms(2) j(2) by (simp add: list_all_length)
  ultimately show ?thesis by (simp add: take_Suc_conv_app_nth)
next
  case False
  with assms(1) show ?thesis by (simp add: cut_at_limit_def)
qed

lemma copy_log_search:
  "copy_log marker False sz bufs =
     (case dropWhile (\<lambda>b. \<not> marks marker b) (filter (\<lambda>b. \<not> dashed b) bufs) of
        [] \<Rightarrow> ([], False)
      | _ # rest \<Rightarrow> copy_log marker True sz rest)"
proof (induction bufs)
  case Nil
  show ?case by simp
next
  case (Cons b bs)
  have "copy_log marker True sz (filter (\<lambda>b. \<not> dashed b) bs) = copy_log marker True sz bs" for sz
    by (induction bs arbitrary: sz) (simp_all add: copy_log_Cons split: prod.splits)
  with Cons show ?case by (auto simp: copy_log_Cons)
qed

lemma fgets_lines_short: "1 < n \<Longrightarrow> list_all (\<lambda>l. length l \<le> n - 1) (fgets_lines n s)"
proof (induction n s rule: fgets_lines.induct)
  case (1 n s)
  have "length line \<le> n - 1" if "fgets n s = Some (line, rest)" for line rest
    using that by (auto simp: fgets_def Let_def split: if_splits)
  then have "length (cut line) \<le> n - 1" if "fgets n s = Some (line, rest)" for line rest
    using that length_takeWhile_le [of _ line] le_trans by blast
  with 1 show ?case by (subst fgets_lines.simps) (auto split: option.splits)
qed

text \<open>
  C38 The log gets the lines after the start-up marker, in order and without the headings of the log buffers.  If they fit
  into the limit all of them are written and there is no message on the limit.  Otherwise, and only then, the
  log ends with that message after the first line with which the limit is exceeded.  The file stays
  within the limit plus one buffer and the message, whatever \<open>logcat\<close> writes.
\<close>

theorem log_file_contents:
  "\<exists>ws full k. copy_log marker False 0 (fgets_lines 512 pipe) = (ws, full) \<and>
     ws = take k (after_marker marker (fgets_lines 512 pipe)) @ (if full then [limit_message] else []) \<and>
     cut_at_limit 0 (after_marker marker (fgets_lines 512 pipe)) full k \<and>
     length (concat ws) \<le> XPOSEDLOG_MAX_SIZE + 511 + length limit_message"
proof -
  let ?ls = "fgets_lines 512 pipe"
  let ?f = "filter (\<lambda>b. \<not> dashed b) ?ls"
  let ?d = "dropWhile (\<lambda>b. \<not> marks marker b) ?f"
  have short: "list_all (\<lambda>l. length l \<le> 511) ?ls" using fgets_lines_short [of 512 pipe] by simp
  have sub: "set ?d \<subseteq> set ?f" by (auto dest: set_dropWhileD)
  show ?thesis
  proof (cases ?d)
    case Nil
    then show ?thesis unfolding copy_log_search after_marker_def
      by (intro exI [of _ "[]"] exI [of _ False] exI [of _ 0]) (simp add: cut_at_limit_def del: dropWhile_eq_Nil_conv)
  next
    case (Cons b rest)
    obtain ws full where run: "copy_log marker True 0 rest = (ws, full)" by fastforce
    have rest: "list_all (\<lambda>l. length l \<le> 511) rest" "filter (\<lambda>b. \<not> dashed b) rest = rest" "after_marker marker ?ls = rest"
      using sub short Cons by (auto simp: list_all_iff after_marker_def intro!: filter_True)
    from copy_log_found [OF run] obtain k where k: "ws = take k rest @ (if full then [limit_message] else [])" "cut_at_limit 0 rest full k"
      unfolding rest(2) by auto
    have "copy_log marker False 0 ?ls = (ws, full)" using Cons run by (simp add: copy_log_search)
    with k cut_at_limit_size [OF k(2) rest(1)] show ?thesis unfolding rest(3) by (cases full) auto
  qed
qed

text \<open>The marker fits into its buffer of 50 chars.\<close>

lemma log_marker_fits: "is_int32 now \<Longrightarrow> is_int32 pid \<Longrightarrow> length (log_marker now pid) < 50"
  using length_show_int_le [of now] length_show_int_le [of pid] by (simp add: log_marker_def)

end
