(* ===== verification/Binder.thy ===== *)
theory Binder
  imports Membased Xposed
begin

text \<open>
  The binder service of \<open>src/Xposed-master/xposed_service.cpp\<close> (namespace \<open>binder\<close>): the proxy
  \<open>BpXposedService\<close>, the dispatcher \<open>onTransact\<close> and the operations of \<open>XposedService\<close>.

  Parcels belong to the Android framework: their operations are the record \<open>parcel_ops\<close>, an argument of the
  definitions, and \<open>parcel_law\<close> says what is documented about them: values are read in the order in which they
  were written.  The transport is an argument of the proxy.  The integers are the values of \<open>int32_t\<close> and
  \<open>int64_t\<close> variables; arithmetic on \<open>int32_t\<close> wraps around explicitly.
\<close>

section \<open>Parcels\<close>

datatype 'b item = Token string | I32 int | I64 int | Str string | Bnd 'b | Raw "byte list"

record ('p, 'b) parcel_ops =
  p_new :: 'p
  writeInterfaceToken :: "'p \<Rightarrow> string \<Rightarrow> 'p"
  checkInterface :: "'p \<Rightarrow> string \<Rightarrow> bool \<times> 'p"
  writeNoException :: "'p \<Rightarrow> 'p"
  readExceptionCode :: "'p \<Rightarrow> int \<times> 'p"
  writeInt32 :: "'p \<Rightarrow> int \<Rightarrow> 'p"
  readInt32 :: "'p \<Rightarrow> int \<times> 'p"
  writeInt64 :: "'p \<Rightarrow> int \<Rightarrow> 'p"
  readInt64 :: "'p \<Rightarrow> int \<times> 'p"
  writeString16 :: "'p \<Rightarrow> string \<Rightarrow> 'p"
  readString16 :: "'p \<Rightarrow> string \<times> 'p"
  writeStrongBinder :: "'p \<Rightarrow> 'b \<Rightarrow> 'p"
  readStrongBinder :: "'p \<Rightarrow> 'b \<times> 'p"
  writeBytes :: "'p \<Rightarrow> byte list \<Rightarrow> 'p"
  dataAvail :: "'p \<Rightarrow> int"

text \<open>
  The first value of a reply is an exception code, 0 for none; \<open>readExceptionCode\<close> skips an optional header that
  is announced by \<open>EX_HAS_REPLY_HEADER\<close> instead of a code.
\<close>

abbreviation (input) EX_HAS_REPLY_HEADER :: int where "EX_HAS_REPLY_HEADER \<equiv> - 128"

definition parcel_law :: "('p, 'b) parcel_ops \<Rightarrow> ('p \<Rightarrow> 'b item list) \<Rightarrow> bool" where
  "parcel_law P items \<longleftrightarrow>
     items (p_new P) = [] \<and>
     (\<forall>p d. items (writeInterfaceToken P p d) = items p @ [Token d]) \<and>
     (\<forall>p d d' r. items p = Token d # r \<longrightarrow> (\<exists>p'. checkInterface P p d' = (d = d', p') \<and> items p' = r)) \<and>
     (\<forall>p. items (writeNoException P p) = items p @ [I32 0]) \<and>
     (\<forall>p v r. items p = I32 v # r \<longrightarrow> v \<noteq> EX_HAS_REPLY_HEADER \<longrightarrow>
        (\<exists>p'. readExceptionCode P p = (v, p') \<and> items p' = r)) \<and>
     (\<forall>p v. items (writeInt32 P p v) = items p @ [I32 v]) \<and>
     (\<forall>p v r. items p = I32 v # r \<longrightarrow> (\<exists>p'. readInt32 P p = (v, p') \<and> items p' = r)) \<and>
     (\<forall>p v. items (writeInt64 P p v) = items p @ [I64 v]) \<and>
     (\<forall>p v r. items p = I64 v # r \<longrightarrow> (\<exists>p'. readInt64 P p = (v, p') \<and> items p' = r)) \<and>
     (\<forall>p s. items (writeString16 P p s) = items p @ [Str s]) \<and>
     (\<forall>p s r. items p = Str s # r \<longrightarrow> (\<exists>p'. readString16 P p = (s, p') \<and> items p' = r)) \<and>
     (\<forall>p b. items (writeStrongBinder P p b) = items p @ [Bnd b]) \<and>
     (\<forall>p b r. items p = Bnd b # r \<longrightarrow> (\<exists>p'. readStrongBinder P p = (b, p') \<and> items p' = r)) \<and>
     (\<forall>p bs. items (writeBytes P p bs) = items p @ [Raw bs]) \<and>
     (\<forall>p bs r. items p = Raw bs # r \<longrightarrow> int (length bs) \<le> INT_MAX \<longrightarrow>
        int (length bs) \<le> dataAvail P p \<and> dataAvail P p \<le> INT_MAX)"

section \<open>The service\<close>

abbreviation (input) UID_SYSTEM :: int where "UID_SYSTEM \<equiv> 1000"
abbreviation (input) NO_ERROR :: int where "NO_ERROR \<equiv> 0"
abbreviation (input) PERMISSION_DENIED :: int where "PERMISSION_DENIED \<equiv> - 1"

text \<open>
  The process of the service: \<open>v_caller\<close> is the calling user, \<open>v_sm\<close> the answer of the service manager to
  a registration, \<open>v_added\<close> the registrations it was asked for.
\<close>

record 'b svc =
  v_isSystem :: bool
  v_caller :: int
  v_pid :: int
  v_fs :: fsys
  v_malloc :: "nat \<Rightarrow> bool"
  v_strerror :: "int \<Rightarrow> string"
  v_errno :: int
  v_sm :: "string \<Rightarrow> 'b \<Rightarrow> bool \<Rightarrow> int"
  v_added :: "(string \<times> 'b \<times> bool) list"

definition svc_test :: "'b svc \<Rightarrow> int" where
  "svc_test v = v_pid v"

definition svc_addService :: "string \<Rightarrow> 'b \<Rightarrow> bool \<Rightarrow> 'b svc \<Rightarrow> int \<times> 'b svc" where
  "svc_addService name service allowIsolated v =
     (if \<not> v_isSystem v \<or> v_caller v \<noteq> 0 then (- 1, v\<lparr>v_errno := EPERM\<rparr>)
      else (v_sm v name service allowIsolated, v\<lparr>v_added := v_added v @ [(name, service, allowIsolated)]\<rparr>))"

definition svc_accessFile :: "string \<Rightarrow> int \<Rightarrow> 'b svc \<Rightarrow> int \<times> 'b svc" where
  "svc_accessFile filename mode v =
     (if v_caller v \<noteq> UID_SYSTEM then (- 1, v\<lparr>v_errno := EPERM\<rparr>)
      else let err = fs_access (v_fs v) filename mode
           in if err = 0 then (0, v) else (- 1, v\<lparr>v_errno := err\<rparr>))"

definition svc_statFile :: "string \<Rightarrow> 'b svc \<Rightarrow> int \<times> (int \<times> int) option \<times> 'b svc" where
  "svc_statFile filename v =
     (if v_caller v \<noteq> UID_SYSTEM then (- 1, None, v\<lparr>v_errno := EPERM\<rparr>)
      else case fs_stat (v_fs v) filename of
             Inl err \<Rightarrow> (- 1, None, v\<lparr>v_errno := err\<rparr>)
           | Inr st \<Rightarrow> (0, Some (st_size st, st_mtime st), v))"

text \<open>The variables \<open>readFile\<close> is given pointers to.\<close>

record read_vars =
  r_size :: int
  r_mtime :: int
  r_buffer :: "byte list option"
  r_bytesRead :: int
  r_errormsg :: string

definition fail_msg :: "int \<Rightarrow> string \<Rightarrow> read_vars \<Rightarrow> bad_access + int \<times> read_vars" where
  "fail_msg err msg r = Inr (err, r\<lparr>r_errormsg := msg\<rparr>)"

text \<open>From the opening of the file on; \<open>len\<close> bytes are wanted from \<open>offset\<close>.\<close>

definition svc_read_bytes :: "string \<Rightarrow> int \<Rightarrow> int \<Rightarrow> 'b svc \<Rightarrow> read_vars \<Rightarrow> bad_access + int \<times> read_vars" where
  "svc_read_bytes filename offset len v r =
     (case fs_open (v_fs v) filename of
        Inl err \<Rightarrow> fail_msg err (v_strerror v err @ '' during fopen() on '' @ filename) r
      | Inr f \<Rightarrow>
          if offset > 0 \<and> \<not> f_seek f
          then fail_msg 0 (v_strerror v 0 @ '' during fseek() to offset '' @ show_int offset @ '' for '' @ filename) r
          else if f_ferror f \<noteq> 0
          then fail_msg (f_ferror f)
                 (v_strerror v (f_ferror f) @ '' during fread(), read '' @ show_int (- 1) @ '' bytes for '' @ filename) r
          else let bs = fread f (nat offset) (nat len)
               in Inr (0, r\<lparr>r_buffer := Some bs, r_bytesRead := int (length bs)\<rparr>))"

definition svc_readFile :: "string \<Rightarrow> int \<Rightarrow> int \<Rightarrow> 'b svc \<Rightarrow> read_vars \<Rightarrow> bad_access + int \<times> read_vars" where
  "svc_readFile filename offset len v r0 =
     (if v_caller v \<noteq> UID_SYSTEM then Inr (EPERM, r0)
      else let r = r0\<lparr>r_buffer := None, r_bytesRead := - 1\<rparr>
           in case fs_stat (v_fs v) filename of
                Inl err \<Rightarrow> fail_msg err (v_strerror v err @ '' during stat() on '' @ filename) r
              | Inr st \<Rightarrow>
                  if st_isdir st then fail_msg EISDIR (filename @ '' is a directory'') r
                  else if r_size r = st_size st \<and> r_mtime r = int32 (st_mtime st) then Inr (0, r)
                  else let r1 = r\<lparr>r_size := st_size st, r_mtime := st_mtime st\<rparr>
                       in if offset > 0 \<and> offset \<ge> st_size st
                          then fail_msg EINVAL (''offset '' @ show_int offset @ '' >= size '' @ show_int (st_size st) @
                                                '' for '' @ filename) r1
                          else let offset1 = (if offset < 0 then 0 else offset)
                               in if len > 0 \<and> int32 (offset1 + len) > st_size st
                                  then fail_msg EINVAL (''offset '' @ show_int offset1 @ '' + length '' @ show_int len @
                                                        '' > size '' @ show_int (st_size st) @ '' for '' @ filename) r1
                                  else if st_size st = 0 then Inr (0, r1\<lparr>r_bytesRead := 0\<rparr>)
                                  else let len1 = (if len \<le> 0 then int32 (st_size st - offset1) else len)
                                       in if \<not> v_malloc v (nat (int32 (len1 + 1) mod 2 ^ 32))
                                          then fail_msg ENOMEM (''allocating buffer with '' @ show_int (int32 (len1 + 1)) @
                                                                '' bytes failed'') r1
                                          else if len1 < 0 then Inl Before_buffer
                                          else svc_read_bytes filename offset1 len1 v r1)"

section \<open>The dispatcher\<close>

definition interface :: string where
  "interface = ''de.robv.android.xposed.IXposedService''"

datatype transaction =
    TEST_TRANSACTION
  | ADD_SERVICE_TRANSACTION
  | ACCESS_FILE_TRANSACTION
  | STAT_FILE_TRANSACTION
  | READ_FILE_TRANSACTION
  | OTHER_TRANSACTION nat

definition read_reply :: "('p, 'b) parcel_ops \<Rightarrow> int \<Rightarrow> read_vars \<Rightarrow> 'p" where
  "read_reply P err r =
     (let reply = writeInt64 P (writeInt64 P (writeString16 P (writeInt32 P (writeNoException P (p_new P)) err)
                    (r_errormsg r)) (r_size r)) (r_mtime r);
          reply1 = writeInt32 P reply (r_bytesRead r)
      in if r_bytesRead r > 0
         then writeBytes P reply1 (case r_buffer r of None \<Rightarrow> [] | Some bs \<Rightarrow> take (nat (r_bytesRead r)) bs)
         else reply1)"

definition transact_body ::
  "('p, 'b) parcel_ops \<Rightarrow> 'b svc \<Rightarrow> transaction \<Rightarrow> 'p \<Rightarrow> bad_access + 'p \<times> 'b svc" where
  "transact_body P v code data =
     (case code of
        TEST_TRANSACTION \<Rightarrow> Inr (writeInt32 P (writeNoException P (p_new P)) (svc_test v), v)
      | ADD_SERVICE_TRANSACTION \<Rightarrow>
          let (which, d1) = readString16 P data; (b, d2) = readStrongBinder P d1; (i, _) = readInt32 P d2;
              (result, v1) = svc_addService which b (i \<noteq> 0) v
          in Inr (writeInt32 P (p_new P) result, v1)
      | ACCESS_FILE_TRANSACTION \<Rightarrow>
          let (filename, d1) = readString16 P data; (mode, _) = readInt32 P d1;
              (result, v1) = svc_accessFile filename mode v
          in Inr (writeInt32 P (writeNoException P (p_new P)) (if result = 0 then 0 else v_errno v1), v1)
      | STAT_FILE_TRANSACTION \<Rightarrow>
          let (filename, _) = readString16 P data; (result, vals, v1) = svc_statFile filename v;
              reply = writeNoException P (p_new P)
          in Inr (case vals of
                    Some (sz, time) \<Rightarrow> writeInt64 P (writeInt64 P (writeInt32 P reply 0) sz) time
                  | None \<Rightarrow> writeInt32 P reply (v_errno v1), v1)
      | READ_FILE_TRANSACTION \<Rightarrow>
          let (filename, d1) = readString16 P data; (offset, d2) = readInt32 P d1; (len, d3) = readInt32 P d2;
              (sz, d4) = readInt64 P d3; (mtime, _) = readInt64 P d4
          in (case svc_readFile filename offset len v
                     \<lparr>r_size = sz, r_mtime = mtime, r_buffer = None, r_bytesRead = - 1, r_errormsg = []\<rparr> of
                Inl e \<Rightarrow> Inl e
              | Inr (err, r) \<Rightarrow> Inr (read_reply P err r, v))
      | OTHER_TRANSACTION _ \<Rightarrow> Inr (p_new P, v))"

text \<open>\<open>other\<close> is \<open>BBinder::onTransact\<close>: the status and the reply for codes the service does not know.\<close>

definition onTransact ::
  "('p, 'b) parcel_ops \<Rightarrow> (nat \<Rightarrow> 'p \<Rightarrow> int \<times> 'p) \<Rightarrow> 'b svc \<Rightarrow> transaction \<Rightarrow> 'p \<Rightarrow> bad_access + int \<times> 'p \<times> 'b svc" where
  "onTransact P other v code data =
     (case code of
        OTHER_TRANSACTION n \<Rightarrow> (case other n data of (status, reply) \<Rightarrow> Inr (status, reply, v))
      | _ \<Rightarrow>
          (case checkInterface P data interface of
             (False, _) \<Rightarrow> Inr (PERMISSION_DENIED, p_new P, v)
           | (True, d) \<Rightarrow>
               (case transact_body P v code d of
                  Inl e \<Rightarrow> Inl e
                | Inr (reply, v1) \<Rightarrow> Inr (NO_ERROR, reply, v1))))"

section \<open>The proxy\<close>

definition bp_test :: "('p, 'b) parcel_ops \<Rightarrow> (transaction \<Rightarrow> 'p \<Rightarrow> int \<times> 'p) \<Rightarrow> int" where
  "bp_test P transact =
     (let data = writeInterfaceToken P (p_new P) interface; (_, reply) = transact TEST_TRANSACTION data;
          (ex, reply1) = readExceptionCode P reply
      in if ex \<noteq> 0 then - 1 else fst (readInt32 P reply1))"

definition bp_addService ::
  "('p, 'b) parcel_ops \<Rightarrow> (transaction \<Rightarrow> 'p \<Rightarrow> int \<times> 'p) \<Rightarrow> string \<Rightarrow> 'b \<Rightarrow> bool \<Rightarrow> int" where
  "bp_addService P transact name service allowIsolated =
     (let data = writeInt32 P (writeStrongBinder P (writeString16 P (writeInterfaceToken P (p_new P) interface) name) service)
                   (if allowIsolated then 1 else 0);
          (err, reply) = transact ADD_SERVICE_TRANSACTION data
      in if err = NO_ERROR then fst (readExceptionCode P reply) else err)"

text \<open>Result and \<open>errno\<close>.\<close>

definition bp_accessFile ::
  "('p, 'b) parcel_ops \<Rightarrow> (transaction \<Rightarrow> 'p \<Rightarrow> int \<times> 'p) \<Rightarrow> string \<Rightarrow> int \<Rightarrow> int \<Rightarrow> int \<times> int" where
  "bp_accessFile P transact name mode errno =
     (let data = writeInt32 P (writeString16 P (writeInterfaceToken P (p_new P) interface) name) mode;
          (_, reply) = transact ACCESS_FILE_TRANSACTION data; (ex, reply1) = readExceptionCode P reply
      in if ex \<noteq> 0 then (- 1, errno)
         else let errno1 = fst (readInt32 P reply1) in (if errno1 = 0 then 0 else - 1, errno1))"

definition bp_statFile ::
  "('p, 'b) parcel_ops \<Rightarrow> (transaction \<Rightarrow> 'p \<Rightarrow> int \<times> 'p) \<Rightarrow> string \<Rightarrow> int \<Rightarrow> int \<times> (int \<times> int) option \<times> int" where
  "bp_statFile P transact name errno =
     (let data = writeString16 P (writeInterfaceToken P (p_new P) interface) name;
          (_, reply) = transact STAT_FILE_TRANSACTION data; (ex, reply1) = readExceptionCode P reply
      in if ex \<noteq> 0 then (- 1, None, errno)
         else let (errno1, reply2) = readInt32 P reply1
              in if errno1 \<noteq> 0 then (- 1, None, errno1)
                 else let (size1, reply3) = readInt64 P reply2; (mtime1, _) = readInt64 P reply3
                      in (0, Some (size1, mtime1), errno1))"

text \<open>
  \<open>*buffer[bytesRead1] = 0\<close> is \<open>*(buffer[bytesRead1]) = 0\<close>: with a positive index it fetches a pointer from behind
  the caller's single pointer variable and writes through it.
\<close>

definition bp_readFile ::
  "('p, 'b) parcel_ops \<Rightarrow> (transaction \<Rightarrow> 'p \<Rightarrow> int \<times> 'p) \<Rightarrow> string \<Rightarrow> int \<Rightarrow> int \<Rightarrow> read_vars \<Rightarrow> int \<Rightarrow>
    bad_access + int \<times> read_vars \<times> int" where
  "bp_readFile P transact filename offset len r errno =
     (let data = writeInt64 P (writeInt64 P (writeInt32 P (writeInt32 P (writeString16 P
                   (writeInterfaceToken P (p_new P) interface) filename) offset) len) (r_size r)) (r_mtime r);
          (_, reply) = transact READ_FILE_TRANSACTION data; (ex, reply1) = readExceptionCode P reply
      in if ex \<noteq> 0 then Inr (- 1, r, errno)
         else let (err, reply2) = readInt32 P reply1; (errormsg1, reply3) = readString16 P reply2;
                  (size1, reply4) = readInt64 P reply3; (mtime1, reply5) = readInt64 P reply4;
                  (bytesRead1, reply6) = readInt32 P reply5;
                  r1 = r\<lparr>r_size := size1, r_mtime := mtime1, r_bytesRead := bytesRead1, r_errormsg := errormsg1\<rparr>
              in if bytesRead1 > 0 \<and> bytesRead1 \<le> int32 (dataAvail P reply6) then Inl Beyond_buffer
                 else Inr (if err = 0 then 0 else - 1, r1\<lparr>r_buffer := None\<rparr>, err))"

section \<open>Reading what was written\<close>

text \<open>The transport hands the data to the service and its answer back.\<close>

definition delivers ::
  "('p, 'b) parcel_ops \<Rightarrow> (nat \<Rightarrow> 'p \<Rightarrow> int \<times> 'p) \<Rightarrow> 'b svc \<Rightarrow> (transaction \<Rightarrow> 'p \<Rightarrow> int \<times> 'p) \<Rightarrow> bool" where
  "delivers P other v transact \<longleftrightarrow>
     (\<forall>code data status reply v'. onTransact P other v code data = Inr (status, reply, v') \<longrightarrow>
        transact code data = (status, reply))"

lemma parcel_writes:
  assumes "parcel_law P items"
  shows "items (p_new P) = []" "items (writeInterfaceToken P p d) = items p @ [Token d]"
    "items (writeNoException P p) = items p @ [I32 0]" "items (writeInt32 P p i) = items p @ [I32 i]"
    "items (writeInt64 P p i) = items p @ [I64 i]" "items (writeString16 P p s) = items p @ [Str s]"
    "items (writeStrongBinder P p b) = items p @ [Bnd b]" "items (writeBytes P p bs) = items p @ [Raw bs]"
  using assms by (simp_all add: parcel_law_def)

lemma parcel_reads:
  assumes "parcel_law P items"
  shows "items p = Token d # r \<Longrightarrow> \<exists>p'. checkInterface P p d' = (d = d', p') \<and> items p' = r"
    "items p = I32 i # r \<Longrightarrow> \<exists>p'. readInt32 P p = (i, p') \<and> items p' = r"
    "items p = I64 i # r \<Longrightarrow> \<exists>p'. readInt64 P p = (i, p') \<and> items p' = r"
    "items p = Str s # r \<Longrightarrow> \<exists>p'. readString16 P p = (s, p') \<and> items p' = r"
    "items p = Bnd b # r \<Longrightarrow> \<exists>p'. readStrongBinder P p = (b, p') \<and> items p' = r"
    "items p = I32 i # r \<Longrightarrow> i \<noteq> - 128 \<Longrightarrow> \<exists>p'. readExceptionCode P p = (i, p') \<and> items p' = r"
    "items p = Raw bs # r \<Longrightarrow> int (length bs) \<le> INT_MAX \<Longrightarrow> int (length bs) \<le> dataAvail P p \<and> dataAvail P p \<le> INT_MAX"
  using assms by (simp_all add: parcel_law_def)

lemma onTransact_known:
  assumes "parcel_law P items" "items data = Token interface # r" "\<forall>n. code \<noteq> OTHER_TRANSACTION n"
  shows "\<exists>d. items d = r \<and>
    onTransact P other v code data = (case transact_body P v code d of Inl e \<Rightarrow> Inl e | Inr (reply, v1) \<Rightarrow> Inr (NO_ERROR, reply, v1))"
proof -
  obtain d where "checkInterface P data interface = (True, d)" "items d = r"
    using parcel_reads(1) [OF assms(1,2), of interface] by auto
  then show ?thesis using assms(3) by (cases code) (auto simp: onTransact_def)
qed

lemma transact_access:
  assumes law: "parcel_law P items" and data: "items data = [Token interface, Str name, I32 mode]"
  shows "\<exists>reply v1. onTransact P other v ACCESS_FILE_TRANSACTION data = Inr (NO_ERROR, reply, v1) \<and>
    items reply = [I32 0, I32 (if fst (svc_accessFile name mode v) = 0 then 0 else v_errno (snd (svc_accessFile name mode v)))]"
proof -
  obtain d where d: "items d = [Str name, I32 mode]"
    and run: "onTransact P other v ACCESS_FILE_TRANSACTION data =
      (case transact_body P v ACCESS_FILE_TRANSACTION d of Inl e \<Rightarrow> Inl e | Inr (reply, v1) \<Rightarrow> Inr (NO_ERROR, reply, v1))"
    using onTransact_known [OF law data] by blast
  obtain d1 where d1: "readString16 P d = (name, d1)" "items d1 = [I32 mode]" using parcel_reads(4) [OF law d] by blast
  obtain d2 where d2: "readInt32 P d1 = (mode, d2)" using parcel_reads(2) [OF law d1(2)] by blast
  show ?thesis unfolding run by (simp add: transact_body_def d1 d2 parcel_writes [OF law] split: prod.splits)
qed

lemma transact_stat:
  assumes law: "parcel_law P items" and data: "items data = [Token interface, Str name]"
  shows "\<exists>reply v1. onTransact P other v STAT_FILE_TRANSACTION data = Inr (NO_ERROR, reply, v1) \<and>
    items reply = I32 0 # (case svc_statFile name v of
       (_, Some (sz, time), _) \<Rightarrow> [I32 0, I64 sz, I64 time] | (_, None, v') \<Rightarrow> [I32 (v_errno v')])"
proof -
  obtain d where d: "items d = [Str name]"
    and run: "onTransact P other v STAT_FILE_TRANSACTION data =
      (case transact_body P v STAT_FILE_TRANSACTION d of Inl e \<Rightarrow> Inl e | Inr (reply, v1) \<Rightarrow> Inr (NO_ERROR, reply, v1))"
    using onTransact_known [OF law data] by blast
  obtain d1 where d1: "readString16 P d = (name, d1)" using parcel_reads(4) [OF law d] by blast
  show ?thesis unfolding run by (simp add: transact_body_def d1 parcel_writes [OF law] split: prod.splits option.splits)
qed

lemma transact_add:
  assumes law: "parcel_law P items" and data: "items data = [Token interface, Str name, Bnd b, I32 i]"
  shows "\<exists>reply v1. onTransact P other v ADD_SERVICE_TRANSACTION data = Inr (NO_ERROR, reply, v1) \<and>
    items reply = [I32 (fst (svc_addService name b (i \<noteq> 0) v))]"
proof -
  obtain d where d: "items d = [Str name, Bnd b, I32 i]"
    and run: "onTransact P other v ADD_SERVICE_TRANSACTION data =
      (case transact_body P v ADD_SERVICE_TRANSACTION d of Inl e \<Rightarrow> Inl e | Inr (reply, v1) \<Rightarrow> Inr (NO_ERROR, reply, v1))"
    using onTransact_known [OF law data] by blast
  obtain d1 where d1: "readString16 P d = (name, d1)" "items d1 = [Bnd b, I32 i]" using parcel_reads(4) [OF law d] by blast
  obtain d2 where d2: "readStrongBinder P d1 = (b, d2)" "items d2 = [I32 i]" using parcel_reads(5) [OF law d1(2)] by blast
  obtain d3 where d3: "readInt32 P d2 = (i, d3)" using parcel_reads(2) [OF law d2(2)] by blast
  show ?thesis unfolding run by (simp add: transact_body_def d1 d2 d3 parcel_writes [OF law] split: prod.splits)
qed

lemma bp_accessFile_svc:
  assumes law: "parcel_law P items" and del: "delivers P other v transact"
  shows "bp_accessFile P transact name mode errno =
    (case svc_accessFile name mode v of
       (result, v1) \<Rightarrow> let e = (if result = 0 then 0 else v_errno v1) in (if e = 0 then 0 else - 1, e))"
proof -
  let ?data = "writeInt32 P (writeString16 P (writeInterfaceToken P (p_new P) interface) name) mode"
  have "items ?data = [Token interface, Str name, I32 mode]" by (simp add: parcel_writes [OF law])
  from transact_access [OF law this] obtain reply v1 where
    run: "onTransact P other v ACCESS_FILE_TRANSACTION ?data = Inr (NO_ERROR, reply, v1)"
    and reply: "items reply = [I32 0, I32 (if fst (svc_accessFile name mode v) = 0 then 0
      else v_errno (snd (svc_accessFile name mode v)))]"
    by blast
  have "transact ACCESS_FILE_TRANSACTION ?data = (NO_ERROR, reply)" using del run unfolding delivers_def by blast
  moreover obtain r1 where r1: "readExceptionCode P reply = (0, r1)"
    "items r1 = [I32 (if fst (svc_accessFile name mode v) = 0 then 0 else v_errno (snd (svc_accessFile name mode v)))]"
    using parcel_reads(6) [OF law reply] by auto
  moreover obtain r2 where "readInt32 P r1 = ((if fst (svc_accessFile name mode v) = 0 then 0
      else v_errno (snd (svc_accessFile name mode v))), r2)"
    using parcel_reads(2) [OF law r1(2)] by blast
  ultimately show ?thesis by (simp add: bp_accessFile_def Let_def split: prod.splits)
qed

lemma bp_statFile_svc:
  assumes law: "parcel_law P items" and del: "delivers P other v transact"
    and err: "\<And>e. fs_stat (v_fs v) name = Inl e \<Longrightarrow> e \<noteq> 0"
  shows "bp_statFile P transact name errno =
    (case svc_statFile name v of
       (_, Some st, _) \<Rightarrow> (0, Some st, 0) | (_, None, v1) \<Rightarrow> (- 1, None, v_errno v1))"
proof -
  let ?data = "writeString16 P (writeInterfaceToken P (p_new P) interface) name"
  have "items ?data = [Token interface, Str name]" by (simp add: parcel_writes [OF law])
  from transact_stat [OF law this] obtain reply v1 where
    run: "onTransact P other v STAT_FILE_TRANSACTION ?data = Inr (NO_ERROR, reply, v1)"
    and reply: "items reply = I32 0 # (case svc_statFile name v of
       (_, Some (sz, time), _) \<Rightarrow> [I32 0, I64 sz, I64 time] | (_, None, v') \<Rightarrow> [I32 (v_errno v')])"
    by blast
  have trans: "transact STAT_FILE_TRANSACTION ?data = (NO_ERROR, reply)" using del run unfolding delivers_def by blast
  obtain r1 where r1: "readExceptionCode P reply = (0, r1)" "items r1 = (case svc_statFile name v of
       (_, Some (sz, time), _) \<Rightarrow> [I32 0, I64 sz, I64 time] | (_, None, v') \<Rightarrow> [I32 (v_errno v')])"
    using parcel_reads(6) [OF law reply] by auto
  obtain res vals v' where svc: "svc_statFile name v = (res, vals, v')" by (cases "svc_statFile name v") auto
  show ?thesis
  proof (cases vals)
    case None
    then have "v_errno v' \<noteq> 0" using svc err by (auto simp: svc_statFile_def split: if_splits sum.splits)
    moreover obtain r2 where "readInt32 P r1 = (v_errno v', r2)" using parcel_reads(2) [OF law, of r1] r1(2) svc None by auto
    ultimately show ?thesis using trans r1(1) svc None by (simp add: bp_statFile_def)
  next
    case (Some st)
    obtain sz time where st: "st = (sz, time)" by fastforce
    obtain r2 where r2: "readInt32 P r1 = (0, r2)" "items r2 = [I64 sz, I64 time]"
      using parcel_reads(2) [OF law, of r1] r1(2) svc Some st by auto
    obtain r3 where r3: "readInt64 P r2 = (sz, r3)" "items r3 = [I64 time]" using parcel_reads(3) [OF law r2(2)] by blast
    obtain r4 where "readInt64 P r3 = (time, r4)" using parcel_reads(3) [OF law r3(2)] by blast
    then show ?thesis using trans r1(1) r2(1) r3(1) svc Some st by (simp add: bp_statFile_def)
  qed
qed

lemma bp_addService_svc:
  assumes law: "parcel_law P items" and del: "delivers P other v transact"
    and status: "v_sm v name b isolated \<noteq> EX_HAS_REPLY_HEADER"
  shows "bp_addService P transact name b isolated = fst (svc_addService name b isolated v)"
proof -
  let ?data = "writeInt32 P (writeStrongBinder P (writeString16 P (writeInterfaceToken P (p_new P) interface) name) b)
    (if isolated then 1 else 0)"
  have "items ?data = [Token interface, Str name, Bnd b, I32 (if isolated then 1 else 0)]" by (simp add: parcel_writes [OF law])
  from transact_add [OF law this] obtain reply v1 where
    run: "onTransact P other v ADD_SERVICE_TRANSACTION ?data = Inr (NO_ERROR, reply, v1)"
    and "items reply = [I32 (fst (svc_addService name b ((if isolated then 1 else (0 :: int)) \<noteq> 0) v))]"
    by blast
  moreover have "((if isolated then 1 else (0 :: int)) \<noteq> 0) = isolated" by simp
  ultimately have reply: "items reply = [I32 (fst (svc_addService name b isolated v))]" by (simp only:)
  have "transact ADD_SERVICE_TRANSACTION ?data = (NO_ERROR, reply)" using del run unfolding delivers_def by blast
  moreover have "fst (svc_addService name b isolated v) \<noteq> - 128" using status by (simp add: svc_addService_def)
  then obtain r1 where "readExceptionCode P reply = (fst (svc_addService name b isolated v), r1)"
    using parcel_reads(6) [OF law reply] by blast
  ultimately show ?thesis by (simp add: bp_addService_def)
qed

lemma transact_read:
  assumes law: "parcel_law P items"
    and data: "items data = [Token interface, Str name, I32 offset, I32 len, I64 sz, I64 mtime]"
    and svc: "svc_readFile name offset len v
      \<lparr>r_size = sz, r_mtime = mtime, r_buffer = None, r_bytesRead = - 1, r_errormsg = []\<rparr> = Inr (err, r)"
  shows "onTransact P other v READ_FILE_TRANSACTION data = Inr (NO_ERROR, read_reply P err r, v)"
proof -
  obtain d where d: "items d = [Str name, I32 offset, I32 len, I64 sz, I64 mtime]"
    and run: "onTransact P other v READ_FILE_TRANSACTION data =
      (case transact_body P v READ_FILE_TRANSACTION d of Inl e \<Rightarrow> Inl e | Inr (reply, v1) \<Rightarrow> Inr (NO_ERROR, reply, v1))"
    using onTransact_known [OF law data] by blast
  obtain d1 where d1: "readString16 P d = (name, d1)" "items d1 = [I32 offset, I32 len, I64 sz, I64 mtime]"
    using parcel_reads(4) [OF law d] by blast
  obtain d2 where d2: "readInt32 P d1 = (offset, d2)" "items d2 = [I32 len, I64 sz, I64 mtime]"
    using parcel_reads(2) [OF law d1(2)] by blast
  obtain d3 where d3: "readInt32 P d2 = (len, d3)" "items d3 = [I64 sz, I64 mtime]"
    using parcel_reads(2) [OF law d2(2)] by blast
  obtain d4 where d4: "readInt64 P d3 = (sz, d4)" "items d4 = [I64 mtime]" using parcel_reads(3) [OF law d3(2)] by blast
  obtain d5 where d5: "readInt64 P d4 = (mtime, d5)" using parcel_reads(3) [OF law d4(2)] by blast
  show ?thesis unfolding run by (simp add: transact_body_def d1 d2 d3 d4 d5 svc)
qed

lemma read_reply_items:
  assumes law: "parcel_law P items"
  shows "items (read_reply P err r) =
    [I32 0, I32 err, Str (r_errormsg r), I64 (r_size r), I64 (r_mtime r), I32 (r_bytesRead r)] @
    (if r_bytesRead r > 0
     then [Raw (case r_buffer r of None \<Rightarrow> [] | Some bs \<Rightarrow> take (nat (r_bytesRead r)) bs)] else [])"
  by (simp add: read_reply_def Let_def parcel_writes [OF law])

lemma transact_test:
  assumes law: "parcel_law P items" and data: "items data = [Token interface]"
  shows "\<exists>reply. onTransact P other v TEST_TRANSACTION data = Inr (NO_ERROR, reply, v) \<and> items reply = [I32 0, I32 (v_pid v)]"
proof -
  obtain d where "onTransact P other v TEST_TRANSACTION data =
      (case transact_body P v TEST_TRANSACTION d of Inl e \<Rightarrow> Inl e | Inr (reply, v1) \<Rightarrow> Inr (NO_ERROR, reply, v1))"
    using onTransact_known [OF law data] by blast
  then show ?thesis by (simp add: transact_body_def svc_test_def parcel_writes [OF law])
qed

lemma bp_test_svc:
  assumes law: "parcel_law P items" and del: "delivers P other v transact"
  shows "bp_test P transact = v_pid v"
proof -
  let ?data = "writeInterfaceToken P (p_new P) interface"
  have "items ?data = [Token interface]" by (simp add: parcel_writes [OF law])
  from transact_test [OF law this] obtain reply where
    run: "onTransact P other v TEST_TRANSACTION ?data = Inr (NO_ERROR, reply, v)" and reply: "items reply = [I32 0, I32 (v_pid v)]"
    by blast
  have "transact TEST_TRANSACTION ?data = (NO_ERROR, reply)" using del run unfolding delivers_def by blast
  moreover obtain r1 where r1: "readExceptionCode P reply = (0, r1)" "items r1 = [I32 (v_pid v)]"
    using parcel_reads(6) [OF law reply] by auto
  moreover obtain r2 where "readInt32 P r1 = (v_pid v, r2)" using parcel_reads(2) [OF law r1(2)] by blast
  ultimately show ?thesis by (simp add: bp_test_def)
qed

text \<open>The service counts the bytes it has put into its buffer, never more than an \<open>int32_t\<close> holds.\<close>

lemma svc_readFile_buffer:
  assumes "svc_readFile name offset len v r0 = Inr (err, r)" "r_bytesRead r0 \<le> 0" "is_int32 len" "r_bytesRead r > 0"
  obtains bs where "r_buffer r = Some bs" "r_bytesRead r = int (length bs)" "int (length bs) \<le> INT_MAX"
proof -
  define Q where "Q \<longleftrightarrow> (\<exists>bs. r_buffer r = Some bs \<and> r_bytesRead r = int (length bs) \<and> int (length bs) \<le> INT_MAX)"
  have read: Q if "svc_read_bytes name off n v r1 = Inr (err, r)" "r_bytesRead r1 = - 1" "n \<le> INT_MAX" for off n r1
    using that assms(4) by (auto simp: Q_def svc_read_bytes_def fail_msg_def fread_def Let_def split: sum.splits if_splits)
  have "int32 x \<le> INT_MAX" "len \<le> INT_MAX" for x
    using assms(3) sint_lt [of "word_of_int x :: 32 word"] by (simp_all add: is_int32_def int32_def)
  then have Q
    using assms(1,2,4) by (auto simp: svc_readFile_def fail_msg_def Let_def split: sum.splits if_splits intro: read)
  then show ?thesis using that unfolding Q_def by blast
qed

text \<open>
  The proxy passes on all values but the contents.  When there are any, it writes through a pointer it finds behind the
  caller's buffer variable: \<open>*buffer[bytesRead1] = 0\<close> does not terminate the buffer.
\<close>

lemma bp_readFile_svc:
  assumes law: "parcel_law P items" and del: "delivers P other v transact" and len: "is_int32 len"
    and svc: "svc_readFile name offset len v
      \<lparr>r_size = r_size r, r_mtime = r_mtime r, r_buffer = None, r_bytesRead = - 1, r_errormsg = []\<rparr> = Inr (err, r1)"
  shows "bp_readFile P transact name offset len r errno =
    (if r_bytesRead r1 > 0 then Inl Beyond_buffer else Inr (if err = 0 then 0 else - 1, r1\<lparr>r_buffer := None\<rparr>, err))"
proof -
  let ?data = "writeInt64 P (writeInt64 P (writeInt32 P (writeInt32 P (writeString16 P
    (writeInterfaceToken P (p_new P) interface) name) offset) len) (r_size r)) (r_mtime r)"
  let ?bs = "case r_buffer r1 of None \<Rightarrow> [] | Some bs \<Rightarrow> take (nat (r_bytesRead r1)) bs"
  let ?X = "if r_bytesRead r1 > 0 then [Raw ?bs] else []"
  have "items ?data = [Token interface, Str name, I32 offset, I32 len, I64 (r_size r), I64 (r_mtime r)]"
    by (simp add: parcel_writes [OF law])
  from transact_read [OF law this svc] have run: "transact READ_FILE_TRANSACTION ?data = (NO_ERROR, read_reply P err r1)"
    using del unfolding delivers_def by blast
  have reply: "items (read_reply P err r1) =
      I32 0 # I32 err # Str (r_errormsg r1) # I64 (r_size r1) # I64 (r_mtime r1) # I32 (r_bytesRead r1) # ?X"
    by (simp add: read_reply_items [OF law])
  obtain p1 where p1: "readExceptionCode P (read_reply P err r1) = (0, p1)"
    "items p1 = I32 err # Str (r_errormsg r1) # I64 (r_size r1) # I64 (r_mtime r1) # I32 (r_bytesRead r1) # ?X"
    using parcel_reads(6) [OF law reply] by auto
  obtain p2 where p2: "readInt32 P p1 = (err, p2)"
    "items p2 = Str (r_errormsg r1) # I64 (r_size r1) # I64 (r_mtime r1) # I32 (r_bytesRead r1) # ?X"
    using parcel_reads(2) [OF law p1(2)] by blast
  obtain p3 where p3: "readString16 P p2 = (r_errormsg r1, p3)" "items p3 = I64 (r_size r1) # I64 (r_mtime r1) # I32 (r_bytesRead r1) # ?X"
    using parcel_reads(4) [OF law p2(2)] by blast
  obtain p4 where p4: "readInt64 P p3 = (r_size r1, p4)" "items p4 = I64 (r_mtime r1) # I32 (r_bytesRead r1) # ?X"
    using parcel_reads(3) [OF law p3(2)] by blast
  obtain p5 where p5: "readInt64 P p4 = (r_mtime r1, p5)" "items p5 = I32 (r_bytesRead r1) # ?X"
    using parcel_reads(3) [OF law p4(2)] by blast
  obtain p6 where p6: "readInt32 P p5 = (r_bytesRead r1, p6)" "items p6 = ?X"
    using parcel_reads(2) [OF law p5(2)] by blast
  have fits: "r_bytesRead r1 \<le> int32 (dataAvail P p6)" if pos: "r_bytesRead r1 > 0"
  proof -
    obtain bs where bs: "r_buffer r1 = Some bs" "r_bytesRead r1 = int (length bs)" "int (length bs) \<le> INT_MAX"
      using svc_readFile_buffer [OF svc _ len pos] by auto
    then have "items p6 = [Raw bs]" using p6(2) pos by simp
    from parcel_reads(7) [OF law this bs(3)] have avail: "int (length bs) \<le> dataAvail P p6" "dataAvail P p6 \<le> INT_MAX" by simp_all
    then have "int32 (dataAvail P p6) = dataAvail P p6" by (intro int32_id) (simp add: is_int32_def)
    then show ?thesis using avail bs(2) by simp
  qed
  show ?thesis using run p1(1) p2(1) p3(1) p4(1) p5(1) p6(1) fits by (simp add: bp_readFile_def Let_def)
qed

section \<open>Properties\<close>

text \<open>
  C35 What a call through the proxy and the dispatcher gives, operation by operation.  \<open>test\<close> gives the process of the
  service; \<open>accessFile\<close> and \<open>statFile\<close> give what the service finds, with its error number, or \<open>EPERM\<close> unless the caller is
  the system server; \<open>addService\<close> gives the status of the service manager (even though the reply has no
  exception code in front of it), or -1 unless root calls the system service.  \<open>readFile\<close> gives the size, the time, the number of
  bytes, the message and the error number of the service if there are no contents; whenever the service sends
  contents, the proxy instead writes through a pointer it finds behind the caller's variable.
\<close>

theorem proxy_calls_service:
  assumes "parcel_law P items" "delivers P other v transact"
    and "\<And>e. fs_stat (v_fs v) name = Inl e \<Longrightarrow> e \<noteq> 0" "v_sm v name b isolated \<noteq> EX_HAS_REPLY_HEADER" "is_int32 len"
  shows "bp_test P transact = v_pid v \<and>
    bp_accessFile P transact name mode errno =
      (if v_caller v = UID_SYSTEM then (if fs_access (v_fs v) name mode = 0 then 0 else - 1, fs_access (v_fs v) name mode)
       else (- 1, EPERM)) \<and>
    bp_statFile P transact name errno =
      (if v_caller v = UID_SYSTEM
       then case fs_stat (v_fs v) name of Inl e \<Rightarrow> (- 1, None, e) | Inr st \<Rightarrow> (0, Some (st_size st, st_mtime st), 0)
       else (- 1, None, EPERM)) \<and>
    bp_addService P transact name b isolated =
      (if v_isSystem v \<and> v_caller v = 0 then v_sm v name b isolated else - 1) \<and>
    (svc_readFile name offset len v
       \<lparr>r_size = r_size r, r_mtime = r_mtime r, r_buffer = None, r_bytesRead = - 1, r_errormsg = []\<rparr> = Inr (err, r1) \<longrightarrow>
     bp_readFile P transact name offset len r errno =
       (if r_bytesRead r1 > 0 then Inl Beyond_buffer else Inr (if err = 0 then 0 else - 1, r1\<lparr>r_buffer := None\<rparr>, err)))"
proof (intro conjI impI)
  show "bp_test P transact = v_pid v" by (rule bp_test_svc [OF assms(1,2)])
  show "bp_accessFile P transact name mode errno =
      (if v_caller v = UID_SYSTEM then (if fs_access (v_fs v) name mode = 0 then 0 else - 1, fs_access (v_fs v) name mode) else (- 1, EPERM))"
    using bp_accessFile_svc [OF assms(1,2), of name mode errno] by (simp add: svc_accessFile_def Let_def)
  show "bp_statFile P transact name errno =
      (if v_caller v = UID_SYSTEM
       then case fs_stat (v_fs v) name of Inl e \<Rightarrow> (- 1, None, e) | Inr st \<Rightarrow> (0, Some (st_size st, st_mtime st), 0)
       else (- 1, None, EPERM))"
    using bp_statFile_svc [OF assms(1,2), of name errno] assms(3) by (simp add: svc_statFile_def split: sum.splits)
  show "bp_addService P transact name b isolated = (if v_isSystem v \<and> v_caller v = 0 then v_sm v name b isolated else - 1)"
    using bp_addService_svc [OF assms(1,2,4)] by (simp add: svc_addService_def)
qed (rule bp_readFile_svc [OF assms(1,2,5)])

lemma onTransact_shape:
  "(\<exists>status reply. \<forall>v. onTransact P other v code data = Inr (status, reply, v)) \<or>
   (\<exists>d. \<forall>v. onTransact P other v code data =
      (case transact_body P v code d of Inl e \<Rightarrow> Inl e | Inr (reply, v1) \<Rightarrow> Inr (NO_ERROR, reply, v1)))"
proof (cases "\<exists>n. code = OTHER_TRANSACTION n")
  case True
  then show ?thesis by (auto simp: onTransact_def split: prod.splits)
next
  case False
  then show ?thesis
    by (cases "checkInterface P data interface"; cases "fst (checkInterface P data interface)"; cases code)
      (auto simp: onTransact_def)
qed

text \<open>What callers other than the system server get does not depend on the file system.\<close>

lemma other_callers_blind:
  assumes "v_caller v \<noteq> UID_SYSTEM"
  shows "onTransact P other v code data =
      map_sum id (\<lambda>(status, reply, v'). (status, reply, v'\<lparr>v_fs := v_fs v\<rparr>)) (onTransact P other (v\<lparr>v_fs := fs\<rparr>) code data) \<and>
    (v_isSystem v \<and> v_caller v = 0 \<or>
     (\<forall>status reply v'. onTransact P other v code data = Inr (status, reply, v') \<longrightarrow> v_added v' = v_added v))"
proof -
  have body: "transact_body P v code d =
      map_sum id (\<lambda>(reply, v'). (reply, v'\<lparr>v_fs := v_fs v\<rparr>)) (transact_body P (v\<lparr>v_fs := fs\<rparr>) code d)" for d
    using assms
    by (cases code) (simp_all add: transact_body_def svc_test_def svc_addService_def svc_accessFile_def svc_statFile_def
        svc_readFile_def split: prod.splits)
  have added: "v_added v' = v_added v"
    if "transact_body P v code d = Inr (reply, v')" "\<not> (v_isSystem v \<and> v_caller v = 0)" for d reply v'
    using that assms
    by (cases code) (auto simp: transact_body_def svc_test_def svc_addService_def svc_accessFile_def svc_statFile_def
        svc_readFile_def split: prod.splits if_splits)
  show ?thesis using onTransact_shape [of P other code data]
  proof
    assume "\<exists>status reply. \<forall>v. onTransact P other v code data = Inr (status, reply, v)"
    then show ?thesis by auto
  next
    assume "\<exists>d. \<forall>v. onTransact P other v code data =
      (case transact_body P v code d of Inl e \<Rightarrow> Inl e | Inr (reply, v1) \<Rightarrow> Inr (NO_ERROR, reply, v1))"
    then obtain d where d: "onTransact P other w code data =
      (case transact_body P w code d of Inl e \<Rightarrow> Inl e | Inr (reply, v1) \<Rightarrow> Inr (NO_ERROR, reply, v1))" for w
      by blast
    show ?thesis
    proof (intro conjI)
      show "onTransact P other v code data = map_sum id (\<lambda>(status, reply, v'). (status, reply, v'\<lparr>v_fs := v_fs v\<rparr>))
          (onTransact P other (v\<lparr>v_fs := fs\<rparr>) code data)"
        unfolding d body [of d] by (auto split: sum.splits)
      show "v_isSystem v \<and> v_caller v = 0 \<or>
          (\<forall>status reply v'. onTransact P other v code data = Inr (status, reply, v') \<longrightarrow> v_added v' = v_added v)"
        using added [of d] unfolding d by (auto split: sum.splits prod.splits)
    qed
  qed
qed

text \<open>The dispatcher answers with the values \<open>l\<close>.\<close>

definition answers ::
  "('p, 'b) parcel_ops \<Rightarrow> ('p \<Rightarrow> 'b item list) \<Rightarrow> (nat \<Rightarrow> 'p \<Rightarrow> int \<times> 'p) \<Rightarrow> 'b svc \<Rightarrow> transaction \<Rightarrow> 'p \<Rightarrow> 'b item list \<Rightarrow> bool" where
  "answers P items other v code data l \<longleftrightarrow>
     (case onTransact P other v code data of Inl _ \<Rightarrow> False | Inr (status, reply, v') \<Rightarrow> status = NO_ERROR \<and> items reply = l)"

lemma answersI: "\<exists>reply v'. onTransact P other v code data = Inr (NO_ERROR, reply, v') \<and> items reply = l \<Longrightarrow> answers P items other v code data l"
  by (auto simp: answers_def)

lemma other_callers_refused:
  assumes law: "parcel_law P items" and caller: "v_caller v \<noteq> UID_SYSTEM"
  shows "items data = [Token interface, Str name, I32 mode] \<Longrightarrow> answers P items other v ACCESS_FILE_TRANSACTION data [I32 0, I32 EPERM]"
    and "items data = [Token interface, Str name] \<Longrightarrow> answers P items other v STAT_FILE_TRANSACTION data [I32 0, I32 EPERM]"
    and "items data = [Token interface, Str name, I32 offset, I32 len, I64 sz, I64 mtime] \<Longrightarrow>
      answers P items other v READ_FILE_TRANSACTION data [I32 0, I32 EPERM, Str [], I64 sz, I64 mtime, I32 (- 1)]"
    and "items data = [Token interface, Str name, Bnd b, I32 i] \<Longrightarrow> \<not> (v_isSystem v \<and> v_caller v = 0) \<Longrightarrow>
      answers P items other v ADD_SERVICE_TRANSACTION data [I32 (- 1)]"
proof -
  show "answers P items other v ACCESS_FILE_TRANSACTION data [I32 0, I32 EPERM]" if "items data = [Token interface, Str name, I32 mode]"
    by (rule answersI) (use transact_access [OF law that, of other v] caller in \<open>auto simp: svc_accessFile_def\<close>)
  show "answers P items other v STAT_FILE_TRANSACTION data [I32 0, I32 EPERM]" if "items data = [Token interface, Str name]"
    by (rule answersI) (use transact_stat [OF law that, of other v] caller in \<open>auto simp: svc_statFile_def\<close>)
  show "answers P items other v READ_FILE_TRANSACTION data [I32 0, I32 EPERM, Str [], I64 sz, I64 mtime, I32 (- 1)]"
    if data: "items data = [Token interface, Str name, I32 offset, I32 len, I64 sz, I64 mtime]"
    using transact_read [OF law data, of v EPERM] caller
    by (simp add: answers_def svc_readFile_def read_reply_items [OF law])
  show "answers P items other v ADD_SERVICE_TRANSACTION data [I32 (- 1)]"
    if "items data = [Token interface, Str name, Bnd b, I32 i]" "\<not> (v_isSystem v \<and> v_caller v = 0)"
    by (rule answersI) (use transact_add [OF law that(1), of other v] that(2) in \<open>auto simp: svc_addService_def\<close>)
qed

text \<open>
  C36 Callers other than the system server are refused and learn nothing about the file system: the checks of files and
  metadata are answered with \<open>EPERM\<close>, reading with \<open>EPERM\<close>, no message, the size and time of the caller and no bytes,
  and whatever transaction they send, the answer is the same whatever the files are.  Unless the caller
  is root on the system service, a registration is answered with -1 and does not reach the service manager.
\<close>

theorem other_callers_learn_nothing:
  assumes "v_caller v \<noteq> UID_SYSTEM" "parcel_law P items"
  shows "(items data = [Token interface, Str name, I32 mode] \<longrightarrow> answers P items other v ACCESS_FILE_TRANSACTION data [I32 0, I32 EPERM]) \<and>
    (items data = [Token interface, Str name] \<longrightarrow> answers P items other v STAT_FILE_TRANSACTION data [I32 0, I32 EPERM]) \<and>
    (items data = [Token interface, Str name, I32 offset, I32 len, I64 sz, I64 mtime] \<longrightarrow>
       answers P items other v READ_FILE_TRANSACTION data [I32 0, I32 EPERM, Str [], I64 sz, I64 mtime, I32 (- 1)]) \<and>
    onTransact P other v code data =
      map_sum id (\<lambda>(status, reply, v'). (status, reply, v'\<lparr>v_fs := v_fs v\<rparr>)) (onTransact P other (v\<lparr>v_fs := fs\<rparr>) code data) \<and>
    (v_isSystem v \<and> v_caller v = 0 \<or>
     (items data = [Token interface, Str name, Bnd b, I32 i] \<longrightarrow> answers P items other v ADD_SERVICE_TRANSACTION data [I32 (- 1)]) \<and>
     (\<forall>status reply v'. onTransact P other v code data = Inr (status, reply, v') \<longrightarrow> v_added v' = v_added v))"
proof (intro conjI impI)
  note blind = other_callers_blind [OF assms(1), of P other code data fs]
  show "onTransact P other v code data =
      map_sum id (\<lambda>(status, reply, v'). (status, reply, v'\<lparr>v_fs := v_fs v\<rparr>)) (onTransact P other (v\<lparr>v_fs := fs\<rparr>) code data)"
    using blind by (rule conjunct1)
  show "v_isSystem v \<and> v_caller v = 0 \<or>
     (items data = [Token interface, Str name, Bnd b, I32 i] \<longrightarrow> answers P items other v ADD_SERVICE_TRANSACTION data [I32 (- 1)]) \<and>
     (\<forall>status reply v'. onTransact P other v code data = Inr (status, reply, v') \<longrightarrow> v_added v' = v_added v)"
    using blind [THEN conjunct2] other_callers_refused(4) [OF assms(2,1)] by blast
qed (rule other_callers_refused [OF assms(2,1)], assumption)+

text \<open>
  For the system server \<open>readFile\<close> returns exactly the requested window of a changed file: \<open>len\<close> bytes
  from \<open>offset\<close>, or everything from there on if \<open>len\<close> is not positive, with size and modification time.
  A window that is not inside of the file is refused with \<open>EINVAL\<close> and no data.
\<close>

theorem service_reads_window:
  assumes "v_caller v = UID_SYSTEM" "fs_stat (v_fs v) name = Inr st" "\<not> st_isdir st"
    and "st_size st = int (length c)" "c \<noteq> []" "int (length c) < INT_MAX" "\<And>n. v_malloc v n"
    and "fs_open (v_fs v) name = Inr f" "f_data f = c" "f_seek f" "f_ferror f = 0"
    and "r_size r0 \<noteq> st_size st \<or> r_mtime r0 \<noteq> int32 (st_mtime st)"
    and "off = (if offset < 0 then 0 else offset)" "is_int32 (off + len)"
  shows "\<exists>err r. svc_readFile name offset len v r0 = Inr (err, r) \<and>
    (if off < int (length c) \<and> off + len \<le> int (length c)
     then err = 0 \<and> r = r0\<lparr>r_size := st_size st, r_mtime := st_mtime st,
            r_buffer := Some (take (if len \<le> 0 then length c else nat len) (drop (nat off) c)),
            r_bytesRead := (if len \<le> 0 then int (length c) - off else len)\<rparr>
     else err = EINVAL \<and> r_buffer r = None \<and> r_bytesRead r = - 1)"
proof -
  have c: "0 < int (length c)" using assms(5) by simp
  have i1: "int32 (off + len) = off + len" using assms(14) by (rule int32_id)
  have i2: "int32 (int (length c) - off) = int (length c) - off" if "off < int (length c)"
    using that assms(6,13) by (intro int32_id) (auto simp: is_int32_def)
  have takes: "take (nat (int (length c) - off)) (drop (nat off) c) = take (length c) (drop (nat off) c)"
    using assms(13) by auto
  have read: "svc_read_bytes name off n v r = Inr (0, r\<lparr>r_buffer := Some (take (nat n) (drop (nat off) c)),
      r_bytesRead := int (length (take (nat n) (drop (nat off) c)))\<rparr>)" for n r
    using assms(8-11) by (simp add: svc_read_bytes_def fread_def)
  show ?thesis
  proof (cases "off < int (length c)")
    case False
    have "off = offset" using False c assms(13) by (auto split: if_splits)
    moreover have "offset > 0" using False c \<open>off = offset\<close> by linarith
    ultimately show ?thesis using False assms(1-4,12) by (auto simp: svc_readFile_def fail_msg_def Let_def)
  next
    case True
    then have start: "\<not> (offset > 0 \<and> offset \<ge> int (length c))" using assms(13) by (auto split: if_splits)
    show ?thesis
    proof (cases "off + len \<le> int (length c)")
      case False
      with True have "len > 0" by simp
      with False start i1 assms(1-4,12,13) show ?thesis by (auto simp: svc_readFile_def fail_msg_def Let_def)
    next
      case in_range: True
      have "svc_readFile name offset len v r0 = svc_read_bytes name off (if len \<le> 0 then int (length c) - off else len) v
          (r0\<lparr>r_buffer := None, r_bytesRead := - 1, r_size := st_size st, r_mtime := st_mtime st\<rparr>)"
        using in_range True start i1 i2 [OF True] c assms(1-5,7,12,13)
        by (auto simp: svc_readFile_def Let_def)
      then show ?thesis using in_range True takes assms(13) unfolding read by (auto simp: min_def)
    qed
  qed
qed

section \<open>A parcel and a service to run\<close>

definition demo_parcel :: "(nat item list, nat) parcel_ops" where
  "demo_parcel =
     \<lparr>p_new = [], writeInterfaceToken = (\<lambda>p d. p @ [Token d]),
      checkInterface = (\<lambda>p d'. case p of Token d # r \<Rightarrow> (d = d', r) | _ \<Rightarrow> (False, p)),
      writeNoException = (\<lambda>p. p @ [I32 0]),
      readExceptionCode = (\<lambda>p. case p of I32 v # r \<Rightarrow> (v, r) | _ \<Rightarrow> (0, p)),
      writeInt32 = (\<lambda>p v. p @ [I32 v]), readInt32 = (\<lambda>p. case p of I32 v # r \<Rightarrow> (v, r) | _ \<Rightarrow> (0, p)),
      writeInt64 = (\<lambda>p v. p @ [I64 v]), readInt64 = (\<lambda>p. case p of I64 v # r \<Rightarrow> (v, r) | _ \<Rightarrow> (0, p)),
      writeString16 = (\<lambda>p s. p @ [Str s]), readString16 = (\<lambda>p. case p of Str s # r \<Rightarrow> (s, r) | _ \<Rightarrow> ([], p)),
      writeStrongBinder = (\<lambda>p b. p @ [Bnd b]), readStrongBinder = (\<lambda>p. case p of Bnd b # r \<Rightarrow> (b, r) | _ \<Rightarrow> (0, p)),
      writeBytes = (\<lambda>p bs. p @ [Raw bs]),
      dataAvail = (\<lambda>p. case p of Raw bs # r \<Rightarrow> int (length bs) | _ \<Rightarrow> 0)\<rparr>"

lemma demo_parcel_law: "parcel_law demo_parcel id"
  by (simp add: parcel_law_def demo_parcel_def)

definition demo_svc :: "int \<Rightarrow> nat svc" where
  "demo_svc uid =
     \<lparr>v_isSystem = True, v_caller = uid, v_pid = 200, v_fs = demo_fs 3 [1, 2, 3], v_malloc = (\<lambda>_. True),
      v_strerror = (\<lambda>_. ''error''), v_errno = 0, v_sm = (\<lambda>_ _ _. 0), v_added = []\<rparr>"

definition demo_transact :: "int \<Rightarrow> transaction \<Rightarrow> nat item list \<Rightarrow> int \<times> nat item list" where
  "demo_transact uid code data =
     (case onTransact demo_parcel (\<lambda>_ _. (- 1, [])) (demo_svc uid) code data of
        Inl _ \<Rightarrow> (- 1, [])
      | Inr (status, reply, _) \<Rightarrow> (status, reply))"

lemma demo_delivers: "delivers demo_parcel (\<lambda>_ _. (- 1, [])) (demo_svc uid) (demo_transact uid)"
  by (simp add: delivers_def demo_transact_def)

definition demo_vars :: read_vars where
  "demo_vars = \<lparr>r_size = 0, r_mtime = 0, r_buffer = None, r_bytesRead = - 1, r_errormsg = []\<rparr>"

theorem proxy_calls_service_witness:
  "bp_accessFile demo_parcel (demo_transact 1000) ''/data/x'' 4 5 = (0, 0) \<and>
   bp_statFile demo_parcel (demo_transact 1000) ''/data/x'' 5 = (0, Some (3, 7), 0) \<and>
   bp_readFile demo_parcel (demo_transact 1000) ''/data/x'' 0 0 demo_vars 5 = Inl Beyond_buffer"
proof -
  have "svc_readFile ''/data/x'' 0 0 (demo_svc 1000) demo_vars =
      Inr (0, demo_vars\<lparr>r_size := 3, r_mtime := 7, r_buffer := Some [1, 2, 3], r_bytesRead := 3\<rparr>)"
    by (simp add: svc_readFile_def svc_read_bytes_def demo_svc_def demo_fs_def demo_vars_def Let_def fread_def int32_id is_int32_def)
  with proxy_calls_service [OF demo_parcel_law demo_delivers, of 1000 "''/data/x''" 0 True 0 4 5 0 demo_vars 0
      "demo_vars\<lparr>r_size := 3, r_mtime := 7, r_buffer := Some [1, 2, 3], r_bytesRead := 3\<rparr>"]
  show ?thesis by (simp add: demo_svc_def demo_fs_def demo_vars_def is_int32_def)
qed

theorem other_callers_learn_nothing_witness:
  "answers demo_parcel id (\<lambda>_ _. (- 1, [])) (demo_svc 10050) ACCESS_FILE_TRANSACTION [Token interface, Str ''/data/x'', I32 4] [I32 0, I32 EPERM]"
proof -
  have "v_caller (demo_svc 10050) \<noteq> UID_SYSTEM" by (simp add: demo_svc_def)
  from other_callers_learn_nothing [OF this demo_parcel_law, of "[Token interface, Str ''/data/x'', I32 4]" "''/data/x''" 4]
  show ?thesis by simp
qed

theorem service_reads_window_witness:
  "\<exists>err r. svc_readFile ''/data/x'' 1 2 (demo_svc 1000) demo_vars = Inr (err, r) \<and> err = 0 \<and> r_buffer r = Some [2, 3]"
  using service_reads_window [of "demo_svc 1000" "''/data/x''" "\<lparr>st_size = 3, st_mtime = 7, st_isdir = False\<rparr>" "[1, 2, 3]"
      "\<lparr>f_data = [1, 2, 3], f_seek = True, f_ferror = 0\<rparr>" demo_vars 1 1 2]
  by (auto simp: demo_svc_def demo_fs_def demo_vars_def is_int32_def)

end
