(* ===== verification/Services.thy ===== *)
theory Services
  imports Logcat Membased
begin

text \<open>
  The start of the service processes, end of \<open>src/Xposed-master/xposed_service.cpp\<close>: \<open>systemService\<close>,
  \<open>appService\<close>, \<open>startAll\<close> and \<open>startMembased\<close>, with the helper \<open>checkMembasedRunning\<close>.  The process is
  the one of theory \<open>Process\<close>, extended by its view of the memory-based service; \<open>sdk\<close> is the platform version
  of the build.
\<close>

record zygote = proc +
  zy_z :: zproc
  zy_map :: shared
  zy_waits :: "(int \<times> State) list"

definition XPOSED_BINDER_SYSTEM_SERVICE_NAME :: string where
  "XPOSED_BINDER_SYSTEM_SERVICE_NAME = ''user.xposed.system''"

definition XPOSED_BINDER_APP_SERVICE_NAME :: string where
  "XPOSED_BINDER_APP_SERVICE_NAME = ''user.xposed.app''"

text \<open>Switch to a security context if SELinux is enabled.\<close>

definition switch_context :: "bool \<Rightarrow> string \<Rightarrow> ('a proc_scheme, bool) state" where
  "switch_context se ctx = (if se then attempt (Setcon ctx) else State_Monad.return True)"

definition join_pool :: "int \<Rightarrow> ('a proc_scheme, unit) state" where
  "join_pool sdk = do {
     emit Start_thread_pool;
     _ \<leftarrow> (if sdk \<ge> 18 then emit Give_thread_pool_name else State_Monad.return ());
     stop Serving }"

definition systemService :: "int \<Rightarrow> bool \<Rightarrow> ('a proc_scheme, unit) state" where
  "systemService sdk se = do {
     emit (Set_process_name ''xposed_service_system'');
     drop_capabilities None;
     con \<leftarrow> switch_context se ctx_system;
     if \<not> con then stop (Exited EXIT_FAILURE)
     else do {
       ok \<leftarrow> attempt (Add_service XPOSED_BINDER_SYSTEM_SERVICE_NAME True (sdk \<ge> 16));
       if \<not> ok then stop (Exited EXIT_FAILURE) else join_pool sdk } }"

definition register_app :: "int \<Rightarrow> bool \<Rightarrow> ('a proc_scheme, bool) state" where
  "register_app sdk useSingleProcess =
     (if useSingleProcess
      then do {
        ok \<leftarrow> attempt (Add_service XPOSED_BINDER_SYSTEM_SERVICE_NAME True (sdk \<ge> 16));
        if \<not> ok then do { stop (Exited EXIT_FAILURE); State_Monad.return False }
        else attempt (Add_service XPOSED_BINDER_APP_SERVICE_NAME False (sdk \<ge> 16)) }
      else attempt (Proxy_add_service XPOSED_BINDER_APP_SERVICE_NAME False True))"

definition appService :: "int \<Rightarrow> bool \<Rightarrow> bool \<Rightarrow> ('a proc_scheme, unit) state" where
  "appService sdk se useSingleProcess = do {
     emit (Set_process_name (if useSingleProcess then ''xposed_service'' else ''xposed_service_app''));
     drop_capabilities None;
     con \<leftarrow> switch_context se (ctx_app sdk);
     if \<not> con then stop (Exited EXIT_FAILURE)
     else do {
       ok \<leftarrow> register_app sdk useSingleProcess;
       if \<not> ok then stop (Exited EXIT_FAILURE)
       else do {
         thread \<leftarrow> (if se then attempt (Create_thread ''membased::looper'') else State_Monad.return True);
         if \<not> thread then stop (Exited EXIT_FAILURE) else join_pool sdk } } }"

definition zy_init :: "('a zygote_scheme, bool) state" where
  "zy_init = do {
     mapped \<leftarrow> attempt Mmap_shared;
     State (\<lambda>s. if pr_end s \<noteq> None then (False, s)
       else case membased_init mapped (zy_map s) (zy_z s) of (ok, z) \<Rightarrow> (ok, s\<lparr>zy_z := z\<rparr>)) }"

definition checkMembasedRunning :: "('a zygote_scheme, bool) state" where
  "checkMembasedRunning = do {
     emit Madvise_dontfork;
     State (\<lambda>s.
       if pr_end s \<noteq> None then (False, s)
       else case waitForRunning 5 (zy_waits s) (restrictMemoryInheritance (zy_z s)) of
              None \<Rightarrow> (False, s\<lparr>zy_z := restrictMemoryInheritance (zy_z s), pr_end := Some Waiting_forever\<rparr>)
            | Some (b, z) \<Rightarrow> (b, s\<lparr>zy_z := z\<rparr>)) }"

definition start_system :: "int \<Rightarrow> bool \<Rightarrow> ('a proc_scheme, bool) state" where
  "start_system sdk se =
     (if \<not> se then State_Monad.return True
      else do {
        pid \<leftarrow> fork;
        if pid < 0 then State_Monad.return False
        else if pid = 0 then do { systemService sdk se; stop (Exited EXIT_FAILURE); State_Monad.return False }
        else State_Monad.return True })"

definition startAll :: "int \<Rightarrow> bool \<Rightarrow> ('a zygote_scheme, bool) state" where
  "startAll sdk se = do {
     init \<leftarrow> (if se then zy_init else State_Monad.return True);
     if \<not> init then State_Monad.return False
     else do {
       sys \<leftarrow> start_system sdk se;
       if \<not> sys then State_Monad.return False
       else do {
         pid \<leftarrow> fork;
         if pid < 0 then State_Monad.return False
         else if pid = 0 then do { appService sdk se (\<not> se); stop (Exited EXIT_FAILURE); State_Monad.return False }
         else if se then checkMembasedRunning else State_Monad.return True } } }"

definition startMembased :: "int \<Rightarrow> bool \<Rightarrow> ('a zygote_scheme, bool) state" where
  "startMembased sdk se =
     (if \<not> se then State_Monad.return True
      else do {
        init \<leftarrow> zy_init;
        if \<not> init then State_Monad.return False
        else do {
          pid \<leftarrow> fork;
          if pid < 0 then State_Monad.return False
          else if pid = 0
          then do {
            emit (Set_process_name ''xposed_zygote_service'');
            drop_capabilities None;
            con \<leftarrow> attempt (Setcon (ctx_app sdk));
            _ \<leftarrow> (if \<not> con then stop (Exited EXIT_FAILURE) else do { emit Looper; stop Serving });
            State_Monad.return False }
          else checkMembasedRunning } })"

section \<open>Privileges\<close>

text \<open>
  What a process must have done before it offers a service, if \<open>ctx\<close> is the security context of its service: dropped all
  capabilities and, with SELinux, entered the context; and before it serves calls it must have
  registered what it serves.
\<close>

definition registration :: "int \<Rightarrow> bool \<Rightarrow> string \<Rightarrow> pevent set" where
  "registration sdk se ctx =
     (if \<not> se
      then {Add_service XPOSED_BINDER_SYSTEM_SERVICE_NAME True (sdk \<ge> 16), Add_service XPOSED_BINDER_APP_SERVICE_NAME False (sdk \<ge> 16)}
      else if ctx = ctx_system then {Add_service XPOSED_BINDER_SYSTEM_SERVICE_NAME True (sdk \<ge> 16)}
      else {Proxy_add_service XPOSED_BINDER_APP_SERVICE_NAME False True})"

fun needs :: "int \<Rightarrow> bool \<Rightarrow> string \<Rightarrow> pevent \<Rightarrow> pevent set" where
  "needs sdk se ctx (Add_service name isSystem isolated) =
     insert (Capset [no_caps, no_caps]) (if se then {Setcon ctx_system} else {})"
| "needs sdk se ctx (Proxy_add_service name isSystem isolated) =
     insert (Capset [no_caps, no_caps]) (if se then {Setcon (ctx_app sdk)} else {})"
| "needs sdk se ctx (Create_thread f) = insert (Capset [no_caps, no_caps]) (if se then {Setcon (ctx_app sdk)} else {})"
| "needs sdk se ctx Looper = insert (Capset [no_caps, no_caps]) (if se then {Setcon (ctx_app sdk)} else {})"
| "needs sdk se ctx Start_thread_pool =
     insert (Capset [no_caps, no_caps]) (if se then {Setcon ctx} else {}) \<union> registration sdk se ctx"
| "needs sdk se ctx e = {}"

text \<open>A process that serves calls has started its threads or the loop of the memory-based service.\<close>

definition calls_started :: "'a proc_scheme \<Rightarrow> bool" where
  "calls_started s \<longleftrightarrow> pr_end s = Some Serving \<longrightarrow> Did Start_thread_pool \<in> set (pr_trace s) \<or> Did Looper \<in> set (pr_trace s)"

lemma contexts_differ [simp]: "ctx_app sdk \<noteq> ctx_system"
  by (simp add: ctx_app_def ctx_system_def)

lemma at_switch:
  "triple (at (needs sdk se ctx) E) (switch_context se c)
     (\<lambda>con. at (needs sdk se ctx) (if con then (if se then {Setcon c} else {}) \<union> E else E))"
  unfolding switch_context_def
  by (rule triple_if; rule triple_weaken [OF at_attempt] triple_weaken [OF at_return]) (auto intro: at_mono split: if_splits)

lemma at_join_pool:
  assumes "needs sdk se ctx Start_thread_pool \<subseteq> E"
  shows "triple (at (needs sdk se ctx) E) (join_pool sdk) (\<lambda>_. at (needs sdk se ctx) {})"
  unfolding join_pool_def
  by (rule triple_bind [OF at_emit], rule assms, rule triple_bind [where Q = "\<lambda>_. at (needs sdk se ctx) {}"])
    (auto intro!: triple_if at_stop at_return at_weaken [OF at_emit])

lemma at_systemService:
  assumes "se"
  shows "triple (at (needs sdk se ctx_system) {}) (systemService sdk se) (\<lambda>_. at (needs sdk se ctx_system) {})"
  unfolding systemService_def
  by (rule triple_bind [OF at_emit], simp, rule triple_bind [OF at_drop_all], simp, rule triple_bind [OF at_switch],
      rule triple_if, rule at_stop, rule triple_bind [OF at_attempt], simp, rule triple_if, rule at_stop, rule at_join_pool)
    (use assms in \<open>auto simp: registration_def\<close>)

text \<open>Registration of the service for applications; without SELinux the same process has both services.\<close>

lemma at_register_app:
  assumes "Capset [no_caps, no_caps] \<in> E" "se \<Longrightarrow> Setcon (ctx_app sdk) \<in> E"
  shows "triple (at (needs sdk se (ctx_app sdk)) E) (register_app sdk (\<not> se))
    (\<lambda>ok. at (needs sdk se (ctx_app sdk)) (if ok then registration sdk se (ctx_app sdk) \<union> E else E))"
proof -
  let ?N = "needs sdk se (ctx_app sdk)"
  have proxy: "triple (at ?N E) (attempt (Proxy_add_service XPOSED_BINDER_APP_SERVICE_NAME False True))
      (\<lambda>ok. at ?N (if ok then insert (Proxy_add_service XPOSED_BINDER_APP_SERVICE_NAME False True) E else E))"
    by (rule at_attempt) (use assms in auto)
  have add: "triple (at ?N F) (attempt (Add_service name b (sdk \<ge> 16)))
      (\<lambda>ok. at ?N (if ok then insert (Add_service name b (sdk \<ge> 16)) F else F))" if "\<not> se" "E \<subseteq> F" for name b F
    by (rule at_attempt) (use assms that in auto)
  show ?thesis
  proof (cases se)
    case True
    with proxy show ?thesis by (simp add: register_app_def registration_def cong: if_cong)
  next
    case False
    let ?A = "Add_service XPOSED_BINDER_SYSTEM_SERVICE_NAME True (sdk \<ge> 16)"
    have app: "triple (at ?N (insert ?A E)) (attempt (Add_service XPOSED_BINDER_APP_SERVICE_NAME False (sdk \<ge> 16)))
        (\<lambda>ok. at ?N (if ok then registration sdk se (ctx_app sdk) \<union> E else E))"
      by (rule triple_weaken [OF add [OF False subset_insertI]])
        (use False in \<open>auto simp: registration_def elim: at_mono split: if_splits\<close>)
    have quit: "triple (at ?N E) (do { stop (Exited EXIT_FAILURE); State_Monad.return False })
        (\<lambda>ok. at ?N (if ok then registration sdk se (ctx_app sdk) \<union> E else E))"
      by (rule triple_bind [OF at_stop [where F = E]]) (simp add: triple_def)
    have rest: "triple (at ?N (if ok then insert ?A E else E))
        (if \<not> ok then do { stop (Exited EXIT_FAILURE); State_Monad.return False }
         else attempt (Add_service XPOSED_BINDER_APP_SERVICE_NAME False (sdk \<ge> 16)))
        (\<lambda>ok. at ?N (if ok then registration sdk se (ctx_app sdk) \<union> E else E))" for ok
      using app quit by (cases ok) simp_all
    show ?thesis unfolding register_app_def if_P [OF False]
      by (rule triple_bind [OF add [OF False order_refl] rest])
  qed
qed

lemma at_appService:
  "triple (at (needs sdk se (ctx_app sdk)) {}) (appService sdk se (\<not> se)) (\<lambda>_. at (needs sdk se (ctx_app sdk)) {})"
proof -
  let ?N = "needs sdk se (ctx_app sdk)" and ?C = "insert (Capset [no_caps, no_caps]) (if se then {Setcon (ctx_app sdk)} else {})"
  let ?R = "registration sdk se (ctx_app sdk) \<union> ?C"
  have thread: "triple (at ?N ?R) (if se then attempt (Create_thread ''membased::looper'') else State_Monad.return True) (\<lambda>_. at ?N ?R)"
    by (rule triple_if; rule triple_weaken [OF at_attempt] triple_weaken [OF at_return]) (auto intro: at_mono split: if_splits)
  have pool: "triple (at ?N ?R) (do {
         thread \<leftarrow> (if se then attempt (Create_thread ''membased::looper'') else State_Monad.return True);
         if \<not> thread then stop (Exited EXIT_FAILURE) else join_pool sdk }) (\<lambda>_. at ?N {})"
    by (rule triple_bind [OF thread], rule triple_if, rule at_stop, rule at_join_pool) auto
  have rest: "triple (at ?N ?C) (do {
       ok \<leftarrow> register_app sdk (\<not> se);
       if \<not> ok then stop (Exited EXIT_FAILURE)
       else do {
         thread \<leftarrow> (if se then attempt (Create_thread ''membased::looper'') else State_Monad.return True);
         if \<not> thread then stop (Exited EXIT_FAILURE) else join_pool sdk } }) (\<lambda>_. at ?N {})"
    by (rule triple_bind [OF at_register_app], simp, simp, rule triple_if, rule at_stop, rule triple_weaken [OF pool]) auto
  show ?thesis unfolding appService_def
    by (rule triple_bind [OF at_emit], simp, rule triple_bind [OF at_drop_all], simp, rule triple_bind [OF at_switch],
        rule triple_if, rule at_stop, rule triple_weaken [OF rest]) (auto intro: at_mono split: if_splits)
qed

text \<open>Changes of the process's own data leave its trace alone.\<close>

lemma at_zy_init: "triple (at (needs sdk se ctx) {}) zy_init (\<lambda>_. at (needs sdk se ctx) {})"
  unfolding zy_init_def
  by (rule triple_bind [OF at_attempt], simp) (auto simp: triple_def at_def split: prod.splits)

lemma at_checkMembasedRunning: "triple (at (needs sdk se ctx) {}) checkMembasedRunning (\<lambda>_. at (needs sdk se ctx) {})"
  unfolding checkMembasedRunning_def
  by (rule triple_bind [OF at_emit], simp) (auto simp: triple_def at_def split: option.splits prod.splits)

text \<open>
  Before the fork a process has offered nothing, whatever its context will be; afterwards it has kept the order
  for one of the two contexts.
\<close>

abbreviation (input) both_orders :: "int \<Rightarrow> bool \<Rightarrow> 'a proc_scheme \<Rightarrow> bool" where
  "both_orders sdk se s \<equiv> at (needs sdk se ctx_system) {} s \<and> at (needs sdk se (ctx_app sdk)) {} s"

abbreviation (input) one_order :: "int \<Rightarrow> bool \<Rightarrow> 'a proc_scheme \<Rightarrow> bool" where
  "one_order sdk se s \<equiv> at (needs sdk se ctx_system) {} s \<or> at (needs sdk se (ctx_app sdk)) {} s"

lemma at_child:
  "triple (at (needs sdk se ctx) {}) m (\<lambda>_. at (needs sdk se ctx) {}) \<Longrightarrow>
    triple (at (needs sdk se ctx) {}) (do { m; stop (Exited EXIT_FAILURE); State_Monad.return False }) (\<lambda>ok s. at (needs sdk se ctx) {} s \<and> \<not> ok)"
  by (rule triple_bind, assumption, rule triple_bind [OF at_stop]) (auto simp: triple_def)

lemma both_fork: "triple (both_orders sdk se) fork (\<lambda>_. both_orders sdk se)"
  by (rule triple_conj; rule at_fork; simp)

lemma both_return: "triple (both_orders sdk se) (State_Monad.return x) (\<lambda>_. one_order sdk se)"
  by (simp add: triple_def)

lemma both_zy_init: "triple (both_orders sdk se) zy_init (\<lambda>_. both_orders sdk se)"
  by (rule triple_conj; rule at_zy_init)

lemma both_checkMembasedRunning: "triple (both_orders sdk se) checkMembasedRunning (\<lambda>_. one_order sdk se)"
  using triple_conj [OF at_checkMembasedRunning [of sdk se ctx_system] at_checkMembasedRunning [of sdk se "ctx_app sdk"]]
  by (rule triple_weaken) auto

lemma both_start_system:
  "triple (both_orders sdk se) (start_system sdk se) (\<lambda>ok s. if ok then both_orders sdk se s else one_order sdk se s)"
proof -
  have "triple (both_orders sdk se) (do { systemService sdk se; stop (Exited EXIT_FAILURE); State_Monad.return False })
      (\<lambda>ok s. if ok then both_orders sdk se s else one_order sdk se s)" if "se"
    by (rule triple_weaken [OF at_child [OF at_systemService [OF that]]]) auto
  then show ?thesis unfolding start_system_def
    by (intro triple_if triple_bind [OF both_fork]) (simp_all add: triple_def)
qed

lemma both_startAll: "triple (both_orders sdk se) (startAll sdk se) (\<lambda>_. one_order sdk se)"
proof -
  have init: "triple (both_orders sdk se) (if se then zy_init else State_Monad.return True) (\<lambda>_. both_orders sdk se)"
    by (intro triple_if both_zy_init) (simp add: triple_def)
  have app: "triple (both_orders sdk se) (do { appService sdk se (\<not> se); stop (Exited EXIT_FAILURE); State_Monad.return False }) (\<lambda>_. one_order sdk se)"
    by (rule triple_weaken [OF at_child [OF at_appService]]) auto
  have rest: "triple (both_orders sdk se) (do {
         pid \<leftarrow> fork;
         if pid < 0 then State_Monad.return False
         else if pid = 0 then do { appService sdk se (\<not> se); stop (Exited EXIT_FAILURE); State_Monad.return False }
         else if se then checkMembasedRunning else State_Monad.return True }) (\<lambda>_. one_order sdk se)"
    by (intro triple_bind [OF both_fork] triple_if both_return app both_checkMembasedRunning)
  have sys: "triple (both_orders sdk se) (do { sys \<leftarrow> start_system sdk se; if \<not> sys then State_Monad.return False else m })
      (\<lambda>_. one_order sdk se)" if "triple (both_orders sdk se) m (\<lambda>_. one_order sdk se)" for m
    by (rule triple_bind [OF both_start_system], rule triple_if) (use that in \<open>auto simp: triple_def\<close>)
  show ?thesis unfolding startAll_def
    by (rule triple_bind [OF init], rule triple_if, rule both_return, rule sys, rule rest)
qed

lemma at_startMembased:
  "triple (at (needs sdk se (ctx_app sdk)) {}) (startMembased sdk se) (\<lambda>_. at (needs sdk se (ctx_app sdk)) {})"
proof -
  let ?N = "needs sdk se (ctx_app sdk)"
  have looper: "triple (at ?N E) (if \<not> con then stop (Exited EXIT_FAILURE) else do { emit Looper; stop Serving })
      (\<lambda>_. at ?N {})" if "con \<Longrightarrow> {Capset [no_caps, no_caps], Setcon (ctx_app sdk)} \<subseteq> E" for con E
    using that by (intro triple_if at_stop triple_bind [OF at_emit]) auto
  show ?thesis unfolding startMembased_def
    by (rule triple_if, rule at_return, simp, rule triple_bind [OF at_zy_init], rule triple_if, rule at_return, simp,
        rule triple_bind [OF at_fork], simp, rule triple_if, rule at_return, simp, rule triple_if,
        rule triple_bind [OF at_emit], simp, rule triple_bind [OF at_drop_all], simp, rule triple_bind [OF at_attempt], simp,
        rule triple_bind [OF looper])
      (auto intro: at_return at_checkMembasedRunning)
qed

text \<open>No process serves calls without having started its threads or the loop.\<close>

lemma calls_started_basic:
  "steady calls_started (emit e)" "steady calls_started (attempt e)" "steady calls_started fork" "x \<noteq> Serving \<Longrightarrow> steady calls_started (stop x)"
  by (auto simp: steady_def triple_def calls_started_def emit_def attempt_def fork_def stop_def split: list.splits)

lemma calls_started_own: "steady calls_started zy_init" "steady calls_started checkMembasedRunning" "steady calls_started (drop_capabilities None)"
  by (auto simp: steady_def triple_def calls_started_def zy_init_def checkMembasedRunning_def drop_capabilities_def dropCapabilities_def emit_def attempt_def
      split: list.splits prod.splits option.splits)

lemma calls_started_pool: "steady calls_started (join_pool sdk)" "steady calls_started (do { emit Looper; stop Serving })"
  by (auto simp: steady_def triple_def calls_started_def join_pool_def emit_def stop_def)

lemma calls_started_services: "steady calls_started (startAll sdk se)" "steady calls_started (startMembased sdk se)"
  unfolding startAll_def startMembased_def start_system_def systemService_def appService_def register_app_def switch_context_def
  by (intro calls_started_pool calls_started_own calls_started_basic steady_intro; simp)+

section \<open>Only the caller returns\<close>

lemma ends_join_pool: "ends (join_pool sdk)"
  unfolding join_pool_def by (intro vcg)

lemma ends_systemService: "ends (systemService sdk se)"
  unfolding systemService_def by (intro vcg ends_join_pool)

lemma ends_appService: "ends (appService sdk se single)"
  unfolding appService_def by (intro vcg ends_join_pool)

lemma original_zy_init: "triple original zy_init (\<lambda>_. original)"
  unfolding zy_init_def
  by (rule triple_bind [OF original_attempt]) (auto simp: triple_def original_def split: prod.splits)

lemma original_checkMembasedRunning: "triple original checkMembasedRunning (\<lambda>_. original)"
  unfolding checkMembasedRunning_def
  by (rule triple_bind [OF original_emit]) (auto simp: triple_def original_def split: option.splits prod.splits)

lemma original_start_system: "triple original (start_system sdk se) (\<lambda>_. original)"
  unfolding start_system_def
  by (intro triple_if original_fork_bind original_return; simp; intro vcg)

lemma original_startAll: "triple original (startAll sdk se) (\<lambda>_. original)"
proof -
  have init: "triple original (if se then zy_init else State_Monad.return True) (\<lambda>_. original)"
    by (intro triple_if original_zy_init original_return)
  show ?thesis unfolding startAll_def
    by (rule triple_bind [OF init], rule triple_if, rule original_return, rule triple_bind [OF original_start_system],
        rule triple_if, rule original_return, rule original_fork_bind)
      (simp_all, auto intro: original_return original_checkMembasedRunning intro!: vcg)
qed

lemma original_startMembased: "triple original (startMembased sdk se) (\<lambda>_. original)"
  unfolding startMembased_def
  by (rule triple_if, rule original_return, rule triple_bind [OF original_zy_init], rule triple_if, rule original_return,
      rule original_fork_bind)
    (simp_all, auto intro: original_return original_checkMembasedRunning intro!: vcg)

section \<open>Properties\<close>

text \<open>
  C34 Whatever system calls fail, no process started by \<open>startAll\<close> or \<open>startMembased\<close> registers a service, creates the thread of the
  memory-based service, runs its loop or starts to serve binder calls before it has asked for an empty capability set
  and, with SELinux, successfully entered the security context of its service: the system server's for the system
  service, the one of an untrusted app for the others.  It starts to serve binder calls only after its
  services are registered.
\<close>

theorem privileges_dropped_first:
  fixes s :: zygote
  assumes "pr_trace s = []" "pr_end s = None" "start = startAll sdk se \<or> start = startMembased sdk se"
    and "s' = snd (run_state start s)"
  shows "(\<exists>ctx \<in> {ctx_system, ctx_app sdk}. precedes (needs sdk se ctx) (pr_trace s')) \<and>
    (pr_end s' = Some Serving \<longrightarrow> Did Start_thread_pool \<in> set (pr_trace s') \<or> Did Looper \<in> set (pr_trace s'))"
proof -
  have b: "both_orders sdk se s" and "calls_started s" using assms(1,2) by (simp_all add: at_def precedes_Nil calls_started_def)
  then have "calls_started s'"
    using assms(3,4) tripleD [OF calls_started_services(1) [unfolded steady_def]] tripleD [OF calls_started_services(2) [unfolded steady_def]] by blast
  moreover have "one_order sdk se s'"
    using assms(3,4) tripleD [OF both_startAll [of sdk se], of s] tripleD [OF at_startMembased [of sdk se], of s] b by blast
  ultimately show ?thesis by (auto simp: at_def calls_started_def)
qed

definition demo_world :: "int list \<Rightarrow> zygote" where
  "demo_world forks =
     \<lparr>pr_trace = [], pr_end = None, pr_ok = [], pr_forks = forks,
      zy_z = \<lparr>z_shared = None, z_zygotePid = 0, z_pid = 55, z_always = False, z_errno = 0\<rparr>,
      zy_map = demo_shared, zy_waits = [(0, STATE_IDLE)]\<rparr>"

theorem privileges_dropped_first_witness:
  "\<exists>ctx \<in> {ctx_system, ctx_app 22}. precedes (needs 22 True ctx) (pr_trace (snd (run_state (startAll 22 True) (demo_world [0])))) \<and>
     Did Start_thread_pool \<in> set (pr_trace (snd (run_state (startAll 22 True) (demo_world [0]))))"
proof -
  have "Did Start_thread_pool \<in> set (pr_trace (snd (run_state (startAll 22 True) (demo_world [0]))))"
    by (simp add: startAll_def zy_init_def start_system_def systemService_def join_pool_def switch_context_def drop_capabilities_def
        dropCapabilities_def demo_world_def emit_def attempt_def fork_def stop_def membased_init_def)
  with privileges_dropped_first [of "demo_world [0]" "startAll 22 True" 22 True, OF _ _ _ refl] show ?thesis
    by (simp add: demo_world_def)
qed

text \<open>The memory has been set up by the process \<open>pid\<close>.\<close>

definition set_up :: "int \<Rightarrow> 'a zygote_scheme \<Rightarrow> bool" where
  "set_up pid s \<longleftrightarrow> (pr_end s = None \<longrightarrow> z_zygotePid (zy_z s) = pid)"

definition in_service :: "int \<Rightarrow> 'a zygote_scheme \<Rightarrow> bool" where
  "in_service pid s \<longleftrightarrow>
     (\<exists>sh. z_shared (zy_z s) = Some sh \<and> sh_state sh \<noteq> STATE_NOT_RUNNING \<and> \<not> z_always (zy_z s) \<and>
        z_zygotePid (zy_z s) = pid \<and> Did Madvise_dontfork \<in> set (pr_trace s))"

lemma set_up_zy_init: "triple (\<lambda>s. z_pid (zy_z s) = pid) zy_init (\<lambda>ok s. ok \<longrightarrow> set_up pid s)"
  by (auto simp: triple_def set_up_def zy_init_def attempt_def membased_init_def split: list.splits if_splits)

lemma set_up_fork: "triple (set_up pid) fork (\<lambda>_. set_up pid)"
  by (auto simp: triple_def set_up_def fork_def split: list.splits)

lemma set_up_running: "triple (set_up pid) checkMembasedRunning (\<lambda>ok s. ok \<longrightarrow> in_service pid s)"
  by (auto simp: triple_def set_up_def in_service_def checkMembasedRunning_def emit_def waitForRunning_def
      restrictMemoryInheritance_def split: option.splits if_splits dest: wait_running_runs)

lemma returns_False: "triple P (State_Monad.return False) (\<lambda>ok s. ok \<longrightarrow> Q s)"
  "triple P (do { m; n; State_Monad.return False }) (\<lambda>ok s. ok \<longrightarrow> Q s)"
  by (simp_all add: triple_def case_prod_beta)

lemma set_up_start_system: "triple (set_up pid) (start_system sdk se) (\<lambda>ok s. ok \<longrightarrow> set_up pid s)"
  unfolding start_system_def
  by (intro triple_if triple_bind [OF set_up_fork] returns_False) (simp_all add: triple_def)

lemma in_service_startAll:
  "triple (\<lambda>s. z_pid (zy_z s) = pid) (startAll sdk True) (\<lambda>ok s. ok \<longrightarrow> in_service pid s)"
  unfolding startAll_def if_True
  by (rule triple_bind [OF set_up_zy_init], rule triple_if, rule returns_False,
      rule triple_bind [OF triple_weaken [OF set_up_start_system]], simp, assumption, rule triple_if, rule returns_False,
      rule triple_bind [OF triple_weaken [OF set_up_fork]], simp, assumption,
      intro triple_if returns_False set_up_running)

lemma in_service_startMembased:
  "triple (\<lambda>s. z_pid (zy_z s) = pid) (startMembased sdk True) (\<lambda>ok s. ok \<longrightarrow> in_service pid s)"
  unfolding startMembased_def not_True_eq_False if_False
  by (rule triple_bind [OF set_up_zy_init], rule triple_if, rule returns_False,
      rule triple_bind [OF triple_weaken [OF set_up_fork]], simp, assumption,
      rule triple_if, rule returns_False, rule triple_if)
    (simp_all add: triple_def case_prod_beta, use set_up_running in \<open>simp add: triple_def case_prod_beta\<close>)

text \<open>
  With SELinux, \<open>startAll\<close> reports success only when the memory-based service runs and only the calling
  process may use it: processes forked later are not given the memory.
\<close>

theorem started_service_runs:
  assumes "run_state (startAll sdk True) s = (True, s')"
  shows "\<exists>sh. z_shared (zy_z s') = Some sh \<and> sh_state sh \<noteq> STATE_NOT_RUNNING \<and> \<not> z_always (zy_z s') \<and>
    z_zygotePid (zy_z s') = z_pid (zy_z s) \<and> Did Madvise_dontfork \<in> set (pr_trace (s' :: zygote))"
  using tripleD [OF in_service_startAll, of s "z_pid (zy_z s)" sdk] assms by (auto simp: in_service_def)

theorem started_service_runs_witness:
  "\<exists>s' sh. run_state (startAll 22 True) (demo_world []) = (True, s') \<and> z_shared (zy_z s') = Some sh \<and>
     sh_state sh \<noteq> STATE_NOT_RUNNING"
proof -
  have "fst (run_state (startAll 22 True) (demo_world []))"
    by (simp add: startAll_def zy_init_def start_system_def checkMembasedRunning_def demo_world_def emit_def attempt_def fork_def
        membased_init_def waitForRunning_def restrictMemoryInheritance_def wait_running.simps demo_shared_def)
  then obtain s' where s': "run_state (startAll 22 True) (demo_world []) = (True, s')"
    by (metis prod.collapse)
  with started_service_runs [OF s'] show ?thesis by blast
qed

end
