(* ===== verification/Startup.thy ===== *)
theory Startup
  imports Services Safemode
begin

text \<open>
  The start-up sequence of \<open>src/Xposed-master/xposed.cpp\<close>: \<open>initialize\<close> with the flag files it looks at
  (through \<open>zygote_access\<close> of \<open>xposed_service.h\<close>), and \<open>onVmCreated\<close>, which loads the library for the
  runtime in use.  It is composed of the log daemon, the services, the safemode detection and the helpers of the
  other theories.  Logging (\<open>printRomInfo\<close>) is left out.

  \<open>su_fs\<close> is the file system as the process sees it, \<open>su_server\<close> as the service process sees it.
\<close>

record XposedShared =
  x_zygote :: bool
  x_startSystemServer :: bool
  x_startClassName :: "string option"
  x_xposedVersionInt :: u32
  x_isSELinuxEnabled :: bool
  x_isSELinuxEnforcing :: bool
  x_zygoteservice :: bool
  x_onVmCreated :: "runtime option"

record startup = zygote +
  su_shared :: XposedShared
  su_env :: environ
  su_fs :: fsys
  su_server :: fsys
  su_kernel :: kernel

definition XPOSED_DIR :: string where
  "XPOSED_DIR = ''/data/data/de.robv.android.xposed.installer/''"

definition XPOSED_LOAD_BLOCKER :: string where
  "XPOSED_LOAD_BLOCKER = XPOSED_DIR @ ''conf/disabled''"

definition XPOSED_SAFEMODE_NODELAY :: string where
  "XPOSED_SAFEMODE_NODELAY = XPOSED_DIR @ ''conf/safemode_nodelay''"

definition XPOSED_SAFEMODE_DISABLE :: string where
  "XPOSED_SAFEMODE_DISABLE = XPOSED_DIR @ ''conf/safemode_disable''"

abbreviation (input) F_OK :: int where "F_OK \<equiv> 0"
abbreviation (input) R_OK :: int where "R_OK \<equiv> 4"

text \<open>A computation of a live process.\<close>

definition live :: "'b \<Rightarrow> ('a startup_scheme \<Rightarrow> 'b \<times> 'a startup_scheme) \<Rightarrow> ('a startup_scheme, 'b) state" where
  "live d f = State (\<lambda>s. if pr_end s \<noteq> None then (d, s) else f s)"

definition zygote_access :: "string \<Rightarrow> int \<Rightarrow> ('a startup_scheme, int) state" where
  "zygote_access pathname mode = live (- 1) (\<lambda>s.
     if x_isSELinuxEnabled (su_shared s)
     then (case accessFile (su_server s) pathname mode (zy_z s) of
             None \<Rightarrow> (- 1, s\<lparr>pr_end := Some Waiting_forever\<rparr>)
           | Some (r, z) \<Rightarrow> (r, s\<lparr>zy_z := z\<rparr>))
     else (if fs_access (su_fs s) pathname mode = 0 then 0 else - 1, s))"

definition isDisabled :: "('a startup_scheme, bool) state" where
  "isDisabled = do { r \<leftarrow> zygote_access XPOSED_LOAD_BLOCKER F_OK; State_Monad.return (r = 0) }"

definition isSafemodeDisabled :: "('a startup_scheme, bool) state" where
  "isSafemodeDisabled = do { r \<leftarrow> zygote_access XPOSED_SAFEMODE_DISABLE F_OK; State_Monad.return (r = 0) }"

definition shouldSkipSafemodeDelay :: "('a startup_scheme, bool) state" where
  "shouldSkipSafemodeDelay = do { r \<leftarrow> zygote_access XPOSED_SAFEMODE_NODELAY F_OK; State_Monad.return (r = 0) }"

text \<open>A file that has been created is there for everybody.\<close>

definition with_file :: "string \<Rightarrow> fsys \<Rightarrow> fsys" where
  "with_file path fs = fs\<lparr>fs_access := (\<lambda>p m. if p = path \<and> m = F_OK then 0 else fs_access fs p m)\<rparr>"

definition disableXposed :: "('a startup_scheme, unit) state" where
  "disableXposed = do {
     fd \<leftarrow> attempt (Open_file XPOSED_LOAD_BLOCKER);
     if fd
     then live () (\<lambda>s. ((), s\<lparr>su_fs := with_file XPOSED_LOAD_BLOCKER (su_fs s),
                              su_server := with_file XPOSED_LOAD_BLOCKER (su_server s)\<rparr>))
     else State_Monad.return () }"

definition detect_trigger :: "bool \<Rightarrow> ('a startup_scheme, bool) state" where
  "detect_trigger skip = live False (\<lambda>s.
     case detectSafemodeTrigger (su_kernel s) skip of
       None \<Rightarrow> (False, s\<lparr>pr_end := Some Waiting_forever\<rparr>)
     | Some (b, _, _) \<Rightarrow> (b, s))"

text \<open>\<open>zygote && !isSafemodeDisabled() && detectSafemodeTrigger(shouldSkipSafemodeDelay())\<close>\<close>

definition safemode_check :: "bool \<Rightarrow> ('a startup_scheme, unit) state" where
  "safemode_check zyg =
     (if \<not> zyg then State_Monad.return ()
      else do {
        off \<leftarrow> isSafemodeDisabled;
        if off then State_Monad.return ()
        else do {
          skip \<leftarrow> shouldSkipSafemodeDelay;
          triggered \<leftarrow> detect_trigger skip;
          if triggered then disableXposed else State_Monad.return () } })"

definition set_env :: "(fsys \<Rightarrow> environ \<Rightarrow> 'b \<times> environ) \<Rightarrow> 'b \<Rightarrow> ('a startup_scheme, 'b) state" where
  "set_env f d = live d (\<lambda>s. case f (su_fs s) (su_env s) of (b, env) \<Rightarrow> (b, s\<lparr>su_env := env\<rparr>))"

definition add_jar :: "('a startup_scheme, bool) state" where
  "add_jar = set_env (\<lambda>fs. addJarToClasspath (\<lambda>p. fs_access fs p R_OK = 0)) False"

definition htc_adjust :: "int \<Rightarrow> ('a startup_scheme, unit) state" where
  "htc_adjust sdk =
     (if sdk \<ge> 21
      then set_env (\<lambda>fs env. ((), htcAdjustSystemServerClassPath (\<lambda>p. fs_access fs p F_OK = 0) env)) ()
      else State_Monad.return ())"

definition ignore_command :: "string option \<Rightarrow> string list \<Rightarrow> ('a startup_scheme, bool) state" where
  "ignore_command className argv =
     (case shouldIgnoreCommand className argv of
        None \<Rightarrow> do { stop Crashed; State_Monad.return False }
      | Some b \<Rightarrow> State_Monad.return b)"

text \<open>What the process is told from outside: build, arguments, kernel.\<close>

record launch =
  l_tools :: bool
  l_sdk :: int
  l_zygote :: bool
  l_startSystemServer :: bool
  l_className :: "string option"
  l_argv :: "string list"
  l_version :: version
  l_is_selinux_enabled :: int
  l_security_getenforce :: int
  l_time :: int
  l_pid :: int
  l_logcat :: string

definition fill_shared :: "launch \<Rightarrow> ('a startup_scheme, unit) state" where
  "fill_shared L = State (\<lambda>s. ((), s\<lparr>su_shared := (su_shared s)
     \<lparr>x_zygote := l_zygote L, x_startSystemServer := l_startSystemServer L, x_startClassName := l_className L,
      x_xposedVersionInt := xposedVersionInt (l_version L), x_isSELinuxEnabled := (l_is_selinux_enabled L = 1),
      x_isSELinuxEnforcing := (l_is_selinux_enabled L = 1 \<and> l_security_getenforce L = 1)\<rparr>\<rparr>))"

definition start_log :: "launch \<Rightarrow> ('a startup_scheme, unit) state" where
  "start_log L =
     (if l_startSystemServer L
      then logcat_start (l_sdk L) (l_is_selinux_enabled L = 1) (l_time L) (l_pid L) (l_logcat L)
      else if l_zygote L then emit (Sleep 10) else State_Monad.return ())"

definition start_services :: "launch \<Rightarrow> ('a startup_scheme, bool) state" where
  "start_services L =
     (if l_startSystemServer L
      then do { htc_adjust (l_sdk L); startAll (l_sdk L) (l_is_selinux_enabled L = 1) }
      else if l_is_selinux_enabled L = 1 then startMembased (l_sdk L) True
      else State_Monad.return True)"

definition initialize :: "launch \<Rightarrow> ('a startup_scheme, bool) state" where
  "initialize L =
     (if \<not> l_tools L \<and> \<not> l_zygote L then State_Monad.return False
      else do {
        fill_shared L;
        start_log L;
        ok \<leftarrow> start_services L;
        if \<not> ok then State_Monad.return False
        else do {
          safemode_check (l_zygote L);
          disabled \<leftarrow> isDisabled;
          ignored \<leftarrow> (if disabled \<or> l_zygote L then State_Monad.return False else ignore_command (l_className L) (l_argv L));
          if disabled \<or> ignored then State_Monad.return False else add_jar } })"

section \<open>Loading the library for the runtime\<close>

text \<open>What the dynamic linker finds, and what \<open>xposedInitLib\<close> of the library answers; whether the build is a 64-bit one.\<close>

record linker =
  ln_lp64 :: bool
  ln_dlopen :: "string \<Rightarrow> bool"
  ln_dlsym :: "string \<Rightarrow> bool"
  ln_init :: "string \<Rightarrow> bool"

definition onVmCreated :: "string option \<Rightarrow> linker \<Rightarrow> XposedShared \<Rightarrow> runtime option \<times> XposedShared" where
  "onVmCreated maps ln x =
     (case determineRuntime maps of
        None \<Rightarrow> (None, x)
      | Some r \<Rightarrow>
          if \<not> ln_dlopen ln (XPOSED_LIB (ln_lp64 ln) r) then (None, x)
          else if \<not> ln_dlsym ln ''xposedInitLib'' then (None, x)
          else let x1 = x\<lparr>x_zygoteservice := True\<rparr>
               in if ln_init ln (XPOSED_LIB (ln_lp64 ln) r) then (Some r, x1\<lparr>x_onVmCreated := Some r\<rparr>) else (None, x1))"

abbreviation (input) JNI_OK :: int where "JNI_OK \<equiv> 0"
abbreviation (input) JNI_ERR :: int where "JNI_ERR \<equiv> - 1"
abbreviation (input) JNI_VERSION_1_4 :: int where "JNI_VERSION_1_4 \<equiv> 65540"

definition JNI_OnLoad :: "int \<Rightarrow> string option \<Rightarrow> linker \<Rightarrow> XposedShared \<Rightarrow> int \<times> XposedShared" where
  "JNI_OnLoad getEnv_result maps ln x =
     (if getEnv_result \<noteq> JNI_OK then (JNI_ERR, x) else (JNI_VERSION_1_4, snd (onVmCreated maps ln x)))"

section \<open>What the start-up keeps\<close>

text \<open>
  The process keeps its id and what it knows about SELinux, and the flag file is visible to everybody once it has
  been created.
\<close>

definition kept :: "int \<Rightarrow> bool \<Rightarrow> startup \<Rightarrow> bool" where
  "kept pid se s \<longleftrightarrow>
     z_pid (zy_z s) = pid \<and> x_isSELinuxEnabled (su_shared s) = se \<and>
     (Did (Open_file XPOSED_LOAD_BLOCKER) \<in> set (pr_trace s) \<longrightarrow>
        fs_access (su_fs s) XPOSED_LOAD_BLOCKER F_OK = 0 \<and> fs_access (su_server s) XPOSED_LOAD_BLOCKER F_OK = 0)"

text \<open>
  A property of the process that depends on the memory-based service at most through the process id, not on the
  environment, and on the calls made at most through those that matter below.
\<close>

locale calm =
  fixes P :: "startup \<Rightarrow> bool" and X :: "pevent set"
  assumes ignores: "ignores P X"
    and memory: "P s \<Longrightarrow> z_pid z = z_pid (zy_z s) \<Longrightarrow> P (s\<lparr>zy_z := z\<rparr>)"
    and environment: "P s \<Longrightarrow> P (s\<lparr>su_env := e\<rparr>)"
    and calls: "x \<in> X \<Longrightarrow> x = Open_file XPOSED_LOAD_BLOCKER \<or> x = Fork 0 \<or> (\<exists>c os z. x = Start_runtime c os z)"
begin

lemma other_calls:
  "Set_process_name n \<notin> X" "Capset c \<notin> X" "Setresgid i \<notin> X" "Setcon n \<notin> X" "Add_service n b b' \<notin> X"
  "Proxy_add_service n b b' \<notin> X" "Create_thread n \<notin> X" "Start_thread_pool \<notin> X" "Give_thread_pool_name \<notin> X" "Looper \<notin> X"
  "Umask i \<notin> X" "Open_file XPOSEDLOG \<notin> X" "Fdopen \<notin> X" "Write_file n \<notin> X" "Close_file \<notin> X" "Rename n n' \<notin> X" "Pipe \<notin> X"
  "Close_pipe_end j \<notin> X" "Dup2 i \<notin> X" "Exec ns \<notin> X" "Sleep j \<notin> X" "Madvise_dontfork \<notin> X" "Mmap_shared \<notin> X"
  "Print n \<notin> X" "Prctl_no_new_privs \<notin> X" "Mkdir n \<notin> X" "Chown_root n \<notin> X" "Chmod n \<notin> X" "Set_argv0 n \<notin> X" "Personality i \<notin> X"
  "Add_option n \<notin> X" "Set_class n ns \<notin> X"
  using calls by (fastforce simp: XPOSEDLOG_def XPOSED_LOAD_BLOCKER_def XPOSED_DIR_def)+

lemmas frame = steady_intro steady_calls [OF ignores] other_calls

lemma frame_live: "(\<And>s. P s \<Longrightarrow> P (snd (f s))) \<Longrightarrow> steady P (live d f)"
  by (auto simp: steady_def triple_def live_def case_prod_beta)

lemma frame_zygote_access: "steady P (zygote_access path mode)"
proof -
  have "z_pid q = z_pid p" if "accessFile fs path mode p = Some (r, q)" for fs p r q
    using that by (auto simp: accessFile_def isServiceAccessible_def finish_def Let_def bind_eq_Some_conv split: if_splits)
  then show ?thesis unfolding zygote_access_def
    by (intro frame_live) (auto split: option.splits intro: memory ignores_updates(1) [OF ignores])
qed

lemma frame_flags: "steady P isDisabled" "steady P isSafemodeDisabled" "steady P shouldSkipSafemodeDelay"
  unfolding isDisabled_def isSafemodeDisabled_def shouldSkipSafemodeDelay_def by (intro frame frame_zygote_access)+

lemma frame_detect_trigger: "steady P (detect_trigger skip)"
  unfolding detect_trigger_def
  by (intro frame_live) (auto split: option.splits intro: ignores_updates(1) [OF ignores])

lemma frame_set_env: "steady P (set_env f d)"
  by (auto simp: steady_def triple_def set_env_def live_def environment split: prod.splits)

end

text \<open>If it does not depend on the process being the original one, the code that forks keeps it as well.\<close>

locale untouched = calm +
  assumes no_fork: "Fork 0 \<notin> X"
begin

lemma frame_fork: "steady P fork"
  by (rule steady_calls(3) [OF ignores]) (use calls no_fork in blast)

lemma frame_log: "steady P (drop_capabilities k)" "steady P (write_all ws)"
  by (simp add: drop_capabilities_def steady_calls [OF ignores] other_calls split: sum.splits)
    (induction ws; simp, intro frame; assumption)

lemma frame_logcat_start: "steady P (logcat_start sdk selinux t p pipe)"
  unfolding logcat_start_def execLogcat_def runDaemon_def by (intro frame_fork frame frame_log)

lemma frame_zy_init: "steady P zy_init"
  unfolding zy_init_def
  by (rule steady_bind [OF steady_calls(2) [OF ignores]])
    (auto simp: steady_def triple_def membased_init_def other_calls intro: memory)

lemma frame_checkMembasedRunning: "steady P checkMembasedRunning"
proof -
  have "P (s\<lparr>zy_z := z, pr_end := e\<rparr>)" if "P s" "z_pid z = z_pid (zy_z s)" for s z e
    using ignores_updates(1) [OF ignores memory [OF that]] .
  then show ?thesis unfolding checkMembasedRunning_def
    by (intro steady_bind steady_calls(1) [OF ignores] other_calls)
      (auto simp: steady_def triple_def waitForRunning_def restrictMemoryInheritance_def split: option.splits intro: memory)
qed

lemma frame_services: "steady P (startAll sdk selinux)" "steady P (startMembased sdk selinux)"
  unfolding startAll_def startMembased_def start_system_def systemService_def appService_def register_app_def join_pool_def
    switch_context_def
  by (intro frame_fork frame frame_log frame_zy_init frame_checkMembasedRunning)+

lemma frame_start_log: "steady P (start_log L)"
  unfolding start_log_def by (intro frame frame_logcat_start)

lemma frame_start_services: "steady P (start_services L)"
  unfolding start_services_def htc_adjust_def by (intro frame frame_set_env frame_services)

end

interpretation kept: untouched "kept pid se" "{Open_file XPOSED_LOAD_BLOCKER}"
  by unfold_locales (auto simp: ignores_def kept_def)

text \<open>A property that does not depend on the files and the flags either is kept by the whole of \<open>initialize\<close>.\<close>

locale unaffected = untouched +
  assumes files: "P s \<Longrightarrow> P (s\<lparr>su_fs := f, su_server := g\<rparr>)"
    and shared: "P s \<Longrightarrow> P (s\<lparr>su_shared := x\<rparr>)"
    and no_flag: "Open_file XPOSED_LOAD_BLOCKER \<notin> X"
begin

lemma frame_initialize: "steady P (initialize L)"
proof -
  have "steady P disableXposed" unfolding disableXposed_def
    by (intro frame frame_live no_flag) (simp add: files)
  then have safemode: "steady P (safemode_check z)" for z
    unfolding safemode_check_def by (intro frame frame_flags frame_detect_trigger)
  have ignored: "steady P (ignore_command c as)" for c as
    unfolding ignore_command_def by (auto split: option.splits intro: frame)
  have "steady P (fill_shared L)" by (simp add: fill_shared_def steady_def triple_def shared)
  with safemode ignored show ?thesis unfolding initialize_def add_jar_def
    by (intro frame frame_start_log frame_start_services frame_flags frame_set_env)
qed

end

lemma original_logcat_start: "triple original (logcat_start sdk selinux t p pipe) (\<lambda>_. original)"
  unfolding logcat_start_def execLogcat_def runDaemon_def
  by (rule original_fork_bind) (simp add: original_return, simp only: simp_thms if_False, intro vcg)

lemma original_set_env: "triple original (set_env f d) (\<lambda>_. original)"
  by (auto simp: triple_def set_env_def live_def original_def split: prod.splits)

section \<open>When the framework is loaded\<close>

text \<open>The process has the service where it needs it.\<close>

definition served :: "int \<Rightarrow> bool \<Rightarrow> startup \<Rightarrow> bool" where
  "served pid se s \<longleftrightarrow> kept pid se s \<and> original s \<and> (se \<longrightarrow> fst (isServiceAccessible (zy_z s)))"

definition sees :: "string \<Rightarrow> startup \<Rightarrow> bool" where
  "sees path s \<longleftrightarrow> fs_access (if x_isSELinuxEnabled (su_shared s) then su_server s else su_fs s) path F_OK = 0"

lemma accessFile_result:
  assumes "accessFile fs path mode p = Some (r, q)" "fst (isServiceAccessible p)" "length path \<le> PATH_MAX - 1"
  shows "r = (if fs_access fs path mode = 0 then 0 else - 1)" "fst (isServiceAccessible q)" "z_pid q = z_pid p"
  using assms
  by (auto simp: accessFile_def isServiceAccessible_def waitForIdle_def callService_def service_action_def access_action_def
      finish_def Let_def bind_eq_Some_conv split: if_splits)

lemma served_access:
  assumes "length path \<le> PATH_MAX - 1"
  shows "triple (served pid se) (zygote_access path F_OK)
    (\<lambda>r s. served pid se s \<and> (pr_end s = None \<longrightarrow> (r = 0) = sees path s))"
proof -
  have "served pid se (s\<lparr>zy_z := q\<rparr>)" "(r = 0) = sees path (s\<lparr>zy_z := q\<rparr>)"
    if "served pid se s" "se" "accessFile (su_server s) path F_OK (zy_z s) = Some (r, q)" for s r q
    using that accessFile_result [OF that(3) _ assms] by (auto simp: sees_def served_def kept_def original_def)
  note access = this
  have selinux: "x_isSELinuxEnabled (su_shared s) = se" and dead: "served pid se (s\<lparr>pr_end := Some e\<rparr>)"
    if "served pid se s" for s e
    using that by (simp_all add: served_def kept_def original_def)
  have "case run_state (zygote_access path F_OK) s of (r, s') \<Rightarrow>
      served pid se s' \<and> (pr_end s' = None \<longrightarrow> (r = 0) = sees path s')" if s: "served pid se s" for s
  proof (cases "accessFile (su_server s) path F_OK (zy_z s)")
    case None
    with s dead [OF s] show ?thesis by (cases se) (auto simp: zygote_access_def live_def selinux sees_def)
  next
    case (Some rq)
    obtain r q where "rq = (r, q)" by (cases rq)
    with s Some access [OF s] show ?thesis
      by (cases se) (auto simp: zygote_access_def live_def selinux, simp_all add: sees_def selinux)
  qed
  then show ?thesis by (simp add: triple_def)
qed

lemma flag_paths_short:
  "length XPOSED_LOAD_BLOCKER \<le> PATH_MAX - 1" "length XPOSED_SAFEMODE_DISABLE \<le> PATH_MAX - 1"
  "length XPOSED_SAFEMODE_NODELAY \<le> PATH_MAX - 1"
  by (simp_all add: XPOSED_LOAD_BLOCKER_def XPOSED_SAFEMODE_DISABLE_def XPOSED_SAFEMODE_NODELAY_def XPOSED_DIR_def)

lemma served_flags:
  "triple (served pid se) isDisabled (\<lambda>d s. served pid se s \<and> (pr_end s = None \<longrightarrow> d = sees XPOSED_LOAD_BLOCKER s))"
  "triple (served pid se) isSafemodeDisabled (\<lambda>_. served pid se)"
  "triple (served pid se) shouldSkipSafemodeDelay (\<lambda>_. served pid se)"
  unfolding isDisabled_def isSafemodeDisabled_def shouldSkipSafemodeDelay_def
  by (rule triple_bind [OF served_access [OF flag_paths_short(1)]] triple_bind [OF served_access [OF flag_paths_short(2)]]
      triple_bind [OF served_access [OF flag_paths_short(3)]], simp add: triple_def)+

lemma served_safemode_check: "triple (served pid se) (safemode_check z) (\<lambda>_. served pid se)"
proof -
  have disable: "triple (served pid se) disableXposed (\<lambda>_. served pid se)"
    by (auto simp: triple_def disableXposed_def attempt_def live_def served_def kept_def original_def with_file_def
        split: list.splits)
  have detect: "triple (served pid se) (detect_trigger b) (\<lambda>_. served pid se)" for b
    by (auto simp: triple_def detect_trigger_def live_def served_def kept_def original_def split: option.splits)
  have return: "triple (served pid se) (State_Monad.return ()) (\<lambda>_. served pid se)" by (simp add: triple_def)
  show ?thesis unfolding safemode_check_def
    by (intro triple_if return triple_bind [OF served_flags(2)] triple_bind [OF served_flags(3)] triple_bind [OF detect] disable)
qed

lemma served_start_services:
  assumes "se = (l_is_selinux_enabled L = 1)"
  shows "triple (\<lambda>s. kept pid se s \<and> original s) (start_services L) (\<lambda>ok s. ok \<longrightarrow> served pid se s)"
proof -
  let ?Q = "\<lambda>s. kept pid se s \<and> original s"
  have keep: "steady ?Q m" if "steady (kept pid se) m" "triple original m (\<lambda>_. original)" for m :: "(startup, 'b) state"
    using triple_conj [OF that(1) [unfolded steady_def] that(2)] by (simp add: steady_def)
  have served: "triple ?Q m (\<lambda>ok s. ok \<longrightarrow> served pid se s)"
    if "steady ?Q m" "se \<Longrightarrow> triple (\<lambda>s. z_pid (zy_z s) = pid) m (\<lambda>ok s. ok \<longrightarrow> in_service pid s)" for m :: "(startup, bool) state"
  proof (cases se)
    case True
    have "triple (\<lambda>s. ?Q s \<and> z_pid (zy_z s) = pid) m (\<lambda>ok s. ?Q s \<and> (ok \<longrightarrow> in_service pid s))"
      by (rule triple_conj [OF that(1) [unfolded steady_def] that(2) [OF True]])
    then show ?thesis
      by (rule triple_weaken) (auto simp: served_def kept_def in_service_def isServiceAccessible_def)
  next
    case False
    with that(1) show ?thesis unfolding steady_def by (elim triple_weaken) (auto simp: served_def)
  qed
  have all: "triple ?Q (startAll (l_sdk L) se) (\<lambda>ok s. ok \<longrightarrow> served pid se s)"
    using in_service_startAll by (intro served keep kept.frame_services original_startAll) (auto simp: steady_def)
  have membased: "triple ?Q (startMembased (l_sdk L) True) (\<lambda>ok s. ok \<longrightarrow> served pid se s)"
    using in_service_startMembased by (intro served keep kept.frame_services original_startMembased) (auto simp: steady_def)
  have htc: "triple ?Q (htc_adjust (l_sdk L)) (\<lambda>_. ?Q)"
    unfolding htc_adjust_def steady_def [symmetric] by (intro steady_intro keep kept.frame_set_env original_set_env)
  have none: "triple ?Q (State_Monad.return True) (\<lambda>ok s. ok \<longrightarrow> served pid se s)" if "\<not> se"
    using that by (simp add: triple_def served_def)
  show ?thesis unfolding start_services_def
    using triple_bind [OF htc all] membased none assms by (auto intro: triple_if)
qed

definition loaded :: "startup \<Rightarrow> bool" where
  "loaded s \<longleftrightarrow>
     original s \<and> pr_end s = None \<and> Did (Open_file XPOSED_LOAD_BLOCKER) \<notin> set (pr_trace s) \<and> \<not> sees XPOSED_LOAD_BLOCKER s \<and>
     (su_env s ''CLASSPATH'' = Some XPOSED_JAR \<or> (\<exists>old. su_env s ''CLASSPATH'' = Some (XPOSED_JAR @ '':'' @ old)))"

lemma loaded_add_jar:
  "triple (\<lambda>s. served pid se s \<and> (pr_end s = None \<longrightarrow> \<not> sees XPOSED_LOAD_BLOCKER s)) add_jar (\<lambda>ok s. ok \<longrightarrow> loaded s)"
  by (auto simp: triple_def add_jar_def set_env_def live_def addJarToClasspath_def addPathToEnv_first loaded_def served_def
      kept_def sees_def original_def split: if_splits prod.splits option.splits)

text \<open>Before \<open>initialize\<close> nothing has been forked and the flag file not been created.\<close>

definition fresh :: "int \<Rightarrow> startup \<Rightarrow> bool" where
  "fresh pid s \<longleftrightarrow>
     z_pid (zy_z s) = pid \<and> Did (Open_file XPOSED_LOAD_BLOCKER) \<notin> set (pr_trace s) \<and> Did (Fork 0) \<notin> set (pr_trace s)"

lemma loaded_initialize: "triple (fresh pid) (initialize L) (\<lambda>ok s. ok \<longrightarrow> loaded s)"
proof -
  define se where "se = (l_is_selinux_enabled L = 1)"
  let ?Q = "\<lambda>s. kept pid se s \<and> original s"
  have fill: "triple (fresh pid) (fill_shared L) (\<lambda>_. ?Q)"
    by (auto simp: triple_def fresh_def kept_def original_def fill_shared_def se_def)
  have log: "triple ?Q (start_log L) (\<lambda>_. ?Q)"
  proof (rule triple_conj)
    show "triple (kept pid se) (start_log L) (\<lambda>_. kept pid se)"
      using kept.frame_start_log by (simp add: steady_def)
    show "triple original (start_log L) (\<lambda>_. original)"
      unfolding start_log_def by (intro triple_if original_logcat_start original_emit original_return) simp
  qed
  let ?Q' = "\<lambda>d s. served pid se s \<and> (pr_end s = None \<longrightarrow> d = sees XPOSED_LOAD_BLOCKER s)"
  have ignored: "triple (?Q' d) (if d \<or> l_zygote L then State_Monad.return False else ignore_command (l_className L) (l_argv L))
      (\<lambda>_. ?Q' d)" for d
    by (auto simp: triple_def ignore_command_def stop_def served_def kept_def original_def sees_def split: option.splits)
  have rest: "triple (served pid se) (do {
          safemode_check (l_zygote L);
          disabled \<leftarrow> isDisabled;
          ignored \<leftarrow> (if disabled \<or> l_zygote L then State_Monad.return False else ignore_command (l_className L) (l_argv L));
          if disabled \<or> ignored then State_Monad.return False else add_jar }) (\<lambda>ok s. ok \<longrightarrow> loaded s)"
    by (rule triple_bind [OF served_safemode_check], rule triple_bind [OF served_flags(1)], rule triple_bind [OF ignored],
        rule triple_if, rule returns_False, rule triple_weaken [OF loaded_add_jar]) auto
  show ?thesis unfolding initialize_def
    by (rule triple_if, rule returns_False, rule triple_bind [OF fill], rule triple_bind [OF log],
        rule triple_bind [OF served_start_services [OF se_def]], rule triple_if, rule returns_False,
        rule triple_weaken [OF rest]) auto
qed

lemma original_initialize: "triple original (initialize L) (\<lambda>_. original)"
proof -
  have fill: "triple original (fill_shared L) (\<lambda>_. original)"
    by (auto simp: triple_def original_def fill_shared_def)
  have log: "triple original (start_log L) (\<lambda>_. original)"
    unfolding start_log_def by (intro triple_if original_logcat_start original_emit original_return) simp
  have services: "triple original (start_services L) (\<lambda>_. original)"
    unfolding start_services_def htc_adjust_def
    by (intro triple_if triple_bind [OF original_set_env] triple_bind [OF original_return] original_startAll original_startMembased
        original_return triple_bind [where Q = "\<lambda>_. original"] original_set_env)
  have access: "triple original (zygote_access path mode) (\<lambda>_. original)" for path mode
    by (auto simp: triple_def zygote_access_def live_def original_def split: option.splits)
  have flags: "triple original isDisabled (\<lambda>_. original)" "triple original isSafemodeDisabled (\<lambda>_. original)"
    "triple original shouldSkipSafemodeDelay (\<lambda>_. original)"
    unfolding isDisabled_def isSafemodeDisabled_def shouldSkipSafemodeDelay_def
    by (intro triple_bind [OF access] original_return)+
  have disable: "triple original disableXposed (\<lambda>_. original)"
    by (auto simp: triple_def disableXposed_def attempt_def live_def original_def split: list.splits)
  have detect: "triple original (detect_trigger b) (\<lambda>_. original)" for b
    by (auto simp: triple_def detect_trigger_def live_def original_def split: option.splits)
  have safemode: "triple original (safemode_check z) (\<lambda>_. original)" for z
    unfolding safemode_check_def
    by (intro triple_if original_return triple_bind [OF flags(2)] triple_bind [OF flags(3)] triple_bind [OF detect] disable)
  have ignored: "triple original (ignore_command c as) (\<lambda>_. original)" for c as
    by (auto simp: triple_def ignore_command_def stop_def original_def split: option.splits)
  show ?thesis unfolding initialize_def add_jar_def
    by (intro triple_if original_return triple_bind [OF fill] triple_bind [OF log] triple_bind [OF services] triple_bind [OF safemode]
        triple_bind [OF flags(1)] triple_bind [where Q = "\<lambda>_. original"] ignored original_set_env)
qed

end
