(* ===== verification/AppMain.thy ===== *)
theory AppMain
  imports Startup
begin

text \<open>
  The executable \<open>app_process\<close> with Xposed support: \<open>src/Xposed-master/app_main.cpp\<close> for Android 4 and
  \<open>app_main2.cpp\<close> from Android 5 on.  \<open>main\<close> handles the command line, calls \<open>initialize\<close> and starts the Java
  runtime; the runtime itself (\<open>AndroidRuntime\<close>) is not code of the repository, what it is told is recorded in
  the trace of the process.
\<close>

section \<open>Build and device\<close>

datatype isa = Arm64 | X86_64 | Arm | X86 | Mips | Mips64

definition kInstructionSet :: "isa \<Rightarrow> string" where
  "kInstructionSet i =
     (case i of Arm64 \<Rightarrow> ''arm64'' | X86_64 \<Rightarrow> ''x86_64'' | Arm \<Rightarrow> ''arm'' | X86 \<Rightarrow> ''x86'' | Mips \<Rightarrow> ''mips'' | Mips64 \<Rightarrow> ''mips64'')"

definition LP64 :: "isa \<Rightarrow> bool" where
  "LP64 i \<longleftrightarrow> i \<in> {Arm64, X86_64, Mips64}"

definition ABI_LIST_PROPERTY :: "isa \<Rightarrow> string" where
  "ABI_LIST_PROPERTY i = (if LP64 i then ''ro.product.cpu.abilist64'' else ''ro.product.cpu.abilist32'')"

definition ZYGOTE_NICE_NAME :: "isa \<Rightarrow> string" where
  "ZYGOTE_NICE_NAME i = (if LP64 i then ''zygote64'' else ''zygote'')"

definition XPOSED_CLASS_DOTS_ZYGOTE :: string where
  "XPOSED_CLASS_DOTS_ZYGOTE = ''de.robv.android.xposed.XposedBridge''"

definition XPOSED_CLASS_DOTS_TOOLS :: string where
  "XPOSED_CLASS_DOTS_TOOLS = ''de.robv.android.xposed.XposedBridge$ToolEntryPoint''"

abbreviation (input) EEXIST :: int where "EEXIST \<equiv> 17"
abbreviation (input) ADDR_COMPAT_LAYOUT :: u32 where "ADDR_COMPAT_LAYOUT \<equiv> 0x0200000"

text \<open>
  \<open>b_launch\<close> holds what \<open>initialize\<close> is told from outside beside its arguments, \<open>b_prop_file\<close> the contents of
  \<open>/system/xposed.prop\<close>, \<open>b_start\<close> and \<open>b_start_old\<close> whether the two variants of \<open>AndroidRuntime::start\<close> are
  found, \<open>b_vm_arguments\<close> is \<open>AndroidRuntime::addVmArguments\<close>.
\<close>

record boot =
  b_launch :: launch
  b_isa :: isa
  b_prop_file :: "string option"
  b_prctl :: int
  b_mkdir_errno :: int
  b_property :: "string \<Rightarrow> string option"
  b_personality :: u32
  b_start :: bool
  b_start_old :: bool
  b_vm_arguments :: "string list \<Rightarrow> nat"

definition property_get :: "boot \<Rightarrow> string \<Rightarrow> string \<Rightarrow> string" where
  "property_get B key dflt = (case b_property B key of Some (c # cs) \<Rightarrow> c # cs | _ \<Rightarrow> dflt)"

section \<open>The command line\<close>

text \<open>The options for the virtual machine, up to \<open>--\<close> or the first argument without a dash.\<close>

fun vm_options :: "string list \<Rightarrow> string list \<times> string list" where
  "vm_options [] = ([], [])"
| "vm_options (arg # args) =
     (if take 1 arg \<noteq> ''-'' then ([], arg # args)
      else if arg = ''--'' then ([], args)
      else case vm_options args of (os, rest) \<Rightarrow> (arg # os, rest))"

record cmdline =
  c_zygote :: bool
  c_startSystemServer :: bool
  c_application :: bool
  c_niceName :: string
  c_className :: string

definition no_cmdline :: cmdline where
  "no_cmdline = \<lparr>c_zygote = False, c_startSystemServer = False, c_application = False, c_niceName = [], c_className = []\<rparr>"

fun parse_args2 :: "isa \<Rightarrow> string list \<Rightarrow> cmdline \<Rightarrow> cmdline \<times> string list" where
  "parse_args2 i [] c = (c, [])"
| "parse_args2 i (arg # args) c =
     (if arg = ''--zygote'' then parse_args2 i args (c\<lparr>c_zygote := True, c_niceName := ZYGOTE_NICE_NAME i\<rparr>)
      else if arg = ''--start-system-server'' then parse_args2 i args (c\<lparr>c_startSystemServer := True\<rparr>)
      else if arg = ''--application'' then parse_args2 i args (c\<lparr>c_application := True\<rparr>)
      else if take 12 arg = ''--nice-name='' then parse_args2 i args (c\<lparr>c_niceName := drop 12 arg\<rparr>)
      else if take 2 arg \<noteq> ''--'' then (c\<lparr>c_className := arg\<rparr>, args)
      else (c, arg # args))"

text \<open>The older variant: the parent directory is one of the arguments of the loop, every other argument is the class.\<close>

record cmdline1 =
  d_zygote :: bool
  d_startSystemServer :: bool
  d_application :: bool
  d_parentDir :: "string option"
  d_niceName :: "string option"
  d_className :: "string option"

definition no_cmdline1 :: cmdline1 where
  "no_cmdline1 =
     \<lparr>d_zygote = False, d_startSystemServer = False, d_application = False, d_parentDir = None, d_niceName = None,
      d_className = None\<rparr>"

fun parse_args1 :: "string list \<Rightarrow> cmdline1 \<Rightarrow> cmdline1 \<times> string list" where
  "parse_args1 [] d = (d, [])"
| "parse_args1 (arg # args) d =
     (if d_parentDir d = None then parse_args1 args (d\<lparr>d_parentDir := Some arg\<rparr>)
      else if arg = ''--zygote'' then parse_args1 args (d\<lparr>d_zygote := True, d_niceName := Some ''zygote''\<rparr>)
      else if arg = ''--start-system-server'' then parse_args1 args (d\<lparr>d_startSystemServer := True\<rparr>)
      else if arg = ''--application'' then parse_args1 args (d\<lparr>d_application := True\<rparr>)
      else if take 12 arg = ''--nice-name='' then parse_args1 args (d\<lparr>d_niceName := Some (drop 12 arg)\<rparr>)
      else (d\<lparr>d_className := Some arg\<rparr>, args))"

section \<open>The start of the process\<close>

text \<open>\<open>handleOptions\<close>: \<open>None\<close> if an option has been handled, otherwise the version found.\<close>

definition handle_options :: "boot \<Rightarrow> (nat \<times> string) list \<Rightarrow> (startup, version option) state" where
  "handle_options B argv =
     (case parseXposedProp (b_prop_file B) unknown_version of
        Inl _ \<Rightarrow> do { stop Crashed; State_Monad.return None }
      | Inr v \<Rightarrow>
          (case handleOptions argv of
             Show_version \<Rightarrow> do { emit (Print (''Xposed version: '' @ xposedVersion v @ [NL])); State_Monad.return None }
           | Test_safemode \<Rightarrow> do {
               emit (Print (''Testing Xposed safemode trigger'' @ [NL]));
               skip \<leftarrow> shouldSkipSafemodeDelay;
               triggered \<leftarrow> detect_trigger skip;
               emit (Print ((if triggered then ''Safemode triggered'' else ''Safemode not triggered'') @ [NL]));
               State_Monad.return None }
           | Arg_block start len \<Rightarrow> State_Monad.return (Some v)))"

definition computeArgBlockSize :: "(nat \<times> string) list \<Rightarrow> nat" where
  "computeArgBlockSize argv =
     (let start = fst (argv ! 0); fin = fst (argv ! (length argv - 1)) + length (snd (argv ! (length argv - 1))) + 1
      in fin - start)"

definition maybeCreateDalvikCache :: "boot \<Rightarrow> (startup, unit) state" where
  "maybeCreateDalvikCache B = do {
     androidRoot \<leftarrow> State (\<lambda>s. (su_env s ''ANDROID_DATA'', s));
     case androidRoot of
       None \<Rightarrow> stop Aborted
     | Some root \<Rightarrow>
         let dalvikCacheDir = root @ ''/dalvik-cache/'' @ kInstructionSet (b_isa B)
         in if length dalvikCacheDir \<ge> PATH_MAX then stop Aborted
            else do {
              made \<leftarrow> attempt (Mkdir dalvikCacheDir);
              if \<not> made \<and> b_mkdir_errno B \<noteq> EEXIST then stop Aborted
              else do {
                owned \<leftarrow> attempt (Chown_root dalvikCacheDir);
                if \<not> owned then stop Aborted
                else do {
                  changed \<leftarrow> attempt (Chmod dalvikCacheDir);
                  if \<not> changed then stop Aborted else State_Monad.return () } } } }"

definition runtimeStart :: "boot \<Rightarrow> string \<Rightarrow> string list \<Rightarrow> bool \<Rightarrow> (startup, unit) state" where
  "runtimeStart B classname options zygote =
     (if l_sdk (b_launch B) \<ge> 23 \<or> b_start B then emit (Start_runtime classname options (Some zygote))
      else if b_start_old B then emit (Start_runtime classname options None)
      else stop Aborted)"

text \<open>The arguments for the Java side.\<close>

definition java_args :: "boot \<Rightarrow> cmdline \<Rightarrow> string list \<Rightarrow> (startup, string list) state" where
  "java_args B c rest =
     (if c_className c \<noteq> []
      then do {
        emit (Set_class (c_className c) rest);
        State_Monad.return [if c_application c then ''application'' else ''tool''] }
      else do {
        maybeCreateDalvikCache B;
        let abis = property_get B (ABI_LIST_PROPERTY (b_isa B)) [];
        if abis = [] then do { stop Aborted; State_Monad.return [] }
        else State_Monad.return
          ((if c_startSystemServer c then [''start-system-server''] else []) @ [''--abi-list='' @ abis] @ rest) })"

definition launch_of :: "boot \<Rightarrow> version \<Rightarrow> bool \<Rightarrow> bool \<Rightarrow> string option \<Rightarrow> string list \<Rightarrow> launch" where
  "launch_of B v zygote startSystemServer className argv =
     (b_launch B)\<lparr>l_zygote := zygote, l_startSystemServer := startSystemServer, l_className := className, l_argv := argv,
       l_version := v\<rparr>"

fun add_options :: "string list \<Rightarrow> (startup, unit) state" where
  "add_options [] = State_Monad.return ()"
| "add_options (opt # opts) = do { emit (Add_option opt); add_options opts }"

text \<open>
  \<open>main\<close> of \<open>app_main2.cpp\<close>.  The class name is a \<open>String8\<close>, which converts to a pointer that is never null.
\<close>

definition main2_run :: "boot \<Rightarrow> version \<Rightarrow> string list \<Rightarrow> (startup, int) state" where
  "main2_run B v args =
     (let (vm, rest) = vm_options args; (c, remaining) = parse_args2 (b_isa B) (drop 1 rest) no_cmdline
      in do {
        add_options vm;
        jargs \<leftarrow> java_args B c remaining;
        _ \<leftarrow> (if c_niceName c \<noteq> []
             then do { emit (Set_argv0 (c_niceName c)); emit (Set_process_name (c_niceName c)) }
             else State_Monad.return ());
        isXposedLoaded \<leftarrow> initialize (launch_of B v (c_zygote c) (c_startSystemServer c) (Some (c_className c)) args);
        _ \<leftarrow> (if c_zygote c
             then runtimeStart B (if isXposedLoaded then XPOSED_CLASS_DOTS_ZYGOTE else ''com.android.internal.os.ZygoteInit'') jargs True
             else runtimeStart B (if isXposedLoaded then XPOSED_CLASS_DOTS_TOOLS else ''com.android.internal.os.RuntimeInit'') jargs False);
        State_Monad.return 0 })"

definition app_main2 :: "boot \<Rightarrow> (nat \<times> string) list \<Rightarrow> (startup, int) state" where
  "app_main2 B argv = do {
     emit Prctl_no_new_privs;
     if b_prctl B \<noteq> 0 \<and> b_prctl B \<noteq> EINVAL then do { stop Aborted; State_Monad.return 12 }
     else do {
       opts \<leftarrow> handle_options B argv;
       case opts of None \<Rightarrow> State_Monad.return 0 | Some v \<Rightarrow> main2_run B v (map snd (tl argv)) } }"

section \<open>The older variant\<close>

definition setArgv0 :: "string \<Rightarrow> string \<Rightarrow> string" where
  "setArgv0 argv0 newArgv0 = strlcpy (length argv0) newArgv0"

text \<open>The compatible memory layout: the process executes itself once more with it; \<open>True\<close> if it goes on.\<close>

definition compat_layout :: "boot \<Rightarrow> string list \<Rightarrow> (startup, bool) state" where
  "compat_layout B argv = do {
     fixup \<leftarrow> State (\<lambda>s. (su_env s ''NO_ADDR_COMPAT_LAYOUT_FIXUP'', s));
     if fixup = None \<and> property_get B ''ro.kernel.qemu'' [] \<noteq> ''1'' \<and> b_personality B AND ADDR_COMPAT_LAYOUT = 0
     then do {
       emit (Personality (uint (b_personality B OR ADDR_COMPAT_LAYOUT)));
       set_env (\<lambda>_ env. ((), env(''NO_ADDR_COMPAT_LAYOUT_FIXUP'' \<mapsto> ''1''))) ();
       ok \<leftarrow> attempt (Exec (''/system/bin/app_process'' # argv));
       if ok then do { stop (Replaced (''/system/bin/app_process'' # argv)); State_Monad.return False }
       else State_Monad.return False }
     else do {
       set_env (\<lambda>_ env. ((), env(''NO_ADDR_COMPAT_LAYOUT_FIXUP'' := None))) ();
       State_Monad.return True } }"

definition main1_run :: "boot \<Rightarrow> version \<Rightarrow> string \<Rightarrow> string list \<Rightarrow> (startup, int) state" where
  "main1_run B v argv0 args =
     (let i = b_vm_arguments B args; (d, remaining) = parse_args1 (drop i args) no_cmdline1
      in do {
        _ \<leftarrow> (case d_niceName d of
               Some (c # cs) \<Rightarrow> do { emit (Set_argv0 (setArgv0 argv0 (c # cs))); emit (Set_process_name (c # cs)) }
             | _ \<Rightarrow> State_Monad.return ());
        isXposedLoaded \<leftarrow> initialize (launch_of B v (d_zygote d) (d_startSystemServer d) (d_className d) args);
        if d_zygote d
        then do {
          emit (Start_runtime (if isXposedLoaded then XPOSED_CLASS_DOTS_ZYGOTE else ''com.android.internal.os.ZygoteInit'')
            [if d_startSystemServer d then ''start-system-server'' else []] None);
          State_Monad.return 0 }
        else (case d_className d of
            Some className \<Rightarrow> do {
              emit (Set_class className remaining);
              emit (Start_runtime (if isXposedLoaded then XPOSED_CLASS_DOTS_TOOLS else ''com.android.internal.os.RuntimeInit'')
                [if d_application d then ''application'' else ''tool''] None);
              State_Monad.return 0 }
          | None \<Rightarrow> do {
              emit (Print (''Error: no class name or --zygote supplied.'' @ [NL]));
              emit (Print (''Usage: app_process [java-options] cmd-dir start-class-name [options]'' @ [NL]));
              emit (Print (''   with Xposed support'' @ [NL]));
              stop Aborted;
              State_Monad.return 10 }) })"

definition app_main :: "boot \<Rightarrow> (nat \<times> string) list \<Rightarrow> (startup, int) state" where
  "app_main B argv = do {
     opts \<leftarrow> handle_options B argv;
     case opts of
       None \<Rightarrow> State_Monad.return 0
     | Some v \<Rightarrow> do {
         go \<leftarrow> (if l_sdk (b_launch B) \<ge> 16 \<and> b_isa B = Arm then compat_layout B (map snd argv) else State_Monad.return True);
         if \<not> go then State_Monad.return (- 1)
         else main1_run B v (snd (argv ! 0)) (map snd (tl argv)) } }"

section \<open>The runtime's callbacks\<close>

text \<open>
  \<open>AppRuntime\<close> of both variants.  \<open>toSlashClassName\<close> is \<open>AndroidRuntime\<close>'s, \<open>created\<close> is \<open>xposed::onVmCreated\<close> with
  what the loaded library does in it; only the newer variant describes (and thereby clears) the exception of a
  class that is not found.
\<close>

definition app_onVmCreated ::
  "bool \<Rightarrow> (string \<Rightarrow> string) \<Rightarrow> (jni, unit) state \<Rightarrow> bool \<Rightarrow> string \<Rightarrow> (jni, jref) state" where
  "app_onVmCreated newer toSlashClassName created isXposedLoaded className = do {
     _ \<leftarrow> (if isXposedLoaded then created else State_Monad.return ());
     if className = [] then State_Monad.return NULL
     else do {
       mClass \<leftarrow> jni_call (FindClass (toSlashClassName className));
       _ \<leftarrow> (if mClass = NULL \<and> newer
            then State (\<lambda>j. ((), j\<lparr>j_pending := False, j_log := j_log j @ [ExceptionDescribe]\<rparr>))
            else State_Monad.return ());
       jni_call (NewGlobalRef mClass) } }"

definition onStarted :: "string \<Rightarrow> jref \<Rightarrow> string list \<Rightarrow> (startup, unit) state" where
  "onStarted className mClass args = do {
     emit Start_thread_pool;
     emit (Call_main className mClass args);
     emit Stop_process }"

definition atrace_set_tracing_enabled :: "int \<Rightarrow> (string \<Rightarrow> bool) \<Rightarrow> (startup, unit) state" where
  "atrace_set_tracing_enabled sdk dlsym =
     (if sdk < 18 then State_Monad.return ()
      else if \<not> dlsym ''atrace_set_tracing_enabled'' then State_Monad.return ()
      else emit Enable_tracing)"

definition onZygoteInit :: "int \<Rightarrow> (string \<Rightarrow> bool) \<Rightarrow> (startup, unit) state" where
  "onZygoteInit sdk dlsym = do { atrace_set_tracing_enabled sdk dlsym; emit Start_thread_pool }"

definition onZygoteInit2 :: "int \<Rightarrow> (startup, unit) state" where
  "onZygoteInit2 sdk = do {
     _ \<leftarrow> (if sdk \<le> 22 then emit Enable_tracing else State_Monad.return ());
     emit Start_thread_pool }"

definition onExit :: "string \<Rightarrow> int \<Rightarrow> (startup, unit) state" where
  "onExit className code = do {
     _ \<leftarrow> (if className = [] then emit Stop_process else State_Monad.return ());
     emit (Runtime_exit code) }"

section \<open>What happens before the framework is initialized\<close>

context calm
begin

lemma frame_handle_options: "steady P (handle_options B argv)"
  unfolding handle_options_def
  by (cases "parseXposedProp (b_prop_file B) unknown_version"; cases "handleOptions argv"; simp;
      intro frame frame_flags frame_detect_trigger)

lemma frame_get: "steady P (State (\<lambda>s. (f s, s)))"
  by (simp add: steady_def triple_def)

lemma frame_maybeCreateDalvikCache: "steady P (maybeCreateDalvikCache B)"
  unfolding maybeCreateDalvikCache_def Let_def
  by (intro steady_bind frame_get) (auto split: option.splits intro!: frame)

lemma frame_java_args: "steady P (java_args B c rest)"
  unfolding java_args_def Let_def by (intro frame frame_maybeCreateDalvikCache)

lemma frame_add_options: "steady P (add_options os)"
  by (induction os) (simp_all add: frame)

lemma frame_compat_layout: "steady P (compat_layout B argv)"
  unfolding compat_layout_def by (intro frame frame_get frame_set_env)

end

definition unstarted :: "startup \<Rightarrow> bool" where
  "unstarted s \<longleftrightarrow> (\<forall>c os z. Did (Start_runtime c os z) \<notin> set (pr_trace s))"

abbreviation runtime_starts :: "pevent set" where
  "runtime_starts \<equiv> {e. \<exists>c os z. e = Start_runtime c os z}"

interpretation unstarted: unaffected unstarted runtime_starts
  by unfold_locales (auto simp: ignores_def unstarted_def, blast)

definition before :: "int \<Rightarrow> startup \<Rightarrow> bool" where
  "before pid s \<longleftrightarrow> fresh pid s \<and> unstarted s"

interpretation before: calm "before pid" "{Open_file XPOSED_LOAD_BLOCKER, Fork 0} \<union> runtime_starts"
  by unfold_locales (auto simp: ignores_def before_def fresh_def unstarted_def, blast+)

section \<open>The start of the Java runtime\<close>

definition xposed_class :: "string \<Rightarrow> bool" where
  "xposed_class c \<longleftrightarrow> c = XPOSED_CLASS_DOTS_ZYGOTE \<or> c = XPOSED_CLASS_DOTS_TOOLS"

definition started_well :: "startup \<Rightarrow> bool" where
  "started_well s \<longleftrightarrow> (\<forall>c os z. Did (Start_runtime c os z) \<in> set (pr_trace s) \<longrightarrow>
     Did (Fork 0) \<notin> set (pr_trace s) \<and>
     (xposed_class c \<longrightarrow> Did (Open_file XPOSED_LOAD_BLOCKER) \<notin> set (pr_trace s) \<and> \<not> sees XPOSED_LOAD_BLOCKER s \<and>
        (su_env s ''CLASSPATH'' = Some XPOSED_JAR \<or> (\<exists>old. su_env s ''CLASSPATH'' = Some (XPOSED_JAR @ '':'' @ old)))))"

lemma started_well_unstarted: "unstarted s \<Longrightarrow> started_well s"
  by (simp add: unstarted_def started_well_def)

definition initialized :: "bool \<Rightarrow> startup \<Rightarrow> bool" where
  "initialized ok s \<longleftrightarrow> unstarted s \<and> original s \<and> (ok \<longrightarrow> loaded s)"

lemma initialized_initialize: "triple (before pid) (initialize L) initialized"
proof -
  have "triple (\<lambda>s. unstarted s \<and> (original s \<and> fresh pid s)) (initialize L) (\<lambda>ok s. unstarted s \<and> (original s \<and> (ok \<longrightarrow> loaded s)))"
    by (intro triple_conj original_initialize loaded_initialize unstarted.frame_initialize [unfolded steady_def])
  then show ?thesis
    by (rule triple_weaken) (auto simp: before_def fresh_def original_def initialized_def)
qed

lemma started_well_emit:
  assumes "xposed_class c \<Longrightarrow> ok"
  shows "triple (initialized ok) (emit (Start_runtime c os z)) (\<lambda>_. started_well)"
  using assms
  by (auto simp: triple_def emit_def initialized_def unstarted_def started_well_def loaded_def original_def sees_def)

lemma started_well_stop: "triple (initialized ok) (stop e) (\<lambda>_. started_well)"
  by (auto simp: triple_def stop_def initialized_def unstarted_def started_well_def)

lemma started_well_return: "triple started_well (State_Monad.return x) (\<lambda>_. started_well)"
  by (simp add: triple_def)

lemma stock_classes:
  "\<not> xposed_class ''com.android.internal.os.ZygoteInit''" "\<not> xposed_class ''com.android.internal.os.RuntimeInit''"
  by (simp_all add: xposed_class_def XPOSED_CLASS_DOTS_ZYGOTE_def XPOSED_CLASS_DOTS_TOOLS_def)

lemma started_well_runtimeStart:
  "(xposed_class c \<Longrightarrow> ok) \<Longrightarrow> triple (initialized ok) (runtimeStart B c os z) (\<lambda>_. started_well)"
  unfolding runtimeStart_def by (intro triple_if started_well_emit started_well_stop)

lemma before_returns: "triple (before pid) (State_Monad.return x) (\<lambda>_. started_well)"
  by (simp add: triple_def before_def started_well_unstarted)

lemma started_well_main2_run: "triple (before pid) (main2_run B v args) (\<lambda>_. started_well)"
proof -
  have name: "triple (before pid) (if n \<noteq> [] then do { emit (Set_argv0 n); emit (Set_process_name n) } else State_Monad.return ())
      (\<lambda>_. before pid)" for n
    unfolding steady_def [symmetric] by (intro before.frame)
  show ?thesis unfolding main2_run_def Let_def case_prod_beta
    by (rule triple_bind [OF before.frame_add_options [unfolded steady_def]],
        rule triple_bind [OF before.frame_java_args [unfolded steady_def]],
        rule triple_bind [OF name], rule triple_bind [OF initialized_initialize],
        rule triple_bind [where Q = "\<lambda>_. started_well"])
      (auto intro!: triple_if started_well_runtimeStart started_well_return simp: stock_classes split: if_splits)
qed

lemma started_well_main1_run: "triple (before pid) (main1_run B v argv0 args) (\<lambda>_. started_well)"
proof -
  have name: "triple (before pid) (case n of
      Some (c # cs) \<Rightarrow> do { emit (Set_argv0 (setArgv0 argv0 (c # cs))); emit (Set_process_name (c # cs)) }
    | _ \<Rightarrow> State_Monad.return ()) (\<lambda>_. before pid)" for n
    unfolding steady_def [symmetric] by (auto split: option.splits list.splits intro!: before.frame)
  have start: "triple (initialized ok) (do { emit (Start_runtime c os z); State_Monad.return r }) (\<lambda>_. started_well)"
    if "xposed_class c \<Longrightarrow> ok" for ok c os z r
    by (rule triple_bind [OF started_well_emit [OF that] started_well_return])
  have quiet: "triple (initialized ok) (emit e) (\<lambda>_. initialized ok)" if "e \<noteq> Fork 0" "e \<noteq> Open_file XPOSED_LOAD_BLOCKER"
    "\<And>c os z. e \<noteq> Start_runtime c os z" for ok e
    using that by (auto simp: triple_def emit_def initialized_def unstarted_def original_def loaded_def sees_def)
  show ?thesis unfolding main1_run_def Let_def case_prod_beta
    by (rule triple_bind [OF name], rule triple_bind [OF initialized_initialize], rule triple_if, rule start)
      (auto simp: stock_classes split: if_splits option.splits intro!: triple_bind [OF quiet] start
        triple_bind [OF started_well_stop started_well_return])
qed

lemma before_stop: "triple (before pid) (stop e) (\<lambda>_. started_well)"
  by (auto simp: triple_def stop_def before_def unstarted_def started_well_def)

lemma started_well_app_main2: "triple (before pid) (app_main2 B argv) (\<lambda>_. started_well)"
  unfolding app_main2_def
  by (rule triple_bind [OF before.frame(5) [unfolded steady_def]], rule before.frame, rule triple_if,
      rule triple_bind [OF before_stop started_well_return],
      rule triple_bind [OF before.frame_handle_options [unfolded steady_def]])
    (auto split: option.splits intro: before_returns started_well_main2_run)

lemma started_well_app_main: "triple (before pid) (app_main B argv) (\<lambda>_. started_well)"
proof -
  have compat: "triple (before pid) (if b then compat_layout B as else State_Monad.return True) (\<lambda>_. before pid)" for b as
    unfolding steady_def [symmetric] by (intro before.frame before.frame_compat_layout)
  have rest: "triple (before pid) (do {
      go \<leftarrow> (if b then compat_layout B as else State_Monad.return True);
      if \<not> go then State_Monad.return (- 1) else main1_run B v a0 args }) (\<lambda>_. started_well)" for b as v a0 args
    by (rule triple_bind [OF compat], intro triple_if before_returns started_well_main1_run)
  show ?thesis unfolding app_main_def
    by (rule triple_bind [OF before.frame_handle_options [unfolded steady_def]])
      (simp only: before_returns rest split: option.splits, simp)
qed

section \<open>The argument block\<close>

text \<open>The kernel puts the argument strings one after the other; then the block computed is all of them.\<close>

fun laid_out :: "nat \<Rightarrow> string list \<Rightarrow> (nat \<times> string) list" where
  "laid_out a [] = []"
| "laid_out a (arg # args) = (a, arg) # laid_out (a + length arg + 1) args"

lemma laid_out_last:
  "args \<noteq> [] \<Longrightarrow> fst (last (laid_out a args)) + length (snd (last (laid_out a args))) + 1 = a + sum_list (map (\<lambda>s. length s + 1) args)"
proof (induction args arbitrary: a)
  case (Cons arg args)
  have "laid_out b args = [] \<longleftrightarrow> args = []" for b by (cases args) simp_all
  with Cons.IH [of "a + length arg + 1"] show ?case by (cases "args = []") simp_all
qed simp

lemma arg_block_size:
  assumes "args \<noteq> []"
  shows "computeArgBlockSize (laid_out a args) = sum_list (map (\<lambda>s. length s + 1) args)"
proof -
  have "laid_out a args \<noteq> []" "fst (laid_out a args ! 0) = a" using assms by (auto simp: neq_Nil_conv)
  with laid_out_last [OF assms, of a] show ?thesis
    by (simp add: computeArgBlockSize_def Let_def last_conv_nth algebra_simps)
qed

section \<open>The meaning of a command line\<close>

datatype cmd_flag = Zygote | Start_system_server | Application | Nice_name string

fun flag_text :: "cmd_flag \<Rightarrow> string" where
  "flag_text Zygote = ''--zygote''"
| "flag_text Start_system_server = ''--start-system-server''"
| "flag_text Application = ''--application''"
| "flag_text (Nice_name n) = ''--nice-name='' @ n"

record command =
  k_vm :: "string list"
  k_dashes :: bool
  k_parent :: string
  k_flags :: "cmd_flag list"
  k_class :: "string option"
  k_rest :: "string list"

definition command_line :: "command \<Rightarrow> string list" where
  "command_line k =
     k_vm k @ (if k_dashes k then [''--''] else []) @ [k_parent k] @ map flag_text (k_flags k) @
     (case k_class k of None \<Rightarrow> [] | Some c \<Rightarrow> [c]) @ k_rest k"

definition recognized :: "string \<Rightarrow> bool" where
  "recognized arg \<longleftrightarrow> arg \<in> {''--zygote'', ''--start-system-server'', ''--application''} \<or> take 12 arg = ''--nice-name=''"

definition unambiguous :: "command \<Rightarrow> bool" where
  "unambiguous k \<longleftrightarrow>
     list_all (\<lambda>opt. take 1 opt = ''-'' \<and> opt \<noteq> ''--'') (k_vm k) \<and> (k_dashes k \<or> take 1 (k_parent k) \<noteq> ''-'') \<and>
     (case k_class k of
        Some c \<Rightarrow> take 2 c \<noteq> ''--''
      | None \<Rightarrow> k_rest k = [] \<or> take 2 (hd (k_rest k)) = ''--'' \<and> \<not> recognized (hd (k_rest k)))"

definition nice_names :: "isa \<Rightarrow> cmd_flag list \<Rightarrow> string list" where
  "nice_names i fs = concat (map (\<lambda>f. case f of Zygote \<Rightarrow> [ZYGOTE_NICE_NAME i] | Nice_name n \<Rightarrow> [n] | _ \<Rightarrow> []) fs)"

lemma vm_options_command_line:
  assumes "list_all (\<lambda>opt. take 1 opt = ''-'' \<and> opt \<noteq> ''--'') vm" "dashes \<or> take 1 parent \<noteq> ''-''"
  shows "vm_options (vm @ (if dashes then [''--''] else []) @ parent # rest) = (vm, parent # rest)"
  using assms by (induction vm) auto

lemma recognized_dashes: "recognized arg \<Longrightarrow> take 2 arg = ''--''"
proof -
  have "take 2 arg = take 2 (take 12 arg)" by simp
  then show "recognized arg \<Longrightarrow> take 2 arg = ''--''" by (auto simp: recognized_def simp del: take_take)
qed

lemma parse_other:
  "\<not> recognized arg \<Longrightarrow>
    parse_args2 i (arg # args) c = (if take 2 arg \<noteq> ''--'' then (c\<lparr>c_className := arg\<rparr>, args) else (c, arg # args))"
  by (simp add: recognized_def)

lemma parse_class: "take 2 arg \<noteq> ''--'' \<Longrightarrow> parse_args2 i (arg # args) c = (c\<lparr>c_className := arg\<rparr>, args)"
  using recognized_dashes [of arg] parse_other [of arg i args c] by argo

lemma parse_flags:
  "parse_args2 i (map flag_text fs @ args) c =
     parse_args2 i args
       (c\<lparr>c_zygote := c_zygote c \<or> Zygote \<in> set fs, c_startSystemServer := c_startSystemServer c \<or> Start_system_server \<in> set fs,
         c_application := c_application c \<or> Application \<in> set fs, c_niceName := last (c_niceName c # nice_names i fs)\<rparr>)"
proof (induction fs arbitrary: c)
  case Nil
  then show ?case by (simp add: nice_names_def)
next
  case (Cons f fs)
  then show ?case by (cases f) (auto simp: nice_names_def)
qed

section \<open>Properties\<close>

text \<open>
  C33 A command line of the documented form (options for the virtual machine, optionally \<open>--\<close>, the parent directory,
  internal flags in any order, a class name, further arguments) is taken apart into exactly these parts: every
  flag counts wherever it stands, the last name given wins, and the rest is passed on unchanged.
\<close>

theorem command_line_understood:
  assumes "unambiguous k"
  shows "case vm_options (command_line k) of (vm, rest) \<Rightarrow>
    vm = k_vm k \<and>
    parse_args2 i (drop 1 rest) no_cmdline =
      (\<lparr>c_zygote = Zygote \<in> set (k_flags k), c_startSystemServer = Start_system_server \<in> set (k_flags k),
        c_application = Application \<in> set (k_flags k), c_niceName = last ([] # nice_names i (k_flags k)),
        c_className = (case k_class k of None \<Rightarrow> [] | Some c \<Rightarrow> c)\<rparr>, k_rest k)"
proof -
  have vm: "vm_options (command_line k) =
      (k_vm k, k_parent k # map flag_text (k_flags k) @ (case k_class k of None \<Rightarrow> [] | Some c \<Rightarrow> [c]) @ k_rest k)"
    using assms vm_options_command_line [of "k_vm k" "k_dashes k" "k_parent k"] by (simp add: unambiguous_def command_line_def)
  have cls: "parse_args2 i ((case k_class k of None \<Rightarrow> [] | Some c \<Rightarrow> [c]) @ k_rest k) c =
      (c\<lparr>c_className := (case k_class k of None \<Rightarrow> c_className c | Some x \<Rightarrow> x)\<rparr>, k_rest k)" for c
    using assms
    by (cases "k_rest k"; cases "k_class k") (auto simp: unambiguous_def parse_other parse_class simp del: parse_args2.simps(2))
  from vm cls show ?thesis by (simp add: parse_flags no_cmdline_def split: option.splits)
qed

theorem command_line_understood_witness:
  "parse_args2 Arm (drop 1 (snd (vm_options [''-Xzygote'', ''/system/bin'', ''--nice-name=a'', ''--zygote'', ''--start-system-server'']))) no_cmdline =
    (\<lparr>c_zygote = True, c_startSystemServer = True, c_application = False, c_niceName = ''zygote'', c_className = []\<rparr>, [])"
  using command_line_understood [of "\<lparr>k_vm = [''-Xzygote''], k_dashes = False, k_parent = ''/system/bin'',
    k_flags = [Nice_name ''a'', Zygote, Start_system_server], k_class = None, k_rest = []\<rparr>" Arm]
  by (simp add: unambiguous_def command_line_def nice_names_def ZYGOTE_NICE_NAME_def LP64_def)

text \<open>
  C32 On both variants, whatever the command line, the device and the outcome of every call: if the process starts
  the Java runtime, it is the process that was started (none of the service or log processes forked on the way
  does), and if it starts it with the framework's class, the flag file that disables the framework is not visible
  to whoever looks for it, in particular the safemode has not just created it, and the framework's jar comes
  first in the class path.
\<close>

theorem runtime_start_conditions:
  assumes "m \<in> {app_main B argv, app_main2 B argv}" "pr_trace s = []"
    and "Did (Start_runtime c os z) \<in> set (pr_trace (snd (run_state m s)))"
  shows "let s' = snd (run_state m s)
    in Did (Fork 0) \<notin> set (pr_trace s') \<and>
      (c = XPOSED_CLASS_DOTS_ZYGOTE \<or> c = XPOSED_CLASS_DOTS_TOOLS \<longrightarrow>
        Did (Open_file XPOSED_LOAD_BLOCKER) \<notin> set (pr_trace s') \<and> \<not> sees XPOSED_LOAD_BLOCKER s' \<and>
        (su_env s' ''CLASSPATH'' = Some XPOSED_JAR \<or> (\<exists>old. su_env s' ''CLASSPATH'' = Some (XPOSED_JAR @ '':'' @ old))))"
proof -
  have "before (z_pid (zy_z s)) s" using assms(2) by (simp add: before_def fresh_def unstarted_def)
  then have "started_well (snd (run_state m s))"
    using assms(1) tripleD [OF started_well_app_main] tripleD [OF started_well_app_main2] by blast
  with assms(3) show ?thesis unfolding started_well_def xposed_class_def Let_def by blast
qed

definition demo_launch :: launch where
  "demo_launch =
     \<lparr>l_tools = False, l_sdk = 22, l_zygote = True, l_startSystemServer = False, l_className = None,
      l_argv = [''app_process''], l_version = unknown_version, l_is_selinux_enabled = 1, l_security_getenforce = 1,
      l_time = 0, l_pid = 55, l_logcat = []\<rparr>"

definition demo_files :: fsys where
  "demo_files = (demo_fs 0 [])\<lparr>fs_access := (\<lambda>p m. if p = XPOSED_LOAD_BLOCKER then 2 else 0)\<rparr>"

definition demo_start :: startup where
  "demo_start = zygote.extend (demo_world [])
     (startup.fields \<lparr>x_zygote = False, x_startSystemServer = False, x_startClassName = None, x_xposedVersionInt = 0,
        x_isSELinuxEnabled = False, x_isSELinuxEnforcing = False, x_zygoteservice = False, x_onVmCreated = None\<rparr>
      [''ANDROID_DATA'' \<mapsto> ''/data''] demo_files demo_files demo_kernel)"

definition demo_boot :: boot where
  "demo_boot =
     \<lparr>b_launch = demo_launch, b_isa = Arm, b_prop_file = None, b_prctl = 0, b_mkdir_errno = 0,
      b_property = (\<lambda>_. Some ''armeabi''), b_personality = 0, b_start = True, b_start_old = True, b_vm_arguments = (\<lambda>_. 0)\<rparr>"

definition demo_argv :: "(nat \<times> string) list" where
  "demo_argv = [(0, ''app_process''), (12, ''/system/bin''), (24, ''--zygote'')]"

theorem runtime_start_conditions_witness:
  "let s' = snd (run_state (app_main2 demo_boot demo_argv) demo_start)
   in Did (Start_runtime XPOSED_CLASS_DOTS_ZYGOTE [''--abi-list=armeabi''] (Some True)) \<in> set (pr_trace s') \<and>
     \<not> sees XPOSED_LOAD_BLOCKER s'"
proof -
  let ?s' = "snd (run_state (app_main2 demo_boot demo_argv) demo_start)"
  have paths: "XPOSED_SAFEMODE_DISABLE \<noteq> XPOSED_LOAD_BLOCKER" "XPOSED_JAR \<noteq> XPOSED_LOAD_BLOCKER"
    by (simp_all add: XPOSED_SAFEMODE_DISABLE_def XPOSED_LOAD_BLOCKER_def XPOSED_DIR_def XPOSED_JAR_def)
  have start: "pr_trace demo_start = []" by (simp add: demo_start_def demo_world_def zygote.defs startup.defs)
  have run: "Did (Start_runtime XPOSED_CLASS_DOTS_ZYGOTE [''--abi-list=armeabi''] (Some True)) \<in> set (pr_trace ?s')"
    by code_simp
  with runtime_start_conditions [of _ demo_boot demo_argv, OF _ start run] show ?thesis by (simp add: Let_def)
qed

end
