(* ===== verification/Boxing.thy ===== *)
theory Boxing
  imports Prelude
begin

text \<open>
  How the Android runtime passes values between compiled code and Java objects
  (\<open>src/android_art-xposed-lollipop-mr1/runtime\<close>): the union \<open>JValue\<close> (\<open>jvalue.h\<close>), primitive types
  (\<open>primitive.h\<close>), boxing, unboxing and the argument arrays of reflective calls (\<open>reflection.cc\<close>,
  \<open>reflection-inl.h\<close>).  The hook of a method passes its arguments and its result through these operations.

  Objects are addresses (0 is null) in a record that tells class, first instance field and instance relation of
  every object, and what the \<open>valueOf\<close> methods of the Java library return.  Local references are transparent
  here: moving objects is the collector's business.  Conversions to floating point are the processor's.
\<close>

unbundle bit_operations_syntax

type_synonym u64 = "64 word"
type_synonym oref = u32

section \<open>Primitive types\<close>

datatype Prim =
    kPrimNot | kPrimBoolean | kPrimByte | kPrimChar | kPrimShort | kPrimInt | kPrimLong | kPrimFloat | kPrimDouble | kPrimVoid

definition GetType :: "char \<Rightarrow> Prim" where
  "GetType c =
     (if c = CHR ''B'' then kPrimByte else if c = CHR ''C'' then kPrimChar else if c = CHR ''D'' then kPrimDouble
      else if c = CHR ''F'' then kPrimFloat else if c = CHR ''I'' then kPrimInt else if c = CHR ''J'' then kPrimLong
      else if c = CHR ''S'' then kPrimShort else if c = CHR ''Z'' then kPrimBoolean else if c = CHR ''V'' then kPrimVoid
      else kPrimNot)"

fun ComponentSize :: "Prim \<Rightarrow> nat" where
  "ComponentSize kPrimVoid = 0"
| "ComponentSize kPrimBoolean = 1"
| "ComponentSize kPrimByte = 1"
| "ComponentSize kPrimChar = 2"
| "ComponentSize kPrimShort = 2"
| "ComponentSize kPrimInt = 4"
| "ComponentSize kPrimFloat = 4"
| "ComponentSize kPrimLong = 8"
| "ComponentSize kPrimDouble = 8"
| "ComponentSize kPrimNot = 4"

definition FieldSize :: "Prim \<Rightarrow> nat" where
  "FieldSize t = (if ComponentSize t \<le> 4 then 4 else 8)"

fun Descriptor :: "Prim \<Rightarrow> string option" where
  "Descriptor kPrimBoolean = Some ''Z''"
| "Descriptor kPrimByte = Some ''B''"
| "Descriptor kPrimChar = Some ''C''"
| "Descriptor kPrimShort = Some ''S''"
| "Descriptor kPrimInt = Some ''I''"
| "Descriptor kPrimFloat = Some ''F''"
| "Descriptor kPrimLong = Some ''J''"
| "Descriptor kPrimDouble = Some ''D''"
| "Descriptor kPrimVoid = Some ''V''"
| "Descriptor kPrimNot = None"

section \<open>The union of Java values\<close>

text \<open>Eight bytes, little endian; the setters of the smaller types leave the upper bytes alone.\<close>

type_synonym jvalue = u64

definition set_low :: "nat \<Rightarrow> u64 \<Rightarrow> jvalue \<Rightarrow> jvalue" where
  "set_low n w j = push_bit n (drop_bit n j) OR take_bit n w"

definition GetB :: "jvalue \<Rightarrow> byte" where "GetB j = ucast j"
definition GetC :: "jvalue \<Rightarrow> u16" where "GetC j = ucast j"
definition GetI :: "jvalue \<Rightarrow> u32" where "GetI j = ucast j"
definition GetJ :: "jvalue \<Rightarrow> u64" where "GetJ j = j"
definition GetF :: "jvalue \<Rightarrow> u32" where "GetF j = ucast j"
definition GetD :: "jvalue \<Rightarrow> u64" where "GetD j = j"
definition GetS :: "jvalue \<Rightarrow> u16" where "GetS j = ucast j"
definition GetZ :: "jvalue \<Rightarrow> byte" where "GetZ j = ucast j"
definition GetL :: "jvalue \<Rightarrow> oref" where "GetL j = ucast j"

definition SetI :: "u32 \<Rightarrow> jvalue \<Rightarrow> jvalue" where "SetI i = set_low 32 (ucast i)"
definition SetB :: "byte \<Rightarrow> jvalue \<Rightarrow> jvalue" where "SetB b = SetI (scast b)"
definition SetC :: "u16 \<Rightarrow> jvalue \<Rightarrow> jvalue" where "SetC c = set_low 16 (ucast c)"
definition SetJ :: "u64 \<Rightarrow> jvalue \<Rightarrow> jvalue" where "SetJ k j = k"
definition SetF :: "u32 \<Rightarrow> jvalue \<Rightarrow> jvalue" where "SetF f = set_low 32 (ucast f)"
definition SetD :: "u64 \<Rightarrow> jvalue \<Rightarrow> jvalue" where "SetD d j = d"
definition SetS :: "u16 \<Rightarrow> jvalue \<Rightarrow> jvalue" where "SetS s = SetI (scast s)"
definition SetZ :: "byte \<Rightarrow> jvalue \<Rightarrow> jvalue" where "SetZ z = set_low 8 (ucast z)"
definition SetL :: "oref \<Rightarrow> jvalue \<Rightarrow> jvalue" where "SetL l = set_low 32 (ucast l)"

section \<open>Objects\<close>

record heap =
  h_class :: "oref \<Rightarrow> string"
  h_field :: "oref \<Rightarrow> u64"
  h_instance :: "oref \<Rightarrow> string \<Rightarrow> bool"
  h_valueOf :: "Prim \<Rightarrow> u32 list \<Rightarrow> oref"
  h_i2f :: "int \<Rightarrow> u32"
  h_i2d :: "int \<Rightarrow> u64"
  h_f2d :: "u32 \<Rightarrow> u64"

datatype exn =
    IllegalArgument
  | ClassCast
  | NullPointer
  | IllegalAccess
  | OutOfMemory
  | StackOverflow
  | InvocationTarget exn
  | Thrown nat

definition GetBoolean :: "heap \<Rightarrow> oref \<Rightarrow> byte" where "GetBoolean H o' = ucast (h_field H o')"
definition GetByte :: "heap \<Rightarrow> oref \<Rightarrow> byte" where "GetByte H o' = ucast (h_field H o')"
definition GetChar :: "heap \<Rightarrow> oref \<Rightarrow> u16" where "GetChar H o' = ucast (h_field H o')"
definition GetShort :: "heap \<Rightarrow> oref \<Rightarrow> u16" where "GetShort H o' = ucast (h_field H o')"
definition GetInt :: "heap \<Rightarrow> oref \<Rightarrow> u32" where "GetInt H o' = ucast (h_field H o')"
definition GetFloat :: "heap \<Rightarrow> oref \<Rightarrow> u32" where "GetFloat H o' = ucast (h_field H o')"
definition GetLong :: "heap \<Rightarrow> oref \<Rightarrow> u64" where "GetLong H o' = h_field H o'"
definition GetDouble :: "heap \<Rightarrow> oref \<Rightarrow> u64" where "GetDouble H o' = h_field H o'"

fun box_class :: "Prim \<Rightarrow> string" where
  "box_class kPrimBoolean = ''Ljava/lang/Boolean;''"
| "box_class kPrimByte = ''Ljava/lang/Byte;''"
| "box_class kPrimChar = ''Ljava/lang/Character;''"
| "box_class kPrimDouble = ''Ljava/lang/Double;''"
| "box_class kPrimFloat = ''Ljava/lang/Float;''"
| "box_class kPrimInt = ''Ljava/lang/Integer;''"
| "box_class kPrimLong = ''Ljava/lang/Long;''"
| "box_class kPrimShort = ''Ljava/lang/Short;''"
| "box_class _ = []"

section \<open>The argument array\<close>

text \<open>A wide value takes two words, without the padding to an even word of builds for the portable compiler.\<close>

definition wide :: "u64 \<Rightarrow> u32 list" where
  "wide v = [ucast v, ucast (drop_bit 32 v)]"

text \<open>The words of an argument array: 16, or exactly as many as the types need.\<close>

abbreviation (input) kSmallArgArraySize :: nat where "kSmallArgArraySize \<equiv> 16"

definition arg_array_size :: "string \<Rightarrow> nat" where
  "arg_array_size shorty =
     (let num_slots = length shorty + 1
      in if num_slots * 2 < kSmallArgArraySize then kSmallArgArraySize
         else let n = num_slots + length (filter (\<lambda>c. c = CHR ''J'' \<or> c = CHR ''D'') (tl shorty))
              in if n \<le> kSmallArgArraySize then kSmallArgArraySize else n)"

definition jvalue_arg :: "char \<Rightarrow> jvalue \<Rightarrow> u32 list" where
  "jvalue_arg c v =
     (if c = CHR ''Z'' then [ucast (GetZ v)]
      else if c = CHR ''B'' then [scast (GetB v)]
      else if c = CHR ''C'' then [ucast (GetC v)]
      else if c = CHR ''S'' then [scast (GetS v)]
      else if c = CHR ''I'' \<or> c = CHR ''F'' then [GetI v]
      else if c = CHR ''L'' then [GetL v]
      else if c = CHR ''D'' \<or> c = CHR ''J'' then wide (GetJ v)
      else [])"

definition BuildArgArrayFromJValues :: "string \<Rightarrow> oref \<Rightarrow> jvalue list \<Rightarrow> u32 list" where
  "BuildArgArrayFromJValues shorty receiver args =
     (if receiver \<noteq> 0 then [receiver] else []) @ concat (map2 jvalue_arg (tl shorty) args)"

text \<open>From the registers of an interpreter frame.\<close>

fun frame_args :: "string \<Rightarrow> u32 list \<Rightarrow> u32 list" where
  "frame_args [] vregs = []"
| "frame_args (c # cs) vregs =
     (if c = CHR ''D'' \<or> c = CHR ''J''
      then wide (ucast (vregs ! 0) OR push_bit 32 (ucast (vregs ! 1))) @ frame_args cs (drop 2 vregs)
      else vregs ! 0 # frame_args cs (drop 1 vregs))"

definition BuildArgArrayFromFrame :: "string \<Rightarrow> bool \<Rightarrow> u32 list \<Rightarrow> u32 list" where
  "BuildArgArrayFromFrame shorty isStatic vregs =
     (if isStatic then frame_args (tl shorty) vregs else vregs ! 0 # frame_args (tl shorty) (drop 1 vregs))"

definition NumArgRegisters :: "string \<Rightarrow> nat" where
  "NumArgRegisters shorty = sum_list (map (\<lambda>c. if c = CHR ''D'' \<or> c = CHR ''J'' then 2 else 1) (tl shorty))"

text \<open>From an array of objects; \<open>cls\<close> is the class of the parameter.\<close>

definition object_arg :: "heap \<Rightarrow> char \<Rightarrow> string \<Rightarrow> oref \<Rightarrow> exn + u32 list" where
  "object_arg H c cls arg =
     (let is = (\<lambda>p. arg \<noteq> 0 \<and> h_class H arg = box_class p)
      in if (c = CHR ''L'' \<and> arg \<noteq> 0 \<or> arg = 0 \<and> c \<noteq> CHR ''L'') \<and> (arg = 0 \<or> \<not> h_instance H arg cls) then Inl IllegalArgument
         else if c = CHR ''L'' then Inr [arg]
         else if c = CHR ''Z'' then (if is kPrimBoolean then Inr [ucast (GetBoolean H arg)] else Inl IllegalArgument)
         else if c = CHR ''B'' then (if is kPrimByte then Inr [scast (GetByte H arg)] else Inl IllegalArgument)
         else if c = CHR ''C'' then (if is kPrimChar then Inr [ucast (GetChar H arg)] else Inl IllegalArgument)
         else if c = CHR ''S''
         then (if is kPrimShort then Inr [scast (GetShort H arg)]
               else if is kPrimByte then Inr [scast (GetByte H arg)] else Inl IllegalArgument)
         else if c = CHR ''I''
         then (if is kPrimInt then Inr [GetInt H arg]
               else if is kPrimChar then Inr [ucast (GetChar H arg)]
               else if is kPrimShort then Inr [scast (GetShort H arg)]
               else if is kPrimByte then Inr [scast (GetByte H arg)] else Inl IllegalArgument)
         else if c = CHR ''J''
         then (if is kPrimLong then Inr (wide (GetLong H arg))
               else if is kPrimInt then Inr (wide (scast (GetInt H arg)))
               else if is kPrimChar then Inr (wide (ucast (GetChar H arg)))
               else if is kPrimShort then Inr (wide (scast (GetShort H arg)))
               else if is kPrimByte then Inr (wide (scast (GetByte H arg))) else Inl IllegalArgument)
         else if c = CHR ''F''
         then (if is kPrimFloat then Inr [GetFloat H arg]
               else if is kPrimLong then Inr [h_i2f H (sint (GetLong H arg))]
               else if is kPrimInt then Inr [h_i2f H (sint (GetInt H arg))]
               else if is kPrimChar then Inr [h_i2f H (uint (GetChar H arg))]
               else if is kPrimShort then Inr [h_i2f H (sint (GetShort H arg))]
               else if is kPrimByte then Inr [h_i2f H (sint (GetByte H arg))] else Inl IllegalArgument)
         else if c = CHR ''D''
         then (if is kPrimDouble then Inr (wide (GetDouble H arg))
               else if is kPrimFloat then Inr (wide (h_f2d H (GetFloat H arg)))
               else if is kPrimLong then Inr (wide (h_i2d H (sint (GetLong H arg))))
               else if is kPrimInt then Inr (wide (h_i2d H (sint (GetInt H arg))))
               else if is kPrimChar then Inr (wide (h_i2d H (uint (GetChar H arg))))
               else if is kPrimShort then Inr (wide (h_i2d H (sint (GetShort H arg))))
               else if is kPrimByte then Inr (wide (h_i2d H (sint (GetByte H arg)))) else Inl IllegalArgument)
         else Inr [])"

fun object_args :: "heap \<Rightarrow> string \<Rightarrow> string list \<Rightarrow> oref list \<Rightarrow> exn + u32 list" where
  "object_args H (c # cs) (cls # clss) (arg # args) =
     (case object_arg H c cls arg of
        Inl e \<Rightarrow> Inl e
      | Inr ws \<Rightarrow> (case object_args H cs clss args of Inl e \<Rightarrow> Inl e | Inr ws' \<Rightarrow> Inr (ws @ ws')))"
| "object_args H _ _ _ = Inr []"

definition BuildArgArrayFromObjectArray :: "heap \<Rightarrow> string \<Rightarrow> string list \<Rightarrow> oref \<Rightarrow> oref list \<Rightarrow> exn + u32 list" where
  "BuildArgArrayFromObjectArray H shorty classes receiver args =
     map_sum id (\<lambda>ws. (if receiver \<noteq> 0 then [receiver] else []) @ ws) (object_args H (tl shorty) classes args)"

section \<open>Boxing and unboxing\<close>

text \<open>The result is null for \<open>void\<close> and when \<open>valueOf\<close> has thrown.\<close>

definition BoxPrimitive :: "heap \<Rightarrow> Prim \<Rightarrow> jvalue \<Rightarrow> oref" where
  "BoxPrimitive H src_class v =
     (if src_class = kPrimNot then GetL v
      else if src_class = kPrimVoid then 0
      else h_valueOf H src_class
             (if src_class = kPrimDouble \<or> src_class = kPrimLong then wide (GetJ v) else [GetI v]))"

definition conversion_error :: "bool \<Rightarrow> exn" where
  "conversion_error unbox_for_result = (if unbox_for_result then ClassCast else IllegalArgument)"

definition ConvertPrimitiveValue :: "heap \<Rightarrow> bool \<Rightarrow> Prim \<Rightarrow> Prim \<Rightarrow> jvalue \<Rightarrow> jvalue \<Rightarrow> exn + jvalue" where
  "ConvertPrimitiveValue H unbox_for_result srcType dstType src dst =
     (let small = {kPrimByte, kPrimChar, kPrimShort}; fail = Inl (conversion_error unbox_for_result)
      in if srcType = dstType then Inr (SetJ (GetJ src) dst)
         else case dstType of
           kPrimShort \<Rightarrow> if srcType = kPrimByte then Inr (SetS (ucast (GetI src)) dst) else fail
         | kPrimInt \<Rightarrow> if srcType \<in> small then Inr (SetI (GetI src) dst) else fail
         | kPrimLong \<Rightarrow> if srcType \<in> small \<union> {kPrimInt} then Inr (SetJ (scast (GetI src)) dst) else fail
         | kPrimFloat \<Rightarrow>
             if srcType \<in> small \<union> {kPrimInt} then Inr (SetF (h_i2f H (sint (GetI src))) dst)
             else if srcType = kPrimLong then Inr (SetF (h_i2f H (sint (GetJ src))) dst) else fail
         | kPrimDouble \<Rightarrow>
             if srcType \<in> small \<union> {kPrimInt} then Inr (SetD (h_i2d H (sint (GetI src))) dst)
             else if srcType = kPrimLong then Inr (SetD (h_i2d H (sint (GetJ src))) dst)
             else if srcType = kPrimFloat then Inr (SetD (h_f2d H (GetF src)) dst) else fail
         | _ \<Rightarrow> fail)"

datatype jtype = Primitive_type Prim | Class_type string

text \<open>The value of a box, in a fresh \<open>JValue\<close>, with its primitive type.\<close>

definition boxed_value :: "heap \<Rightarrow> oref \<Rightarrow> (Prim \<times> jvalue) option" where
  "boxed_value H obj =
     (let is = (\<lambda>p. h_class H obj = box_class p)
      in if is kPrimBoolean then Some (kPrimBoolean, SetZ (GetBoolean H obj) 0)
         else if is kPrimByte then Some (kPrimByte, SetB (GetByte H obj) 0)
         else if is kPrimChar then Some (kPrimChar, SetC (GetChar H obj) 0)
         else if is kPrimFloat then Some (kPrimFloat, SetF (GetFloat H obj) 0)
         else if is kPrimDouble then Some (kPrimDouble, SetD (GetDouble H obj) 0)
         else if is kPrimInt then Some (kPrimInt, SetI (GetInt H obj) 0)
         else if is kPrimLong then Some (kPrimLong, SetJ (GetLong H obj) 0)
         else if is kPrimShort then Some (kPrimShort, SetS (GetShort H obj) 0)
         else None)"

definition UnboxPrimitive :: "heap \<Rightarrow> bool \<Rightarrow> oref \<Rightarrow> jtype \<Rightarrow> exn + jvalue" where
  "UnboxPrimitive H unbox_for_result obj dst_class =
     (case dst_class of
        Class_type cls \<Rightarrow>
          if obj \<noteq> 0 \<and> \<not> h_instance H obj cls then Inl (conversion_error unbox_for_result) else Inr (SetL obj 0)
      | Primitive_type p \<Rightarrow>
          if p = kPrimVoid then Inl IllegalArgument
          else if obj = 0 then Inl (if unbox_for_result then NullPointer else IllegalArgument)
          else case boxed_value H obj of
                 None \<Rightarrow> Inl IllegalArgument
               | Some (src, v) \<Rightarrow> ConvertPrimitiveValue H unbox_for_result src p v 0)"

definition UnboxPrimitiveForField :: "heap \<Rightarrow> oref \<Rightarrow> jtype \<Rightarrow> exn + jvalue" where
  "UnboxPrimitiveForField H obj dst_class = UnboxPrimitive H False obj dst_class"

definition UnboxPrimitiveForResult :: "heap \<Rightarrow> oref \<Rightarrow> jtype \<Rightarrow> exn + jvalue" where
  "UnboxPrimitiveForResult H obj dst_class = UnboxPrimitive H True obj dst_class"

text \<open>
  The arguments of a hooked or proxied call as objects: the loop of \<open>InvokeXposedHandleHookedMethod\<close> (and of
  \<open>InvokeProxyInvocationHandler\<close>) in \<open>entrypoint_utils.cc\<close>; \<open>None\<close> if a box could not be made.
\<close>

fun box_args :: "heap \<Rightarrow> string \<Rightarrow> jvalue list \<Rightarrow> oref list option" where
  "box_args H (c # cs) (v # vs) =
     (if c = CHR ''L'' then map_option (\<lambda>os. GetL v # os) (box_args H cs vs)
      else let val = BoxPrimitive H (GetType c) v
           in if val = 0 then None else map_option (\<lambda>os. val # os) (box_args H cs vs))"
| "box_args H _ _ = Some []"

section \<open>What boxing relies on\<close>

text \<open>
  The documented behaviour of the \<open>valueOf\<close> methods of the Java library: unless the call throws, the result is a
  box of the type with the value of the argument.
\<close>

fun payload :: "Prim \<Rightarrow> u32 list \<Rightarrow> u64" where
  "payload kPrimBoolean (w # _) = (if w = 0 then 0 else 1)"
| "payload kPrimByte (w # _) = ucast (ucast w :: byte)"
| "payload kPrimChar (w # _) = ucast (ucast w :: u16)"
| "payload kPrimShort (w # _) = ucast (ucast w :: u16)"
| "payload kPrimInt (w # _) = ucast w"
| "payload kPrimFloat (w # _) = ucast w"
| "payload kPrimLong (l # h # _) = ucast l OR push_bit 32 (ucast h)"
| "payload kPrimDouble (l # h # _) = ucast l OR push_bit 32 (ucast h)"
| "payload _ _ = 0"

definition boxing_law :: "heap \<Rightarrow> bool" where
  "boxing_law H \<longleftrightarrow>
     (\<forall>p ws. h_valueOf H p ws \<noteq> 0 \<longrightarrow> h_class H (h_valueOf H p ws) = box_class p \<and> h_field H (h_valueOf H p ws) = payload p ws)"

definition box_words :: "Prim \<Rightarrow> jvalue \<Rightarrow> u32 list" where
  "box_words p v = (if p = kPrimDouble \<or> p = kPrimLong then wide (GetJ v) else [GetI v])"

definition boxable :: "Prim \<Rightarrow> bool" where
  "boxable p \<longleftrightarrow> p \<noteq> kPrimNot \<and> p \<noteq> kPrimVoid"

lemma box_class_eq [simp]:
  "boxable p \<Longrightarrow> boxable q \<Longrightarrow> box_class p = box_class q \<longleftrightarrow> p = q"
  by (cases p; cases q) (simp_all add: boxable_def)

lemma boxable_simps [simp]:
  "boxable kPrimBoolean" "boxable kPrimByte" "boxable kPrimChar" "boxable kPrimShort" "boxable kPrimInt" "boxable kPrimLong"
  "boxable kPrimFloat" "boxable kPrimDouble" "\<not> boxable kPrimNot" "\<not> boxable kPrimVoid"
  by (simp_all add: boxable_def)

declare box_class.simps [simp del]

lemma BoxPrimitive_boxed:
  assumes "boxing_law H" "boxable p" "BoxPrimitive H p v \<noteq> 0"
  shows "h_class H (BoxPrimitive H p v) = box_class p" "h_field H (BoxPrimitive H p v) = payload p (box_words p v)"
  using assms by (auto simp: boxing_law_def BoxPrimitive_def box_words_def boxable_def)

section \<open>Words\<close>

lemma join_wide: "(ucast (ucast v :: u32) OR push_bit 32 (ucast (ucast (drop_bit 32 v) :: u32)) :: u64) = v"
  by (rule bit_eqI) (auto simp: bit_simps)

lemma narrow_word:
  "(ucast (ucast (w :: u32) :: u64) :: u32) = w"
  "(ucast (ucast (b :: byte) :: u64) :: byte) = b"
  "(ucast (ucast (c :: u16) :: u64) :: u16) = c"
  "(ucast (ucast (v :: u64) :: u32) :: byte) = ucast v"
  "(ucast (ucast (v :: u64) :: u32) :: u16) = ucast v"
  by (rule bit_eqI; auto simp: bit_simps)+

section \<open>Arguments survive boxing\<close>

text \<open>A register with a boolean holds 0 or 1.\<close>

definition tidy :: "char \<Rightarrow> jvalue \<Rightarrow> bool" where
  "tidy c v \<longleftrightarrow> (c = CHR ''Z'' \<longrightarrow> GetI v = 0 \<or> GetI v = 1)"

definition shorty_char :: "char \<Rightarrow> bool" where
  "shorty_char c \<longleftrightarrow> c \<in> set ''ZBCSIFLDJ''"

lemma GetZ_tidy: "GetI v = 0 \<or> GetI v = 1 \<Longrightarrow> GetZ v = (if GetI v = 0 then 0 else 1)"
  using narrow_word(4) [of v] by (auto simp: GetI_def GetZ_def)

lemmas getters =
  GetBoolean_def GetByte_def GetChar_def GetShort_def GetInt_def GetFloat_def GetLong_def GetDouble_def

lemma object_arg_of_box:
  assumes "h_class H obj = box_class (GetType c)" "h_field H obj = payload (GetType c) (box_words (GetType c) v)" "obj \<noteq> 0"
    and "shorty_char c" "tidy c v" "c \<noteq> CHR ''L''"
  shows "object_arg H c cls obj = Inr (jvalue_arg c v)"
proof -
  have "c \<in> {CHR ''Z'', CHR ''B'', CHR ''C'', CHR ''S'', CHR ''I'', CHR ''F'', CHR ''D'', CHR ''J''}"
    using assms(4,6) by (auto simp: shorty_char_def)
  then show ?thesis
    using assms(1-3,5) GetZ_tidy [of v]
    by (elim insertE emptyE; simp add: object_arg_def jvalue_arg_def GetType_def getters box_words_def wide_def narrow_word
        join_wide GetI_def GetB_def GetC_def GetS_def GetJ_def tidy_def)
qed

lemma object_arg_boxed:
  assumes "boxing_law H" "shorty_char c" "tidy c v" "c \<noteq> CHR ''L''" "BoxPrimitive H (GetType c) v \<noteq> 0"
  shows "object_arg H c cls (BoxPrimitive H (GetType c) v) = Inr (jvalue_arg c v)"
proof -
  have p: "boxable (GetType c)" using assms(2,4) by (auto simp: GetType_def shorty_char_def)
  show ?thesis
    using BoxPrimitive_boxed [OF assms(1) p assms(5)] assms by (intro object_arg_of_box)
qed

definition typed_arg :: "heap \<Rightarrow> char \<Rightarrow> string \<Rightarrow> jvalue \<Rightarrow> bool" where
  "typed_arg H c cls v \<longleftrightarrow> shorty_char c \<and> tidy c v \<and> (c = CHR ''L'' \<longrightarrow> GetL v = 0 \<or> h_instance H (GetL v) cls)"

lemma boxed_args_build:
  assumes "boxing_law H" "box_args H cs vs = Some os" "length vs = length cs" "length clss = length cs"
    and "list_all2 (\<lambda>(c, cls) v. typed_arg H c cls v) (zip cs clss) vs"
  shows "object_args H cs clss os = Inr (concat (map2 jvalue_arg cs vs)) \<and> length os = length cs"
  using assms(2-)
proof (induction cs arbitrary: vs clss os)
  case Nil
  then show ?case by simp
next
  case (Cons c cs)
  obtain v vs' cls clss' where l: "vs = v # vs'" "clss = cls # clss'" using Cons.prems(2,3) by (cases vs; cases clss) auto
  have t: "typed_arg H c cls v" and ts: "list_all2 (\<lambda>(c, cls) v. typed_arg H c cls v) (zip cs clss') vs'"
    using Cons.prems(4) l by simp_all
  have "object_arg H c cls (hd os) = Inr (jvalue_arg c v) \<and> (\<exists>os'. os = hd os # os' \<and> box_args H cs vs' = Some os')"
  proof (cases "c = CHR ''L''")
    case True
    with Cons.prems(1) l t show ?thesis
      by (auto simp: typed_arg_def object_arg_def jvalue_arg_def)
  next
    case False
    with Cons.prems(1) l t object_arg_boxed [OF assms(1)] show ?thesis
      by (auto simp: typed_arg_def Let_def split: if_splits)
  qed
  then obtain os' where o: "object_arg H c cls (hd os) = Inr (jvalue_arg c v)" "os = hd os # os'" "box_args H cs vs' = Some os'"
    by blast
  from Cons.IH [OF o(3)] l ts Cons.prems(2,3)
  have "object_args H cs clss' os' = Inr (concat (map2 jvalue_arg cs vs')) \<and> length os' = length cs" by simp
  with l o(1) show ?case by (subst o(2), subst (2) o(2)) simp
qed

section \<open>Results survive boxing\<close>

definition canonical :: "Prim \<Rightarrow> jvalue \<Rightarrow> jvalue" where
  "canonical p v =
     (case p of
        kPrimNot \<Rightarrow> SetL (GetL v) 0
      | kPrimBoolean \<Rightarrow> SetZ (if GetI v = 0 then 0 else 1) 0
      | kPrimByte \<Rightarrow> SetB (GetB v) 0
      | kPrimChar \<Rightarrow> SetC (GetC v) 0
      | kPrimShort \<Rightarrow> SetS (GetS v) 0
      | kPrimInt \<Rightarrow> SetI (GetI v) 0
      | kPrimFloat \<Rightarrow> SetF (GetF v) 0
      | kPrimLong \<Rightarrow> v
      | kPrimDouble \<Rightarrow> v
      | kPrimVoid \<Rightarrow> 0)"

lemma boxed_value_of_box:
  assumes "h_class H obj = box_class p" "h_field H obj = payload p (box_words p v)" "boxable p"
  shows "boxed_value H obj = Some (p, canonical p v)"
  using assms
  by (cases p) (simp_all add: boxed_value_def canonical_def getters box_words_def wide_def narrow_word join_wide
      GetI_def GetB_def GetC_def GetS_def GetJ_def GetF_def SetJ_def SetD_def)

lemma unbox_box:
  assumes "boxing_law H" "boxable p" "BoxPrimitive H p v \<noteq> 0"
  shows "UnboxPrimitiveForResult H (BoxPrimitive H p v) (Primitive_type p) = Inr (canonical p v)"
  using assms boxed_value_of_box [OF BoxPrimitive_boxed [OF assms]]
  by (auto simp: UnboxPrimitiveForResult_def UnboxPrimitive_def ConvertPrimitiveValue_def SetJ_def GetJ_def)

text \<open>The part of a \<open>JValue\<close> that is read for a type.\<close>

definition same_value :: "Prim \<Rightarrow> jvalue \<Rightarrow> jvalue \<Rightarrow> bool" where
  "same_value p v w \<longleftrightarrow>
     (case p of
        kPrimNot \<Rightarrow> GetL v = GetL w
      | kPrimBoolean \<Rightarrow> GetZ v = GetZ w
      | kPrimByte \<Rightarrow> GetB v = GetB w
      | kPrimChar \<Rightarrow> GetC v = GetC w
      | kPrimShort \<Rightarrow> GetS v = GetS w
      | kPrimInt \<Rightarrow> GetI v = GetI w
      | kPrimFloat \<Rightarrow> GetF v = GetF w
      | kPrimLong \<Rightarrow> v = w
      | kPrimDouble \<Rightarrow> v = w
      | kPrimVoid \<Rightarrow> True)"

lemma ucast_set_low:
  "(ucast (set_low 32 (ucast (w :: u32)) j) :: u32) = w"
  "(ucast (set_low 16 (ucast (c :: u16)) j) :: u16) = c"
  "(ucast (set_low 8 (ucast (b :: byte)) j) :: byte) = b"
  "(ucast (set_low 32 (ucast (scast (c :: u16) :: u32)) j) :: u16) = c"
  "(ucast (set_low 32 (ucast (scast (b :: byte) :: u32)) j) :: byte) = b"
  by (rule bit_eqI; auto simp: set_low_def bit_simps)+

lemma canonical_same_value:
  assumes "p = kPrimBoolean \<Longrightarrow> GetI v = 0 \<or> GetI v = 1"
  shows "same_value p (canonical p v) v"
  using assms GetZ_tidy [of v]
  by (cases p) (simp_all add: same_value_def canonical_def GetL_def GetZ_def GetB_def GetC_def GetS_def GetI_def GetF_def
      SetL_def SetZ_def SetB_def SetC_def SetS_def SetI_def SetF_def ucast_set_low)

section \<open>Bounds of the argument array\<close>

abbreviation wide_char :: "char \<Rightarrow> bool" where
  "wide_char c \<equiv> c = CHR ''J'' \<or> c = CHR ''D''"

definition words_needed :: "string \<Rightarrow> nat" where
  "words_needed cs = length cs + length (filter wide_char cs)"

lemma words_needed_simps [simp]:
  "words_needed [] = 0" "words_needed (c # cs) = (if wide_char c then 2 else 1) + words_needed cs"
  by (simp_all add: words_needed_def)

lemma jvalue_words: "length (concat (map2 jvalue_arg cs args)) \<le> words_needed cs"
proof (induction cs arbitrary: args)
  case (Cons c cs)
  have "length (jvalue_arg c v) \<le> (if wide_char c then 2 else 1)" for v by (simp add: jvalue_arg_def wide_def)
  from this [of "hd args"] Cons [of "tl args"] show ?case by (cases args) (auto split: if_splits)
qed simp

lemma object_words: "object_args H cs clss args = Inr ws \<Longrightarrow> length ws \<le> words_needed cs"
proof (induction H cs clss args arbitrary: ws rule: object_args.induct)
  case (1 H c cs cls clss arg args)
  have "length vs \<le> (if wide_char c then 2 else 1)" if "object_arg H c cls arg = Inr vs" for vs
    using that by (auto simp: object_arg_def wide_def Let_def split: if_splits)
  moreover obtain vs vs' where "object_arg H c cls arg = Inr vs" "object_args H cs clss args = Inr vs'" "ws = vs @ vs'"
    using "1.prems" by (auto split: sum.splits)
  ultimately show ?case using "1.IH" [of vs vs'] by (auto intro!: add_mono)
qed simp_all

lemma frame_words: "length (frame_args cs vregs) = words_needed cs"
  by (induction cs vregs rule: frame_args.induct) (auto simp: wide_def)

lemma array_is_large_enough: "shorty \<noteq> [] \<Longrightarrow> words_needed (tl shorty) + 1 \<le> arg_array_size shorty"
proof -
  assume "shorty \<noteq> []"
  then have "length shorty = length (tl shorty) + 1" by (cases shorty) auto
  moreover have "length (filter wide_char (tl shorty)) \<le> length (tl shorty)" by (rule length_filter_le)
  ultimately show ?thesis by (auto simp: arg_array_size_def words_needed_def Let_def)
qed

text \<open>
  C22 However an argument array is filled (from values, from the registers of a frame or from objects, with a
  receiver or without), it is never written past its end, although its size is computed before the arguments
  are looked at.
\<close>

theorem argument_array_bounds:
  assumes "shorty \<noteq> []"
  shows "length (BuildArgArrayFromJValues shorty receiver vs) \<le> arg_array_size shorty \<and>
    length (BuildArgArrayFromFrame shorty isStatic vregs) \<le> arg_array_size shorty \<and>
    (case BuildArgArrayFromObjectArray H shorty classes receiver args of
       Inl _ \<Rightarrow> True | Inr ws \<Rightarrow> length ws \<le> arg_array_size shorty)"
proof (intro conjI)
  note bound = array_is_large_enough [OF assms]
  show "length (BuildArgArrayFromJValues shorty receiver vs) \<le> arg_array_size shorty"
    using bound jvalue_words [of "tl shorty" vs] by (simp add: BuildArgArrayFromJValues_def)
  show "length (BuildArgArrayFromFrame shorty isStatic vregs) \<le> arg_array_size shorty"
    using bound by (simp add: BuildArgArrayFromFrame_def frame_words)
  show "case BuildArgArrayFromObjectArray H shorty classes receiver args of
      Inl _ \<Rightarrow> True | Inr ws \<Rightarrow> length ws \<le> arg_array_size shorty"
    using bound object_words [of H "tl shorty" classes args]
    by (cases "object_args H (tl shorty) classes args") (auto simp: BuildArgArrayFromObjectArray_def)
qed

theorem argument_array_bounds_witness:
  "length (BuildArgArrayFromJValues ''VJJJJJJJ'' 5 [1, 1, 1, 1, 1, 1, 1]) \<le> arg_array_size ''VJJJJJJJ'' \<and>
    length (BuildArgArrayFromJValues ''VJJJJJJJ'' 5 [1, 1, 1, 1, 1, 1, 1]) = 15"
  using argument_array_bounds [of "''VJJJJJJJ''" 5 "[1, 1, 1, 1, 1, 1, 1]" True "[]" undefined "[]" "[]"]
  by (simp add: BuildArgArrayFromJValues_def jvalue_arg_def wide_def)

section \<open>Conversions\<close>

text \<open>The widening conversions of the Java language.\<close>

definition widens :: "Prim \<Rightarrow> Prim \<Rightarrow> bool" where
  "widens src dst \<longleftrightarrow>
     src = dst \<or>
     (src, dst) \<in> {(kPrimByte, kPrimShort), (kPrimByte, kPrimInt), (kPrimByte, kPrimLong), (kPrimByte, kPrimFloat), (kPrimByte, kPrimDouble),
       (kPrimShort, kPrimInt), (kPrimShort, kPrimLong), (kPrimShort, kPrimFloat), (kPrimShort, kPrimDouble),
       (kPrimChar, kPrimInt), (kPrimChar, kPrimLong), (kPrimChar, kPrimFloat), (kPrimChar, kPrimDouble),
       (kPrimInt, kPrimLong), (kPrimInt, kPrimFloat), (kPrimInt, kPrimDouble),
       (kPrimLong, kPrimFloat), (kPrimLong, kPrimDouble), (kPrimFloat, kPrimDouble)}"

fun int_value :: "Prim \<Rightarrow> jvalue \<Rightarrow> int option" where
  "int_value kPrimByte v = Some (sint (GetB v))"
| "int_value kPrimShort v = Some (sint (GetS v))"
| "int_value kPrimChar v = Some (uint (GetC v))"
| "int_value kPrimInt v = Some (sint (GetI v))"
| "int_value kPrimLong v = Some (sint (GetJ v))"
| "int_value _ v = None"

lemma sint_ucast_u16: "sint (ucast (c :: u16) :: u32) = uint c"
proof -
  have "uint c < 2 ^ 16" using uint_lt2p [of c] by simp
  moreover have "- (2 ^ 31) \<le> uint c" by (rule order_trans [of _ 0]) simp_all
  ultimately show ?thesis using signed_take_bit_int_eq_self [of 31 "uint c"] by (simp add: sint_uint unsigned_ucast_eq signed_take_bit_int_eq_self take_bit_int_eq_self)
qed

lemma sint_scast:
  "sint (scast (b :: byte) :: u32) = sint b" "sint (scast (c :: u16) :: u32) = sint c" "sint (scast (w :: u32) :: u64) = sint w"
  by (simp_all add: sint_up_scast is_up)

lemma scast_ucast_scast: "(ucast (scast (b :: byte) :: u32) :: u16) = scast b"
  by (rule bit_eqI) (auto simp: bit_simps min_def)

lemma sint_scast_u16: "sint (scast (b :: byte) :: u16) = sint b"
  by (simp add: sint_up_scast is_up)

lemma ucast_SetC: "(ucast (set_low 16 (ucast (c :: u16)) 0) :: u32) = ucast c"
  by (rule bit_eqI) (auto simp: set_low_def bit_simps dest: bit_imp_le_length)

text \<open>
  C23 A value that has been taken out of its box is converted exactly when the Java language has a widening
  conversion for it; an integer keeps its numeric value.  Everything else is refused with the exception for the
  use at hand.
\<close>

theorem conversions_widen:
  assumes "src \<noteq> kPrimNot" "src \<noteq> kPrimVoid" "dst \<noteq> kPrimNot" "dst \<noteq> kPrimVoid"
  shows "case ConvertPrimitiveValue H b src dst (canonical src v) 0 of
      Inl e \<Rightarrow> \<not> widens src dst \<and> e = (if b then ClassCast else IllegalArgument)
    | Inr w \<Rightarrow> widens src dst \<and>
        (int_value dst w \<noteq> None \<and> int_value src v \<noteq> None \<longrightarrow> int_value dst w = int_value src v)"
  using assms
  by (cases src; cases dst)
    (simp_all add: ConvertPrimitiveValue_def widens_def conversion_error_def canonical_def
      GetL_def GetZ_def GetB_def GetC_def GetS_def GetI_def GetF_def GetJ_def
      SetL_def SetZ_def SetB_def SetC_def SetS_def SetI_def SetF_def SetJ_def SetD_def ucast_set_low ucast_SetC
      sint_ucast_u16 sint_scast sint_scast_u16 scast_ucast_scast)

theorem conversions_widen_witness:
  "case ConvertPrimitiveValue undefined True kPrimByte kPrimLong (canonical kPrimByte 255) 0 of
     Inl _ \<Rightarrow> False | Inr w \<Rightarrow> widens kPrimByte kPrimLong \<and> int_value kPrimLong w = Some (- 1)"
  using conversions_widen [where src = kPrimByte and dst = kPrimLong and b = True and v = 255 and H = undefined]
  by (simp add: ConvertPrimitiveValue_def GetB_def)

end
