(* ===== verification/ArtMethod.thy ===== *)
theory ArtMethod
  imports Boxing "HOL-Library.Monad_Syntax"
begin

text \<open>
  Methods of the Android runtime and the hook of a method
  (\<open>src/android_art-xposed-lollipop-mr1/runtime\<close>: \<open>mirror/art_method.h\<close>, \<open>art_method-inl.h\<close>, \<open>art_method.cc\<close>,
  \<open>modifiers.h\<close>, \<open>jni_internal.cc\<close>).

  A hooked method keeps its address; a copy of it, the backup, gets a flag of its own and is what runs when the
  original code is asked for.  All operations that set code of a method must reach the backup instead.  The state
  has the methods, the hook infos, the reflected methods and the stacks of all threads, where a frame is a method
  and the code that runs in it.  A failed \<open>CHECK\<close> aborts the runtime: the result is \<open>None\<close>.  The build is the
  one without the portable compiler.
\<close>

unbundle bit_operations_syntax

section \<open>Flags\<close>

abbreviation (input) kAccPublic :: u32 where "kAccPublic \<equiv> 0x1"
abbreviation (input) kAccPrivate :: u32 where "kAccPrivate \<equiv> 0x2"
abbreviation (input) kAccProtected :: u32 where "kAccProtected \<equiv> 0x4"
abbreviation (input) kAccStatic :: u32 where "kAccStatic \<equiv> 0x8"
abbreviation (input) kAccNative :: u32 where "kAccNative \<equiv> 0x100"
abbreviation (input) kAccAbstract :: u32 where "kAccAbstract \<equiv> 0x400"
abbreviation (input) kAccConstructor :: u32 where "kAccConstructor \<equiv> 0x10000"
abbreviation (input) kAccFastNative :: u32 where "kAccFastNative \<equiv> 0x80000"
abbreviation (input) kAccMiranda :: u32 where "kAccMiranda \<equiv> 0x200000"
abbreviation (input) kAccXposedHookedMethod :: u32 where "kAccXposedHookedMethod \<equiv> 0x10000000"
abbreviation (input) kAccXposedOriginalMethod :: u32 where "kAccXposedOriginalMethod \<equiv> 0x20000000"

section \<open>State\<close>

datatype quick_entry =
    No_code
  | Oat_code u32
  | Proxy_invoke_handler
  | To_interpreter_bridge
  | To_interpreter_trampoline
  | Resolution_trampoline
  | Generic_jni_trampoline
  | Instrumentation_entry_point

datatype interpreter_entry = Interpreter_to_interpreter | Interpreter_to_compiled

record art_method =
  declaring_class :: nat
  access_flags :: u32
  code_item_offset :: u32
  dex_method_index :: u32
  method_index :: u32
  entry_interpreter :: interpreter_entry
  entry_jni :: u32
  entry_quick :: quick_entry

record hook_info =
  reflectedMethod :: oref
  additionalInfo :: oref
  originalMethod :: oref

text \<open>An object of \<open>java.lang.reflect.Method\<close> or \<open>Constructor\<close>.\<close>

record reflected =
  is_constructor :: bool
  artMethod :: oref

record instrumentation =
  stubs_installed :: bool
  entry_exit_stubs :: bool
  interpreter_stubs :: bool
  interpret_only :: bool
  forced_interpret_only :: bool
  deoptimization_enabled :: bool
  deoptimized_methods :: "oref list"

type_synonym frame = "oref \<times> quick_entry"

record art =
  a_method :: "oref \<Rightarrow> art_method"
  a_methods :: "oref set"
  a_info :: "u32 \<Rightarrow> hook_info"
  a_infos :: "u32 set"
  a_reflected :: "oref \<Rightarrow> reflected"
  a_objects :: "oref set"
  a_stacks :: "frame list list"
  a_inst :: instrumentation

text \<open>
  What does not change: the linked classes, the prototypes of methods (by class and method index of the dex
  file), compiled code in oat files, and addresses of the runtime.
\<close>

record class_info =
  k_interface :: bool
  k_proxy :: bool
  k_initialized :: bool
  k_descriptor :: string
  k_vtable :: "oref list"
  k_iftable :: "(nat \<times> oref list) list"
  k_direct :: "oref list"
  k_virtual :: "oref list"
  k_oat :: "quick_entry list option"

record art_runtime =
  rt_classes :: "nat list"
  rt_class :: "nat \<Rightarrow> class_info"
  rt_shorty :: "nat \<Rightarrow> u32 \<Rightarrow> string"
  rt_params :: "nat \<Rightarrow> u32 \<Rightarrow> string list"
  rt_return :: "nat \<Rightarrow> u32 \<Rightarrow> jtype"
  rt_find :: "nat \<Rightarrow> string \<Rightarrow> string \<Rightarrow> oref option"
  rt_resolution_method :: oref
  rt_dlsym_stub :: u32
  rt_oat_available :: bool

definition set_method :: "oref \<Rightarrow> (art_method \<Rightarrow> art_method) \<Rightarrow> art \<Rightarrow> art" where
  "set_method m f s = s\<lparr>a_method := (a_method s)(m := f (a_method s m))\<rparr>"

section \<open>Predicates\<close>

definition has_flag :: "u32 \<Rightarrow> art_method \<Rightarrow> bool" where
  "has_flag f M \<longleftrightarrow> access_flags M AND f \<noteq> 0"

definition IsStatic :: "art_method \<Rightarrow> bool" where "IsStatic M = has_flag kAccStatic M"
definition IsConstructor :: "art_method \<Rightarrow> bool" where "IsConstructor M = has_flag kAccConstructor M"
definition IsMiranda :: "art_method \<Rightarrow> bool" where "IsMiranda M = has_flag kAccMiranda M"
definition IsNative :: "art_method \<Rightarrow> bool" where "IsNative M = has_flag kAccNative M"
definition IsAbstract :: "art_method \<Rightarrow> bool" where "IsAbstract M = has_flag kAccAbstract M"

definition IsFastNative :: "art_method \<Rightarrow> bool" where
  "IsFastNative M = (let mask' = kAccFastNative OR kAccNative in access_flags M AND mask' = mask')"

definition IsDirect :: "bool \<Rightarrow> art_method \<Rightarrow> bool" where
  "IsDirect ignore_xposed M =
     (let mask' = kAccStatic OR kAccPrivate OR kAccConstructor;
          mask' = (if ignore_xposed then mask' else mask' OR kAccXposedOriginalMethod)
      in access_flags M AND mask' \<noteq> 0)"

definition IsXposedHookedMethod :: "art_method \<Rightarrow> bool" where
  "IsXposedHookedMethod M = has_flag kAccXposedHookedMethod M"

definition IsXposedOriginalMethod :: "art_method \<Rightarrow> bool" where
  "IsXposedOriginalMethod M = has_flag kAccXposedOriginalMethod M"

definition IsProxyMethod :: "art_runtime \<Rightarrow> bool \<Rightarrow> art_method \<Rightarrow> bool" where
  "IsProxyMethod R ignore_xposed M \<longleftrightarrow>
     k_proxy (rt_class R (declaring_class M)) \<or> \<not> ignore_xposed \<and> IsXposedHookedMethod M"

definition GetXposedHookInfo :: "art \<Rightarrow> oref \<Rightarrow> hook_info" where
  "GetXposedHookInfo s m = a_info s (entry_jni (a_method s m))"

definition GetXposedOriginalMethod :: "art \<Rightarrow> oref \<Rightarrow> oref" where
  "GetXposedOriginalMethod s m = originalMethod (GetXposedHookInfo s m)"

definition FromReflectedMethod :: "art \<Rightarrow> oref \<Rightarrow> oref" where
  "FromReflectedMethod s jlr_method = artMethod (a_reflected s jlr_method)"

section \<open>The hook\<close>

text \<open>Addresses that the allocation of backup, reflected method and hook info return.\<close>

record fresh =
  n_backup :: oref
  n_reflected :: oref
  n_info :: u32

definition hook_prepare :: "fresh \<Rightarrow> oref \<Rightarrow> oref \<Rightarrow> art \<Rightarrow> art" where
  "hook_prepare N m additional_info s =
     (let M = a_method s m;
          backup = M\<lparr>access_flags := access_flags M OR kAccXposedOriginalMethod\<rparr>;
          info = \<lparr>reflectedMethod = n_reflected N, additionalInfo = additional_info, originalMethod = n_backup N\<rparr>
      in s\<lparr>a_method := (a_method s)(n_backup N := backup, m := M\<lparr>entry_jni := n_info N\<rparr>),
           a_methods := insert (n_backup N) (a_methods s),
           a_info := (a_info s)(n_info N := info),
           a_infos := insert (n_info N) (a_infos s),
           a_reflected := (a_reflected s)(n_reflected N := \<lparr>is_constructor = IsConstructor M, artMethod = n_backup N\<rparr>),
           a_objects := insert (n_reflected N) (a_objects s)\<rparr>)"

definition StackReplaceMethod :: "art \<Rightarrow> oref \<Rightarrow> frame list \<Rightarrow> frame list" where
  "StackReplaceMethod s search =
     (let replace = originalMethod (a_info s (entry_jni (a_method s search)))
      in map (\<lambda>(m, c). (if m = search then replace else m, c)))"

definition hook_stacks :: "oref \<Rightarrow> art \<Rightarrow> art" where
  "hook_stacks m s = s\<lparr>a_stacks := map (StackReplaceMethod s m) (a_stacks s)\<rparr>"

definition hook_switch :: "oref \<Rightarrow> art \<Rightarrow> art" where
  "hook_switch m =
     set_method m (\<lambda>M. M\<lparr>entry_quick := Proxy_invoke_handler, entry_interpreter := Interpreter_to_compiled,
       access_flags := (access_flags M AND NOT kAccNative) OR kAccXposedHookedMethod\<rparr>)"

definition EnableXposedHook :: "fresh \<Rightarrow> oref \<Rightarrow> oref \<Rightarrow> art \<Rightarrow> art \<times> exn option" where
  "EnableXposedHook N m additional_info s =
     (if IsXposedHookedMethod (a_method s m) then (s, None)
      else if IsXposedOriginalMethod (a_method s m) then (s, Some IllegalArgument)
      else (hook_switch m (hook_stacks m (hook_prepare N m additional_info s)), None))"

section \<open>Native code\<close>

partial_function (option) RegisterNative :: "oref \<Rightarrow> u32 \<Rightarrow> bool \<Rightarrow> art \<Rightarrow> art option" where
  "RegisterNative m native_method is_fast s =
     (let M = a_method s m
      in if IsXposedHookedMethod M then RegisterNative (GetXposedOriginalMethod s m) native_method is_fast s
         else if \<not> IsNative M \<or> IsFastNative M \<or> native_method = 0 then None
         else Some (set_method m (\<lambda>M. M\<lparr>access_flags := (if is_fast then access_flags M OR kAccFastNative else access_flags M),
                entry_jni := native_method\<rparr>) s))"

partial_function (option) UnregisterNative :: "art_runtime \<Rightarrow> oref \<Rightarrow> art \<Rightarrow> art option" where
  "UnregisterNative R m s =
     (let M = a_method s m
      in if IsXposedHookedMethod M then UnregisterNative R (GetXposedOriginalMethod s m) s
         else if \<not> IsNative M \<or> IsFastNative M then None
         else RegisterNative m (rt_dlsym_stub R) False s)"

datatype jni_status = JNI_OK | JNI_ERR

text \<open>An entry of the table of native methods; \<open>None\<close> is a null pointer.\<close>

type_synonym native_entry = "string option \<times> string option \<times> u32"

definition is_native_method :: "art \<Rightarrow> oref \<Rightarrow> bool" where
  "is_native_method s m \<longleftrightarrow>
     IsNative (a_method s m) \<or>
     IsXposedHookedMethod (a_method s m) \<and> IsNative (a_method s (GetXposedOriginalMethod s m))"

fun RegisterNatives :: "art_runtime \<Rightarrow> nat \<Rightarrow> native_entry list \<Rightarrow> art \<Rightarrow> (art \<times> jni_status) option" where
  "RegisterNatives R c [] s = Some (s, JNI_OK)"
| "RegisterNatives R c ((Some name, Some sig, fnPtr) # es) s =
     (let is_fast = (take 1 sig = ''!''); sig = (if is_fast then tl sig else sig)
      in if fnPtr = 0 then Some (s, JNI_ERR)
         else case rt_find R c name sig of
                None \<Rightarrow> Some (s, JNI_ERR)
              | Some m \<Rightarrow>
                  if \<not> is_native_method s m then Some (s, JNI_ERR)
                  else do { s' \<leftarrow> RegisterNative m fnPtr is_fast s; RegisterNatives R c es s' })"
| "RegisterNatives R c (_ # es) s = Some (s, JNI_ERR)"

fun unregister_all :: "art_runtime \<Rightarrow> oref list \<Rightarrow> art \<Rightarrow> art option" where
  "unregister_all R [] s = Some s"
| "unregister_all R (m # ms) s =
     (if is_native_method s m then do { s' \<leftarrow> UnregisterNative R m s; unregister_all R ms s' } else unregister_all R ms s)"

definition UnregisterNatives :: "art_runtime \<Rightarrow> nat \<Rightarrow> art \<Rightarrow> (art \<times> jni_status) option" where
  "UnregisterNatives R c s =
     map_option (\<lambda>s. (s, JNI_OK))
       (unregister_all R (k_direct (rt_class R c)) s \<bind> unregister_all R (k_virtual (rt_class R c)))"

section \<open>Bits\<close>

named_theorems flag_bits

lemma has_flag_bits [flag_bits]:
  "has_flag kAccStatic M \<longleftrightarrow> bit (access_flags M) 3"
  "has_flag kAccNative M \<longleftrightarrow> bit (access_flags M) 8"
  "has_flag kAccAbstract M \<longleftrightarrow> bit (access_flags M) 10"
  "has_flag kAccConstructor M \<longleftrightarrow> bit (access_flags M) 16"
  "has_flag kAccMiranda M \<longleftrightarrow> bit (access_flags M) 21"
  "has_flag kAccXposedHookedMethod M \<longleftrightarrow> bit (access_flags M) 28"
  "has_flag kAccXposedOriginalMethod M \<longleftrightarrow> bit (access_flags M) 29"
  using and_exp_eq_0_iff_not_bit [of "access_flags M" 3] and_exp_eq_0_iff_not_bit [of "access_flags M" 8]
    and_exp_eq_0_iff_not_bit [of "access_flags M" 10] and_exp_eq_0_iff_not_bit [of "access_flags M" 16]
    and_exp_eq_0_iff_not_bit [of "access_flags M" 21] and_exp_eq_0_iff_not_bit [of "access_flags M" 28]
    and_exp_eq_0_iff_not_bit [of "access_flags M" 29]
  by (simp_all add: has_flag_def)

lemmas predicates [flag_bits] =
  IsStatic_def IsNative_def IsAbstract_def IsConstructor_def IsMiranda_def IsXposedHookedMethod_def IsXposedOriginalMethod_def

lemma bit_flag_constant:
  "bit kAccNative n \<longleftrightarrow> n = 8" "bit kAccFastNative n \<longleftrightarrow> n = 19"
  "bit kAccXposedHookedMethod n \<longleftrightarrow> n = 28" "bit kAccXposedOriginalMethod n \<longleftrightarrow> n = 29"
proof -
  have p: "kAccNative = 2 ^ 8" "kAccFastNative = 2 ^ 19" "kAccXposedHookedMethod = 2 ^ 28" "kAccXposedOriginalMethod = 2 ^ 29"
    by simp_all
  show "bit kAccNative n \<longleftrightarrow> n = 8" "bit kAccFastNative n \<longleftrightarrow> n = 19"
    "bit kAccXposedHookedMethod n \<longleftrightarrow> n = 28" "bit kAccXposedOriginalMethod n \<longleftrightarrow> n = 29"
    unfolding p bit_exp_iff possible_bit_word by auto
qed

lemma bit_of_flags [flag_bits]:
  "bit (f OR kAccXposedOriginalMethod) n \<longleftrightarrow> bit f n \<or> n = 29"
  "bit (f OR kAccFastNative) n \<longleftrightarrow> bit f n \<or> n = 19"
  "bit ((f AND NOT kAccNative) OR kAccXposedHookedMethod) n \<longleftrightarrow> bit f n \<and> n \<noteq> 8 \<or> n = 28"
  "bit (f AND NOT kAccXposedOriginalMethod) n \<longleftrightarrow> bit f n \<and> n \<noteq> 29"
  for f :: u32
  unfolding bit_or_iff bit_and_iff bit_not_iff bit_flag_constant possible_bit_word
  using bit_imp_le_length [of f n] by blast+

lemma bit_of_cleared [flag_bits]:
  "bit ((f AND - 257) OR kAccXposedHookedMethod) n \<longleftrightarrow> bit f n \<and> n \<noteq> 8 \<or> n = 28"
  "bit (f AND - 536870913) n \<longleftrightarrow> bit f n \<and> n \<noteq> 29"
  for f :: u32
  using bit_of_flags(3,4) [of f n] by simp_all

lemma original_flag_twice:
  "\<not> bit f 29 \<Longrightarrow> (f OR kAccXposedOriginalMethod) AND NOT kAccXposedOriginalMethod = f"
  "bit f 29 \<Longrightarrow> (f AND NOT kAccXposedOriginalMethod) OR kAccXposedOriginalMethod = f"
  "\<not> bit f 29 \<Longrightarrow> f AND NOT kAccXposedOriginalMethod = f"
  for f :: u32
  by (rule bit_eqI; unfold bit_of_flags; blast)+

section \<open>Well-formed states\<close>

definition same_dex :: "art_method \<Rightarrow> art_method \<Rightarrow> bool" where
  "same_dex M M' \<longleftrightarrow>
     declaring_class M' = declaring_class M \<and> code_item_offset M' = code_item_offset M \<and>
     dex_method_index M' = dex_method_index M \<and> method_index M' = method_index M"

text \<open>Only the flag for fast native methods may differ.\<close>

definition same_kind :: "art_method \<Rightarrow> art_method \<Rightarrow> bool" where
  "same_kind M M' \<longleftrightarrow> (\<forall>n. n \<noteq> 19 \<longrightarrow> bit (access_flags M') n = bit (access_flags M) n)"

lemma same_kindD:
  assumes "same_kind M M'"
  shows "IsStatic M' = IsStatic M" "IsNative M' = IsNative M" "IsConstructor M' = IsConstructor M" "IsMiranda M' = IsMiranda M"
    "IsAbstract M' = IsAbstract M" "IsXposedHookedMethod M' = IsXposedHookedMethod M"
    "IsXposedOriginalMethod M' = IsXposedOriginalMethod M"
  using assms by (simp_all add: same_kind_def flag_bits)

lemma same_refl [simp]: "same_dex M M" "same_kind M M"
  by (simp_all add: same_dex_def same_kind_def)

definition hooked :: "art \<Rightarrow> oref \<Rightarrow> bool" where
  "hooked s m \<longleftrightarrow> IsXposedHookedMethod (a_method s m)"

definition original :: "art \<Rightarrow> oref \<Rightarrow> bool" where
  "original s m \<longleftrightarrow> IsXposedOriginalMethod (a_method s m)"

definition backup :: "art_method \<Rightarrow> art_method" where
  "backup M = M\<lparr>access_flags := access_flags M OR kAccXposedOriginalMethod\<rparr>"

definition unbackup :: "art_method \<Rightarrow> art_method" where
  "unbackup M = M\<lparr>access_flags := access_flags M AND NOT kAccXposedOriginalMethod\<rparr>"

text \<open>A hooked method: its entry points lead to the handler, its hook info to a backup that is the method it was.\<close>

definition hooked_ok :: "art \<Rightarrow> oref \<Rightarrow> bool" where
  "hooked_ok s m \<longleftrightarrow>
     (let M = a_method s m; b = GetXposedOriginalMethod s m; B = a_method s b; r = reflectedMethod (GetXposedHookInfo s m)
      in \<not> IsXposedOriginalMethod M \<and> \<not> IsNative M \<and> entry_quick M = Proxy_invoke_handler \<and>
         entry_interpreter M = Interpreter_to_compiled \<and> entry_jni M \<in> a_infos s \<and>
         b \<in> a_methods s \<and> IsXposedOriginalMethod B \<and> \<not> IsXposedHookedMethod B \<and>
         same_dex M B \<and> IsStatic B = IsStatic M \<and> IsConstructor B = IsConstructor M \<and>
         r \<in> a_objects s \<and> a_reflected s r = \<lparr>is_constructor = IsConstructor M, artMethod = b\<rparr>)"

definition frame_ok :: "art \<Rightarrow> frame \<Rightarrow> bool" where
  "frame_ok s f \<longleftrightarrow> fst f \<in> a_methods s \<and> (hooked s (fst f) \<longrightarrow> snd f = Proxy_invoke_handler)"

definition hook_wf :: "art \<Rightarrow> bool" where
  "hook_wf s \<longleftrightarrow>
     (\<forall>m \<in> a_methods s. hooked s m \<longrightarrow> hooked_ok s m) \<and>
     inj_on (GetXposedOriginalMethod s) {m \<in> a_methods s. hooked s m} \<and>
     (\<forall>st \<in> set (a_stacks s). \<forall>f \<in> set st. frame_ok s f)"

text \<open>The method as its code would see it if it had never been hooked.\<close>

definition view :: "art \<Rightarrow> oref \<Rightarrow> art_method" where
  "view s m = (if hooked s m then unbackup (a_method s (GetXposedOriginalMethod s m)) else a_method s m)"

lemma hook_wfD:
  assumes "hook_wf s" "m \<in> a_methods s" "hooked s m"
  shows "\<not> original s m" "GetXposedOriginalMethod s m \<in> a_methods s" "original s (GetXposedOriginalMethod s m)"
    "\<not> hooked s (GetXposedOriginalMethod s m)"
  using assms by (auto simp: hook_wf_def hooked_ok_def hooked_def original_def Let_def)

lemma hook_wf_inj:
  "hook_wf s \<Longrightarrow> m \<in> a_methods s \<Longrightarrow> m' \<in> a_methods s \<Longrightarrow> hooked s m \<Longrightarrow> hooked s m' \<Longrightarrow>
    GetXposedOriginalMethod s m = GetXposedOriginalMethod s m' \<Longrightarrow> m = m'"
  by (auto simp: hook_wf_def inj_on_def)

lemma set_method_sel [simp]:
  "a_method (set_method m f s) x = (if x = m then f (a_method s m) else a_method s x)"
  "a_methods (set_method m f s) = a_methods s" "a_info (set_method m f s) = a_info s" "a_infos (set_method m f s) = a_infos s"
  "a_reflected (set_method m f s) = a_reflected s" "a_objects (set_method m f s) = a_objects s"
  "a_stacks (set_method m f s) = a_stacks s" "a_inst (set_method m f s) = a_inst s"
  by (simp_all add: set_method_def)

lemma unbackup_backup [simp]: "\<not> IsXposedOriginalMethod M \<Longrightarrow> unbackup (backup M) = M"
  by (simp add: unbackup_def backup_def predicates has_flag_bits original_flag_twice(1) [simplified])

lemma backup_unbackup [simp]: "IsXposedOriginalMethod M \<Longrightarrow> backup (unbackup M) = M"
  by (simp add: unbackup_def backup_def predicates has_flag_bits original_flag_twice(2) [simplified])

lemma unbackup_id [simp]: "\<not> IsXposedOriginalMethod M \<Longrightarrow> unbackup M = M"
  by (simp add: unbackup_def predicates has_flag_bits original_flag_twice(3) [simplified])

lemma unbackup_plain [simp]: "\<not> IsXposedOriginalMethod (unbackup M)"
  by (simp add: unbackup_def flag_bits)

text \<open>Changing code and fast flag of a method that is not hooked itself.\<close>

lemma set_plain:
  assumes "\<not> hooked s x" "same_dex (a_method s x) M'" "same_kind (a_method s x) M'"
  shows "hooked (set_method x (\<lambda>_. M') s) = hooked s" "original (set_method x (\<lambda>_. M') s) = original s"
    "hooked s m \<Longrightarrow> GetXposedHookInfo (set_method x (\<lambda>_. M') s) m = GetXposedHookInfo s m"
    "hooked s m \<Longrightarrow> GetXposedOriginalMethod (set_method x (\<lambda>_. M') s) m = GetXposedOriginalMethod s m"
  using assms same_kindD [OF assms(3)]
  by (auto simp: hooked_def original_def GetXposedHookInfo_def GetXposedOriginalMethod_def fun_eq_iff)

lemma set_plain_hooked_ok:
  assumes "\<not> hooked s x" "same_dex (a_method s x) M'" "same_kind (a_method s x) M'" "hooked s m" "hooked_ok s m"
  shows "hooked_ok (set_method x (\<lambda>_. M') s) m"
proof -
  have "m \<noteq> x" using assms by auto
  then show ?thesis
    using assms(2,5) same_kindD [OF assms(3)]
    by (auto simp: hooked_ok_def Let_def set_plain(3,4) [OF assms(1-4)] same_dex_def)
qed

lemma set_plain_wf:
  assumes "hook_wf s" "\<not> hooked s x" "same_dex (a_method s x) M'" "same_kind (a_method s x) M'"
  shows "hook_wf (set_method x (\<lambda>_. M') s)"
proof -
  note keep = set_plain [OF assms(2-4)]
  have "inj_on (GetXposedOriginalMethod (set_method x (\<lambda>_. M') s)) {m \<in> a_methods s. hooked s m}"
    using assms(1) keep(4) by (auto simp: hook_wf_def inj_on_def)
  then show ?thesis
    using assms(1) set_plain_hooked_ok [OF assms(2-4)] by (auto simp: hook_wf_def frame_ok_def keep(1))
qed

text \<open>Two states that differ in what is hooked only.\<close>

definition same_view :: "art \<Rightarrow> art \<Rightarrow> bool" where
  "same_view s s' \<longleftrightarrow>
     hook_wf s \<and> hook_wf s' \<and> a_methods s \<subseteq> a_methods s' \<and>
     (\<forall>x \<in> a_methods s. original s' x = original s x \<and> (\<not> original s x \<longrightarrow> view s' x = view s x))"

text \<open>Hooks stay in place, and methods do not go away.\<close>

definition evolves :: "art \<Rightarrow> art \<Rightarrow> bool" where
  "evolves s s' \<longleftrightarrow>
     (hook_wf s \<longrightarrow> hook_wf s' \<and> a_methods s \<subseteq> a_methods s' \<and>
       (\<forall>x \<in> a_methods s. original s' x = original s x \<and>
          (hooked s x \<longrightarrow> hooked s' x \<and> GetXposedOriginalMethod s' x = GetXposedOriginalMethod s x)))"

lemma evolves_refl [simp]: "evolves s s"
  by (simp add: evolves_def)

lemma evolves_trans [trans]: "evolves s s' \<Longrightarrow> evolves s' s'' \<Longrightarrow> evolves s s''"
  by (auto simp: evolves_def subset_iff)

lemma set_plain_evolves:
  assumes "\<not> hooked s x" "same_dex (a_method s x) M'" "same_kind (a_method s x) M'"
  shows "evolves s (set_method x (\<lambda>_. M') s)"
  using set_plain_wf [OF _ assms] set_plain [OF assms] by (auto simp: evolves_def)

section \<open>Operations that reach through a hook\<close>

text \<open>
  The interface of the operations that set code of a method: on a method that is not hooked the operation is
  a function of the method, on a hooked one it is the operation on the backup.
\<close>

locale through_hook =
  fixes op :: "art \<Rightarrow> oref \<Rightarrow> art option"
    and spec :: "art \<Rightarrow> oref \<Rightarrow> art_method \<Rightarrow> art_method option"
  assumes plain: "\<not> hooked s m \<Longrightarrow> op s m = map_option (\<lambda>M'. set_method m (\<lambda>_. M') s) (spec s m (a_method s m))"
    and redirect: "hooked s m \<Longrightarrow> \<not> hooked s (GetXposedOriginalMethod s m) \<Longrightarrow> op s m = op s (GetXposedOriginalMethod s m)"
    and keeps: "spec s m M = Some M' \<Longrightarrow> same_dex M M' \<and> same_kind M M'"
begin

lemma op_target:
  assumes "hook_wf s" "m \<in> a_methods s" "op s m = Some s'"
  obtains x M' where "x = (if hooked s m then GetXposedOriginalMethod s m else m)" "\<not> hooked s x"
    "spec s x (a_method s x) = Some M'" "s' = set_method x (\<lambda>_. M') s"
proof -
  let ?x = "if hooked s m then GetXposedOriginalMethod s m else m"
  have x: "\<not> hooked s ?x" using hook_wfD(4) [OF assms(1,2)] by auto
  moreover have "op s m = op s ?x" using x redirect by auto
  ultimately have "map_option (\<lambda>M'. set_method ?x (\<lambda>_. M') s) (spec s ?x (a_method s ?x)) = Some s'"
    using plain [OF x] assms(3) by simp
  then show thesis using that [OF refl x] by (auto simp: map_option_eq_Some)
qed

lemma op_wf:
  assumes "hook_wf s" "m \<in> a_methods s" "op s m = Some s'"
  shows "hook_wf s' \<and> a_methods s' = a_methods s \<and> hooked s' = hooked s \<and> original s' = original s"
proof -
  obtain x M' where x: "\<not> hooked s x" "spec s x (a_method s x) = Some M'" "s' = set_method x (\<lambda>_. M') s"
    by (rule op_target [OF assms])
  then show ?thesis
    using keeps [OF x(2)] set_plain_wf [OF assms(1) x(1)] set_plain(1,2) [OF x(1)] by simp
qed

lemma op_evolves:
  assumes "hook_wf s \<Longrightarrow> m \<in> a_methods s" "op s m = Some s'"
  shows "evolves s s'"
proof (cases "hook_wf s")
  case True
  obtain x M' where x: "\<not> hooked s x" "spec s x (a_method s x) = Some M'" "s' = set_method x (\<lambda>_. M') s"
    by (rule op_target [OF True assms(1) [OF True] assms(2)])
  then show ?thesis using keeps [OF x(2)] set_plain_evolves by simp
qed (simp add: evolves_def)

end

text \<open>If the operation does not look at the address and ignores the flag of backups, a hook makes no difference.\<close>

locale blind_op = through_hook +
  assumes uniform: "spec s m M = spec s' m' M"
    and flagless: "\<not> IsXposedOriginalMethod M \<Longrightarrow> spec s m (backup M) = map_option backup (spec s m M)"
begin

lemma op_view:
  assumes "hook_wf s" "m \<in> a_methods s" "\<not> original s m"
  shows "case spec s m (view s m) of
      None \<Rightarrow> op s m = None
    | Some V \<Rightarrow> \<exists>s'. op s m = Some s' \<and> view s' m = V \<and> (\<forall>y \<in> a_methods s. \<not> original s y \<and> y \<noteq> m \<longrightarrow> view s' y = view s y)"
proof (cases "hooked s m")
  case False
  note pl = plain [OF False]
  show ?thesis
  proof (cases "spec s m (a_method s m)")
    case None
    then show ?thesis using pl False by (simp add: view_def)
  next
    case (Some V)
    note k = keeps [OF Some] set_plain [OF False, of V]
    have "view (set_method m (\<lambda>_. V) s) y = view s y" if "y \<in> a_methods s" "y \<noteq> m" for y
      using that k hook_wfD(3) [OF assms(1) that(1)] assms(3) by (auto simp: view_def)
    then show ?thesis using Some pl False k by (auto simp: view_def)
  qed
next
  case True
  let ?b = "GetXposedOriginalMethod s m"
  note b = hook_wfD [OF assms(1,2) True]
  have f: "spec s ?b (a_method s ?b) = map_option backup (spec s m (view s m))"
    using flagless [of "view s m" s ?b] uniform [of s ?b _ s m] b(3) True by (simp add: view_def original_def)
  have o: "op s m = map_option (\<lambda>V. set_method ?b (\<lambda>_. backup V) s) (spec s m (view s m))"
    using redirect [OF True b(4)] plain [OF b(4)] f by (simp add: option.map_comp comp_def)
  show ?thesis
  proof (cases "spec s m (view s m)")
    case None
    then show ?thesis using o by simp
  next
    case (Some V)
    then have "spec s ?b (a_method s ?b) = Some (backup V)" using f by simp
    note k = keeps [OF this] set_plain [OF b(4), of "backup V"]
    have nv: "\<not> IsXposedOriginalMethod V"
      using same_kindD(7) [of "view s m" V] keeps [OF Some] True by (simp add: view_def)
    have "view (set_method ?b (\<lambda>_. backup V) s) y = view s y" if y: "y \<in> a_methods s" "\<not> original s y" "y \<noteq> m" for y
      using y k hook_wf_inj [OF assms(1) y(1) assms(2) _ True] b(3) by (auto simp: view_def)
    then show ?thesis using Some o True k nv by (auto simp: view_def)
  qed
qed

lemma op_same_view:
  assumes "same_view s s'" "m \<in> a_methods s" "\<not> original s m"
  shows "rel_option same_view (op s m) (op s' m)"
proof -
  have w: "hook_wf s" "hook_wf s'" "m \<in> a_methods s'" "\<not> original s' m" "view s' m = view s m"
    using assms by (auto simp: same_view_def)
  note v = op_view [OF w(1) assms(2,3)] op_view [OF w(2,3,4)]
  show ?thesis
  proof (cases "spec s m (view s m)")
    case None
    then show ?thesis using v w(5) uniform [of s m _ s' m] by auto
  next
    case (Some V)
    obtain t t' where t: "op s m = Some t" "view t m = V" "\<forall>y \<in> a_methods s. \<not> original s y \<and> y \<noteq> m \<longrightarrow> view t y = view s y"
      and t': "op s' m = Some t'" "view t' m = V" "\<forall>y \<in> a_methods s'. \<not> original s' y \<and> y \<noteq> m \<longrightarrow> view t' y = view s' y"
      using v Some w(5) uniform [of s m _ s' m] by auto
    have "view t' x = view t x" if "x \<in> a_methods s" "\<not> original s x" for x
      using that assms(1) t(2,3) t'(2,3) by (cases "x = m") (auto simp: same_view_def subset_iff)
    then have "same_view t t'"
      using assms(1) op_wf [OF w(1) assms(2) t(1)] op_wf [OF w(2,3) t'(1)] by (auto simp: same_view_def)
    then show ?thesis using t t' by simp
  qed
qed

end

section \<open>Registering native code\<close>

lemma IsFastNative_bits [flag_bits]: "IsFastNative M \<longleftrightarrow> bit (access_flags M) 8 \<and> bit (access_flags M) 19"
proof -
  define K where "K = kAccFastNative OR kAccNative"
  have m: "bit K n \<longleftrightarrow> n = 8 \<or> n = 19" for n
    unfolding K_def bit_or_iff bit_flag_constant by blast
  have e: "IsFastNative M \<longleftrightarrow> access_flags M AND K = K" by (simp only: IsFastNative_def Let_def K_def)
  show ?thesis
  proof
    assume "IsFastNative M"
    then have "bit (access_flags M AND K) n = bit K n" for n using e by simp
    from this [of 8] this [of 19] show "bit (access_flags M) 8 \<and> bit (access_flags M) 19" by (simp add: bit_and_iff m)
  next
    assume "bit (access_flags M) 8 \<and> bit (access_flags M) 19"
    then have "access_flags M AND K = K" by (intro bit_eqI) (auto simp: bit_and_iff m)
    then show "IsFastNative M" using e by simp
  qed
qed

definition register_spec :: "u32 \<Rightarrow> bool \<Rightarrow> art_method \<Rightarrow> art_method option" where
  "register_spec native_method is_fast M =
     (if \<not> IsNative M \<or> IsFastNative M \<or> native_method = 0 then None
      else Some (M\<lparr>access_flags := (if is_fast then access_flags M OR kAccFastNative else access_flags M), entry_jni := native_method\<rparr>))"

lemma backup_native [simp]: "IsNative (backup M) = IsNative M" "IsFastNative (backup M) = IsFastNative M"
  by (simp_all add: backup_def flag_bits)

lemma register_spec_backup: "register_spec fn fast (backup M) = map_option backup (register_spec fn fast M)"
  by (simp add: register_spec_def) (simp add: backup_def or.assoc)

interpretation registering: blind_op "\<lambda>s m. RegisterNative m fn fast s" "\<lambda>s m. register_spec fn fast" for fn fast
proof
  show "RegisterNative m fn fast s = map_option (\<lambda>M'. set_method m (\<lambda>_. M') s) (register_spec fn fast (a_method s m))"
    if "\<not> hooked s m" for s m
    using that by (subst RegisterNative.simps) (simp add: hooked_def register_spec_def set_method_def Let_def)
  show "RegisterNative m fn fast s = RegisterNative (GetXposedOriginalMethod s m) fn fast s"
    if "hooked s m" for s m
    using that by (subst RegisterNative.simps) (simp add: hooked_def)
  show "same_dex M M' \<and> same_kind M M'" if "register_spec fn fast M = Some M'" for M M'
    using that by (auto simp: register_spec_def same_dex_def same_kind_def flag_bits split: if_splits)
  show "register_spec fn fast (backup M) = map_option backup (register_spec fn fast M)" for M
    by (rule register_spec_backup)
qed simp_all

interpretation unregistering: blind_op "\<lambda>s m. UnregisterNative R m s" "\<lambda>s m. register_spec (rt_dlsym_stub R) False" for R
proof
  show "UnregisterNative R m s = map_option (\<lambda>M'. set_method m (\<lambda>_. M') s) (register_spec (rt_dlsym_stub R) False (a_method s m))"
    if "\<not> hooked s m" for s m
    using that registering.plain [OF that, of "rt_dlsym_stub R" False]
    by (subst UnregisterNative.simps) (simp add: hooked_def register_spec_def Let_def)
  show "UnregisterNative R m s = UnregisterNative R (GetXposedOriginalMethod s m) s" if "hooked s m" for s m
    using that by (subst UnregisterNative.simps) (simp add: hooked_def)
  show "same_dex M M' \<and> same_kind M M'" if "register_spec (rt_dlsym_stub R) False M = Some M'" for M M'
    by (rule registering.keeps [OF that])
  show "register_spec (rt_dlsym_stub R) False (backup M) = map_option backup (register_spec (rt_dlsym_stub R) False M)" for M
    by (rule register_spec_backup)
qed simp_all

section \<open>What a hook does\<close>

text \<open>The allocator returns memory that is not in use.\<close>

definition fresh_for :: "fresh \<Rightarrow> art \<Rightarrow> bool" where
  "fresh_for N s \<longleftrightarrow> n_backup N \<notin> a_methods s \<and> n_info N \<notin> a_infos s \<and> n_reflected N \<notin> a_objects s"

definition to_handler :: "u32 \<Rightarrow> art_method \<Rightarrow> art_method" where
  "to_handler info M = M\<lparr>entry_jni := info, entry_quick := Proxy_invoke_handler, entry_interpreter := Interpreter_to_compiled,
     access_flags := (access_flags M AND NOT kAccNative) OR kAccXposedHookedMethod\<rparr>"

lemma to_handler_flags [simp]:
  "IsXposedHookedMethod (to_handler i M)" "\<not> IsNative (to_handler i M)"
  "IsXposedOriginalMethod (to_handler i M) = IsXposedOriginalMethod M" "IsStatic (to_handler i M) = IsStatic M"
  "IsConstructor (to_handler i M) = IsConstructor M" "same_dex (to_handler i M) (backup M)"
  by (simp_all add: to_handler_def flag_bits same_dex_def backup_def)

lemma backup_flags [simp]:
  "IsXposedHookedMethod (backup M) = IsXposedHookedMethod M" "IsXposedOriginalMethod (backup M)"
  "IsStatic (backup M) = IsStatic M" "IsConstructor (backup M) = IsConstructor M"
  by (simp_all add: backup_def flag_bits)

definition hook_state :: "fresh \<Rightarrow> oref \<Rightarrow> oref \<Rightarrow> art \<Rightarrow> art" where
  "hook_state N m i s = hook_switch m (hook_stacks m (hook_prepare N m i s))"

lemma hook_state_sel:
  assumes "n_backup N \<noteq> m"
  shows "a_method (hook_state N m i s) = (a_method s)(n_backup N := backup (a_method s m), m := to_handler (n_info N) (a_method s m))"
    "a_methods (hook_state N m i s) = insert (n_backup N) (a_methods s)"
    "a_info (hook_state N m i s) =
       (a_info s)(n_info N := \<lparr>reflectedMethod = n_reflected N, additionalInfo = i, originalMethod = n_backup N\<rparr>)"
    "a_infos (hook_state N m i s) = insert (n_info N) (a_infos s)"
    "a_reflected (hook_state N m i s) =
       (a_reflected s)(n_reflected N := \<lparr>is_constructor = IsConstructor (a_method s m), artMethod = n_backup N\<rparr>)"
    "a_objects (hook_state N m i s) = insert (n_reflected N) (a_objects s)"
    "a_stacks (hook_state N m i s) = map (map (\<lambda>(x, c). (if x = m then n_backup N else x, c))) (a_stacks s)"
    "a_inst (hook_state N m i s) = a_inst s"
  using assms
  by (simp_all add: hook_state_def hook_switch_def hook_stacks_def hook_prepare_def Let_def StackReplaceMethod_def to_handler_def
      backup_def fun_eq_iff)

text \<open>A method can be hooked: it exists, and the memory for its backup is new.\<close>

definition can_hook :: "fresh \<Rightarrow> oref \<Rightarrow> art \<Rightarrow> bool" where
  "can_hook N m s \<longleftrightarrow> m \<in> a_methods s \<and> fresh_for N s \<and> \<not> hooked s m \<and> \<not> original s m"

lemma can_hookD: "can_hook N m s \<Longrightarrow> n_backup N \<noteq> m"
  by (auto simp: can_hook_def fresh_for_def)

lemma hook_flags:
  assumes "can_hook N m s"
  shows "hooked (hook_state N m i s) x \<longleftrightarrow> x = m \<or> x \<noteq> n_backup N \<and> hooked s x"
    "original (hook_state N m i s) x \<longleftrightarrow> x = n_backup N \<or> original s x"
  using assms can_hookD [OF assms]
  by (auto simp: hooked_def original_def hook_state_sel can_hook_def)

lemma hook_infos:
  assumes "hook_wf s" "can_hook N m s" "x \<in> a_methods s" "hooked s x"
  shows "GetXposedHookInfo (hook_state N m i s) x = GetXposedHookInfo s x"
    "GetXposedOriginalMethod (hook_state N m i s) x = GetXposedOriginalMethod s x"
    "GetXposedOriginalMethod s x \<noteq> m" "GetXposedOriginalMethod s x \<noteq> n_backup N"
    "reflectedMethod (GetXposedHookInfo s x) \<noteq> n_reflected N"
proof -
  have ok: "hooked_ok s x" using assms by (simp add: hook_wf_def)
  have n: "x \<noteq> m" "x \<noteq> n_backup N" "entry_jni (a_method s x) \<noteq> n_info N"
    using assms ok by (auto simp: can_hook_def fresh_for_def hooked_ok_def Let_def)
  then show "GetXposedHookInfo (hook_state N m i s) x = GetXposedHookInfo s x"
    by (simp add: GetXposedHookInfo_def hook_state_sel [OF can_hookD [OF assms(2)]])
  then show "GetXposedOriginalMethod (hook_state N m i s) x = GetXposedOriginalMethod s x"
    by (simp add: GetXposedOriginalMethod_def)
  show "GetXposedOriginalMethod s x \<noteq> m" "GetXposedOriginalMethod s x \<noteq> n_backup N"
    "reflectedMethod (GetXposedHookInfo s x) \<noteq> n_reflected N"
    using assms(2) ok by (auto simp: can_hook_def fresh_for_def hooked_ok_def original_def Let_def)
qed

lemma new_hook_info:
  assumes "can_hook N m s"
  shows "GetXposedHookInfo (hook_state N m i s) m = \<lparr>reflectedMethod = n_reflected N, additionalInfo = i, originalMethod = n_backup N\<rparr>"
    "GetXposedOriginalMethod (hook_state N m i s) m = n_backup N"
  using can_hookD [OF assms]
  by (simp_all add: GetXposedOriginalMethod_def GetXposedHookInfo_def hook_state_sel to_handler_def)

lemma new_hooked_ok:
  assumes "can_hook N m s"
  shows "hooked_ok (hook_state N m i s) m"
  using assms can_hookD [OF assms]
  by (simp add: hooked_ok_def Let_def new_hook_info hook_state_sel can_hook_def original_def hooked_def) (simp add: to_handler_def)

lemma old_hooked_ok:
  assumes "hook_wf s" "can_hook N m s" "x \<in> a_methods s" "hooked s x"
  shows "hooked_ok (hook_state N m i s) x"
proof -
  note i = hook_infos [OF assms]
  have "x \<noteq> m" "x \<noteq> n_backup N" using assms by (auto simp: can_hook_def fresh_for_def)
  moreover have "hooked_ok s x" using assms by (simp add: hook_wf_def)
  ultimately show ?thesis
    using i can_hookD [OF assms(2)] by (simp add: hooked_ok_def Let_def i(1,2) hook_state_sel)
qed

lemma hook_frame_ok:
  assumes "can_hook N m s" "frame_ok s f"
  shows "frame_ok (hook_state N m i s) (if fst f = m then n_backup N else fst f, snd f)"
  using assms can_hookD [OF assms(1)] by (auto simp: frame_ok_def hook_flags hook_state_sel can_hook_def fresh_for_def)

lemma hook_keeps_wf:
  assumes "hook_wf s" "can_hook N m s"
  shows "hook_wf (hook_state N m i s)"
proof -
  let ?t = "hook_state N m i s"
  have H: "{x \<in> a_methods ?t. hooked ?t x} = insert m {x \<in> a_methods s. hooked s x}"
    using assms(2) can_hookD [OF assms(2)] by (auto simp: hook_flags [OF assms(2)] hook_state_sel can_hook_def fresh_for_def)
  have "inj_on (GetXposedOriginalMethod ?t) (insert m {x \<in> a_methods s. hooked s x})"
    using hook_wf_inj [OF assms(1)] hook_infos(2) [OF assms, of _ i] hook_infos(4) [OF assms] new_hook_info(2) [OF assms(2), of i]
    by (fastforce simp: inj_on_def)
  moreover have "\<forall>x \<in> a_methods ?t. hooked ?t x \<longrightarrow> hooked_ok ?t x"
  proof (intro ballI impI)
    fix x
    assume "x \<in> a_methods ?t" "hooked ?t x"
    then have "x = m \<or> x \<in> a_methods s \<and> hooked s x" using H by auto
    then show "hooked_ok ?t x" using new_hooked_ok [OF assms(2)] old_hooked_ok [OF assms] by auto
  qed
  moreover have "\<forall>st \<in> set (a_stacks ?t). \<forall>f \<in> set st. frame_ok ?t f"
    using assms(1) hook_frame_ok [OF assms(2), of _ i] can_hookD [OF assms(2)]
    by (auto simp: hook_state_sel hook_wf_def case_prod_beta)
  ultimately show ?thesis by (simp add: hook_wf_def H)
qed

lemma hook_keeps_view:
  assumes "hook_wf s" "can_hook N m s" "x \<in> a_methods s"
  shows "view (hook_state N m i s) x = view s x"
proof (cases "x = m")
  case True
  then show ?thesis
    using assms(2) can_hookD [OF assms(2)] by (simp add: view_def hook_flags new_hook_info hook_state_sel can_hook_def original_def)
next
  case False
  have "x \<noteq> n_backup N" using assms(2,3) by (auto simp: can_hook_def fresh_for_def)
  then show ?thesis
    using False hook_infos [OF assms(1,2,3)] can_hookD [OF assms(2)] by (simp add: view_def hook_flags [OF assms(2)] hook_state_sel)
qed

lemma hook_evolves:
  assumes "can_hook N m s"
  shows "evolves s (hook_state N m i s)"
  using hook_keeps_wf [OF _ assms] hook_infos(2) [OF _ assms] assms can_hookD [OF assms]
  by (auto simp: evolves_def hook_flags [OF assms] hook_state_sel can_hook_def fresh_for_def)

lemma EnableXposedHook_cases:
  "EnableXposedHook N m i s =
     (if hooked s m then (s, None) else if original s m then (s, Some IllegalArgument) else (hook_state N m i s, None))"
  by (simp add: EnableXposedHook_def hooked_def original_def hook_state_def)

lemma hook_same_view:
  assumes "hook_wf s" "can_hook N m s"
  shows "same_view s (hook_state N m i s)"
  using assms hook_keeps_wf [OF assms] hook_keeps_view [OF assms] can_hookD [OF assms(2)]
  by (auto simp: same_view_def hook_state_sel hook_flags [OF assms(2)] can_hook_def fresh_for_def)

lemma is_native_view:
  assumes "hook_wf s" "m \<in> a_methods s"
  shows "is_native_method s m \<longleftrightarrow> IsNative (view s m)"
  using assms by (auto simp: is_native_method_def view_def hooked_def hook_wf_def hooked_ok_def Let_def unbackup_def flag_bits)

lemma same_view_native:
  "same_view s s' \<Longrightarrow> m \<in> a_methods s \<Longrightarrow> \<not> original s m \<Longrightarrow> is_native_method s' m = is_native_method s m"
  by (auto simp: same_view_def is_native_view subset_iff)

text \<open>The methods that are found in classes are no backups.\<close>

definition finds_members :: "art_runtime \<Rightarrow> nat \<Rightarrow> art \<Rightarrow> bool" where
  "finds_members R c s \<longleftrightarrow> (\<forall>name sig m. rt_find R c name sig = Some m \<longrightarrow> m \<in> a_methods s \<and> \<not> original s m)"

lemma RegisterNatives_same_view:
  assumes "same_view s s'" "finds_members R c s"
  shows "rel_option (rel_prod same_view (=)) (RegisterNatives R c es s) (RegisterNatives R c es s')"
  using assms
proof (induction R c es s arbitrary: s' rule: RegisterNatives.induct)
  case (2 R c name sig fnPtr es s)
  let ?f = "take 1 sig = ''!''"
  let ?sig = "if ?f then tl sig else sig"
  consider "fnPtr = 0" | "fnPtr \<noteq> 0" "rt_find R c name ?sig = None"
    | m where "fnPtr \<noteq> 0" "rt_find R c name ?sig = Some m" by (cases "rt_find R c name ?sig") auto
  then show ?case
  proof cases
    case 3
    then have m: "m \<in> a_methods s" "\<not> original s m" using 2(3) by (auto simp: finds_members_def)
    note n = same_view_native [OF 2(2) m]
    have r: "rel_option same_view (RegisterNative m fnPtr ?f s) (RegisterNative m fnPtr ?f s')"
      by (rule registering.op_same_view [OF 2(2) m])
    show ?thesis
    proof (cases "is_native_method s m \<and> RegisterNative m fnPtr ?f s \<noteq> None")
      case True
      then obtain t t' where t: "RegisterNative m fnPtr ?f s = Some t" "RegisterNative m fnPtr ?f s' = Some t'" "same_view t t'"
        using r by (auto elim: option.rel_cases)
      have w: "hook_wf s" using 2(2) by (simp add: same_view_def)
      have "finds_members R c t"
        using 2(3) registering.op_wf [OF w m(1) t(1)] by (simp add: finds_members_def)
      then show ?thesis
        using 2(1) [OF refl refl 3(1) _ _ t(1,3)] 3 True n t by (simp add: Let_def)
    next
      case False
      then show ?thesis using 3 2(2) n r by (auto simp: Let_def elim: option.rel_cases)
    qed
  qed (use 2(2) in \<open>auto simp: Let_def\<close>)
qed auto

lemma same_view_refl: "hook_wf s \<Longrightarrow> same_view s s"
  by (simp add: same_view_def)

lemma unregister_same_view:
  assumes "same_view s s'" "\<forall>m \<in> set ms. m \<in> a_methods s \<and> \<not> original s m"
  shows "rel_option (\<lambda>t t'. same_view t t' \<and> a_methods t = a_methods s \<and> original t = original s)
    (unregister_all R ms s) (unregister_all R ms s')"
  using assms
proof (induction ms arbitrary: s s')
  case (Cons m ms)
  then have m: "m \<in> a_methods s" "\<not> original s m" and w: "hook_wf s" by (auto simp: same_view_def)
  note n = same_view_native [OF Cons.prems(1) m]
  have r: "rel_option same_view (UnregisterNative R m s) (UnregisterNative R m s')"
    by (rule unregistering.op_same_view [OF Cons.prems(1) m])
  show ?case
  proof (cases "UnregisterNative R m s")
    case None
    then show ?thesis using r n Cons by (auto elim: option.rel_cases)
  next
    case (Some t)
    note o = unregistering.op_wf [OF w m(1) Some]
    obtain t' where t': "UnregisterNative R m s' = Some t'" "same_view t t'" using r Some by (auto elim: option.rel_cases)
    show ?thesis using Cons.IH [OF t'(2)] Cons.IH [OF Cons.prems(1)] Cons.prems(2) Some t' n o by auto
  qed
qed simp

definition has_members :: "art_runtime \<Rightarrow> nat \<Rightarrow> art \<Rightarrow> bool" where
  "has_members R c s \<longleftrightarrow>
     (\<forall>m \<in> set (k_direct (rt_class R c)) \<union> set (k_virtual (rt_class R c)). m \<in> a_methods s \<and> \<not> original s m)"

lemma UnregisterNatives_same_view:
  assumes "same_view s s'" "has_members R c s"
  shows "rel_option (rel_prod same_view (=)) (UnregisterNatives R c s) (UnregisterNatives R c s')"
proof -
  let ?k = "rt_class R c"
  have d: "rel_option (\<lambda>t t'. same_view t t' \<and> a_methods t = a_methods s \<and> original t = original s)
    (unregister_all R (k_direct ?k) s) (unregister_all R (k_direct ?k) s')"
    by (rule unregister_same_view) (use assms in \<open>auto simp: has_members_def\<close>)
  show ?thesis
  proof (cases "unregister_all R (k_direct ?k) s")
    case None
    then show ?thesis using d by (auto simp: UnregisterNatives_def elim: option.rel_cases)
  next
    case (Some t)
    then obtain t' where t: "unregister_all R (k_direct ?k) s' = Some t'" "same_view t t'" "a_methods t = a_methods s"
      "original t = original s" using d by (auto elim: option.rel_cases)
    have "rel_option (\<lambda>u u'. same_view u u' \<and> a_methods u = a_methods t \<and> original u = original t)
      (unregister_all R (k_virtual ?k) t) (unregister_all R (k_virtual ?k) t')"
      by (rule unregister_same_view) (use assms t in \<open>auto simp: has_members_def\<close>)
    then show ?thesis using Some t by (auto simp: UnregisterNatives_def elim: option.rel_cases)
  qed
qed

text \<open>
  C18 Native code is registered and unregistered as if no method were hooked: after a method has been hooked, the
  JNI functions \<open>RegisterNatives\<close> and \<open>UnregisterNatives\<close> return what they would have returned before, abort
  exactly if they would have aborted, and leave every method with the code it would have had without the hook.
\<close>

theorem registering_ignores_hooks:
  assumes "hook_wf s" "m \<in> a_methods s" "fresh_for N s" "finds_members R c s" "has_members R c s"
  shows "rel_option (rel_prod same_view (=))
      (RegisterNatives R c es s) (RegisterNatives R c es (fst (EnableXposedHook N m i s))) \<and>
    rel_option (rel_prod same_view (=))
      (UnregisterNatives R c s) (UnregisterNatives R c (fst (EnableXposedHook N m i s)))"
proof -
  have "same_view s (fst (EnableXposedHook N m i s))"
    using assms(1-3) same_view_refl [OF assms(1)] hook_same_view [OF assms(1), of N m i]
    by (simp add: EnableXposedHook_cases can_hook_def)
  then show ?thesis
    by (intro conjI RegisterNatives_same_view UnregisterNatives_same_view assms(4,5))
qed

text \<open>A runtime with one class that has one native method, at address 1, running on one thread.\<close>

definition sample_method :: art_method where
  "sample_method = \<lparr>declaring_class = 0, access_flags = 0x101, code_item_offset = 0, dex_method_index = 7, method_index = 0,
     entry_interpreter = Interpreter_to_compiled, entry_jni = 0x500, entry_quick = Oat_code 9\<rparr>"

definition sample_class :: class_info where
  "sample_class = \<lparr>k_interface = False, k_proxy = False, k_initialized = True, k_descriptor = ''LC;'', k_vtable = [1], k_iftable = [],
     k_direct = [], k_virtual = [1], k_oat = Some [Oat_code 9]\<rparr>"

definition sample_runtime :: art_runtime where
  "sample_runtime = \<lparr>rt_classes = [0], rt_class = (\<lambda>_. sample_class), rt_shorty = (\<lambda>_ _. ''IL''), rt_params = (\<lambda>_ _. [''LO;'']),
     rt_return = (\<lambda>_ _. Primitive_type kPrimInt), rt_find = (\<lambda>_ name _. if name = ''f'' then Some 1 else None),
     rt_resolution_method = 0, rt_dlsym_stub = 0x600, rt_oat_available = True\<rparr>"

definition sample_state :: art where
  "sample_state = \<lparr>a_method = (\<lambda>_. sample_method), a_methods = {1}, a_info = (\<lambda>_. \<lparr>reflectedMethod = 0, additionalInfo = 0, originalMethod = 0\<rparr>),
     a_infos = {}, a_reflected = (\<lambda>_. \<lparr>is_constructor = False, artMethod = 1\<rparr>), a_objects = {3},
     a_stacks = [[(1, Oat_code 9)]],
     a_inst = \<lparr>stubs_installed = False, entry_exit_stubs = False, interpreter_stubs = False, interpret_only = False,
       forced_interpret_only = False, deoptimization_enabled = False, deoptimized_methods = []\<rparr>\<rparr>"

definition sample_fresh :: fresh where
  "sample_fresh = \<lparr>n_backup = 2, n_reflected = 4, n_info = 0x700\<rparr>"

lemmas samples = sample_method_def sample_class_def sample_runtime_def sample_state_def sample_fresh_def

lemma sample_wf: "hook_wf sample_state" "fresh_for sample_fresh sample_state" "\<not> hooked sample_state m" "\<not> original sample_state m"
  by (simp_all add: hook_wf_def fresh_for_def hooked_def original_def predicates has_flag_def frame_ok_def samples)

theorem registering_ignores_hooks_witness:
  "rel_option (rel_prod same_view (=))
      (RegisterNatives sample_runtime 0 [(Some ''f'', Some ''()V'', 0x800)] sample_state)
      (RegisterNatives sample_runtime 0 [(Some ''f'', Some ''()V'', 0x800)] (fst (EnableXposedHook sample_fresh 1 0 sample_state))) \<and>
    RegisterNatives sample_runtime 0 [(Some ''f'', Some ''()V'', 0x800)] sample_state =
      Some (set_method 1 (\<lambda>M. M\<lparr>entry_jni := 0x800\<rparr>) sample_state, JNI_OK)"
proof -
  have "finds_members sample_runtime 0 sample_state" "has_members sample_runtime 0 sample_state" "1 \<in> a_methods sample_state"
    using sample_wf by (auto simp: finds_members_def has_members_def samples)
  moreover have "RegisterNatives sample_runtime 0 [(Some ''f'', Some ''()V'', 0x800)] sample_state =
      Some (set_method 1 (\<lambda>M. M\<lparr>entry_jni := 0x800\<rparr>) sample_state, JNI_OK)"
    by (simp add: RegisterNative.simps is_native_method_def IsNative_def IsXposedHookedMethod_def IsFastNative_def has_flag_def samples)
  ultimately show ?thesis using registering_ignores_hooks [OF sample_wf(1) _ sample_wf(2)] by blast
qed

section \<open>The hook while other threads run\<close>

text \<open>A thread enters a method: its frame runs the code the method's entry point names.\<close>

definition enter :: "nat \<Rightarrow> oref \<Rightarrow> art \<Rightarrow> art" where
  "enter t m s = s\<lparr>a_stacks := (a_stacks s)[t := (m, entry_quick (a_method s m)) # a_stacks s ! t]\<rparr>"

definition return_from :: "nat \<Rightarrow> art \<Rightarrow> art" where
  "return_from t s = s\<lparr>a_stacks := (a_stacks s)[t := tl (a_stacks s ! t)]\<rparr>"

text \<open>
  C20 The hook is not atomic.  The other threads are resumed after their stacks have been updated but before the
  entry point and the flags of the method are changed.  A thread that calls the method in between, if the
  method is native, is given the address of the hook info in place of the native function; and once the method
  is marked as hooked its frame is taken for one of the handler, although the old code runs in it.
\<close>

theorem hook_race:
  assumes "hook_wf s" "can_hook N m s" "entry_quick (a_method s m) \<noteq> Proxy_invoke_handler" "t < length (a_stacks s)"
  shows "let s1 = hook_stacks m (hook_prepare N m i s); s2 = hook_switch m (enter t m s1)
    in entry_jni (a_method s1 m) = n_info N \<and> IsNative (a_method s1 m) = IsNative (a_method s m) \<and>
       entry_quick (a_method s1 m) = entry_quick (a_method s m) \<and>
       hooked s2 m \<and> (m, entry_quick (a_method s m)) \<in> set (a_stacks s2 ! t) \<and> \<not> hook_wf s2"
proof -
  have n: "n_backup N \<noteq> m" by (rule can_hookD [OF assms(2)])
  let ?s1 = "hook_stacks m (hook_prepare N m i s)"
  let ?s2 = "hook_switch m (enter t m ?s1)"
  have M: "a_method ?s1 m = (a_method s m)\<lparr>entry_jni := n_info N\<rparr>"
    using n by (simp add: hook_stacks_def hook_prepare_def Let_def)
  have h: "hooked ?s2 m" by (simp add: hook_switch_def enter_def hooked_def flag_bits)
  have f: "(m, entry_quick (a_method s m)) \<in> set (a_stacks ?s2 ! t)"
    using assms(4) M by (simp add: hook_switch_def enter_def) (simp add: hook_stacks_def hook_prepare_def Let_def)
  have "t < length (a_stacks ?s2)"
    using assms(4) by (simp add: hook_switch_def enter_def) (simp add: hook_stacks_def hook_prepare_def Let_def)
  then have "\<not> hook_wf ?s2"
    using f h assms(3) nth_mem [of t "a_stacks ?s2"] by (force simp: hook_wf_def frame_ok_def)
  moreover have "IsNative (a_method ?s1 m) = IsNative (a_method s m)" using M by (simp add: flag_bits)
  ultimately show ?thesis using M h f by (simp add: Let_def)
qed

theorem hook_race_witness:
  "let s1 = hook_stacks 1 (hook_prepare sample_fresh 1 0 sample_state)
    in entry_jni (a_method s1 1) = 0x700 \<and> IsNative (a_method s1 1) \<and> \<not> hook_wf (hook_switch 1 (enter 0 1 s1))"
proof -
  have "can_hook sample_fresh 1 sample_state" using sample_wf by (simp add: can_hook_def) (simp add: samples)
  moreover have "entry_quick (a_method sample_state 1) \<noteq> Proxy_invoke_handler" "0 < length (a_stacks sample_state)"
    "IsNative (a_method sample_state 1)" "n_info sample_fresh = 0x700"
    by (simp_all add: samples IsNative_def has_flag_def)
  ultimately show ?thesis using hook_race [OF sample_wf(1), of sample_fresh 1 0 0] by (simp add: Let_def)
qed

end
