(* ===== verification/Instrumentation.thy ===== *)
theory Instrumentation
  imports ArtMethod
begin

text \<open>
  Which code a method runs: the entry points that the class linker and the instrumentation of the Android runtime
  set (\<open>src/android_art-xposed-lollipop-mr1/runtime\<close>: \<open>instrumentation.cc\<close>, \<open>class_linker.cc\<close>).  Each of these
  operations must leave the entry point of a hooked method alone and change its backup.

  All operations that change methods, with calls and returns of the threads, are the steps of a transition
  system; its invariant is that hooks stay in place.
\<close>

section \<open>Compiled code\<close>

definition IsDeoptimized :: "art \<Rightarrow> oref \<Rightarrow> bool" where
  "IsDeoptimized s m \<longleftrightarrow> m \<in> set (deoptimized_methods (a_inst s))"

definition bridges_to_interpreter :: "art_runtime \<Rightarrow> art \<Rightarrow> art_method \<Rightarrow> quick_entry \<Rightarrow> bool" where
  "bridges_to_interpreter R s M quick_code \<longleftrightarrow>
     quick_code = To_interpreter_bridge \<or> quick_code = To_interpreter_trampoline \<or>
     quick_code = Resolution_trampoline \<and> forced_interpret_only (a_inst s) \<and> \<not> IsNative M \<and> \<not> IsProxyMethod R False M"

definition UpdateEntrypoints :: "art_runtime \<Rightarrow> oref \<Rightarrow> quick_entry \<Rightarrow> art \<Rightarrow> art" where
  "UpdateEntrypoints R m quick_code s =
     set_method m (\<lambda>M. M\<lparr>entry_quick := quick_code,
       entry_interpreter :=
         (if m = rt_resolution_method R then entry_interpreter M
          else if bridges_to_interpreter R s M quick_code then Interpreter_to_interpreter else Interpreter_to_compiled)\<rparr>) s"

fun position :: "art \<Rightarrow> u32 \<Rightarrow> oref list \<Rightarrow> nat option" where
  "position s i [] = None"
| "position s i (v # vs) = (if dex_method_index (a_method s v) = i then Some 0 else map_option Suc (position s i vs))"

text \<open>The compiled code of the oat file; the outer \<open>None\<close> is the failed check.\<close>

definition FindOatMethodFor :: "art_runtime \<Rightarrow> art \<Rightarrow> art_method \<Rightarrow> quick_entry option option" where
  "FindOatMethodFor R s M =
     (let k = rt_class R (declaring_class M)
      in do { i \<leftarrow> (if IsStatic M \<or> IsDirect True M then Some (unat (method_index M))
                    else map_option (\<lambda>j. length (k_direct k) + j) (position s (dex_method_index M) (k_virtual k)));
              Some (map_option (\<lambda>codes. if i < length codes then codes ! i else No_code) (k_oat k)) })"

definition GetQuickOatCodeFor :: "art_runtime \<Rightarrow> art \<Rightarrow> art_method \<Rightarrow> quick_entry option" where
  "GetQuickOatCodeFor R s M =
     (if IsAbstract M then None
      else if IsProxyMethod R False M then Some Proxy_invoke_handler
      else map_option (\<lambda>r. if r = None \<or> r = Some No_code
                            then (if IsNative M then Generic_jni_trampoline else To_interpreter_bridge) else the r)
             (FindOatMethodFor R s M))"

definition stub_code :: "art_runtime \<Rightarrow> art \<Rightarrow> oref \<Rightarrow> art_method \<Rightarrow> quick_entry option" where
  "stub_code R s m M =
     (let I = a_inst s;
          uninstall = (\<not> entry_exit_stubs I \<and> \<not> interpreter_stubs I);
          ready = (k_initialized (rt_class R (declaring_class M)) \<or> \<not> IsStatic M \<or> IsConstructor M)
      in if uninstall
         then (if (forced_interpret_only I \<or> IsDeoptimized s m) \<and> \<not> IsNative M then Some To_interpreter_bridge
               else if ready then GetQuickOatCodeFor R s M else Some Resolution_trampoline)
         else if (interpreter_stubs I \<or> forced_interpret_only I \<or> IsDeoptimized s m) \<and> \<not> IsNative M
         then Some To_interpreter_bridge
         else if ready
         then (if entry_exit_stubs I then Some Instrumentation_entry_point else GetQuickOatCodeFor R s M)
         else Some Resolution_trampoline)"

definition InstallStubsForMethod :: "art_runtime \<Rightarrow> oref \<Rightarrow> art \<Rightarrow> art option" where
  "InstallStubsForMethod R method s =
     (let m = (if IsXposedHookedMethod (a_method s method) then GetXposedOriginalMethod s method else method);
          M = a_method s m
      in if IsAbstract M \<or> IsProxyMethod R False M then Some s
         else if IsConstructor M \<and> k_descriptor (rt_class R (declaring_class M)) = ''Ljava/lang/reflect/Proxy;'' then Some s
         else map_option (\<lambda>code. UpdateEntrypoints R m code s) (stub_code R s m M))"

fun install_all :: "art_runtime \<Rightarrow> oref list \<Rightarrow> art \<Rightarrow> art option" where
  "install_all R [] s = Some s"
| "install_all R (m # ms) s = InstallStubsForMethod R m s \<bind> install_all R ms"

definition InstallStubsForClass :: "art_runtime \<Rightarrow> nat \<Rightarrow> art \<Rightarrow> art option" where
  "InstallStubsForClass R c s = install_all R (k_direct (rt_class R c) @ k_virtual (rt_class R c)) s"

definition UpdateMethodsCode :: "art_runtime \<Rightarrow> oref \<Rightarrow> quick_entry \<Rightarrow> art \<Rightarrow> art" where
  "UpdateMethodsCode R m quick_code s =
     (let I = a_inst s
      in UpdateEntrypoints R m
           (if \<not> stubs_installed I then quick_code
            else if (interpreter_stubs I \<or> IsDeoptimized s m) \<and> \<not> IsNative (a_method s m) then To_interpreter_bridge
            else if quick_code \<in> {Resolution_trampoline, To_interpreter_trampoline, To_interpreter_bridge} then quick_code
            else if entry_exit_stubs I then Instrumentation_entry_point else quick_code) s)"

definition NeedsInterpreter :: "art_runtime \<Rightarrow> art \<Rightarrow> art_method \<Rightarrow> quick_entry \<Rightarrow> bool" where
  "NeedsInterpreter R s M quick_code \<longleftrightarrow>
     quick_code = No_code \<or> interpret_only (a_inst s) \<and> \<not> IsNative M \<and> \<not> IsProxyMethod R False M"

definition fixup_method :: "art_runtime \<Rightarrow> oref \<Rightarrow> quick_entry \<Rightarrow> art \<Rightarrow> art" where
  "fixup_method R method quick_code s =
     (let m = (if IsXposedHookedMethod (a_method s method) then GetXposedOriginalMethod s method else method);
          M = a_method s m
      in UpdateMethodsCode R m
           (if NeedsInterpreter R s M quick_code
            then (if quick_code = No_code \<and> IsNative M then Generic_jni_trampoline else To_interpreter_bridge)
            else quick_code) s)"

fun fixup_direct :: "art_runtime \<Rightarrow> quick_entry list option \<Rightarrow> nat \<Rightarrow> oref list \<Rightarrow> art \<Rightarrow> art" where
  "fixup_direct R oat i [] s = s"
| "fixup_direct R oat i (m # ms) s =
     fixup_direct R oat (Suc i) ms
       (if IsStatic (a_method s m)
        then fixup_method R m (case oat of None \<Rightarrow> No_code | Some codes \<Rightarrow> if i < length codes then codes ! i else No_code) s
        else s)"

definition FixupStaticTrampolines :: "art_runtime \<Rightarrow> nat \<Rightarrow> art \<Rightarrow> art" where
  "FixupStaticTrampolines R c s =
     (let k = rt_class R c in if k_direct k = [] \<or> \<not> rt_oat_available R then s else fixup_direct R (k_oat k) 0 (k_direct k) s)"

section \<open>Deoptimized methods\<close>

text \<open>The frames the instrumentation keeps of its own are not part of the stacks here.\<close>

definition deoptimizable :: "art_runtime \<Rightarrow> art_method \<Rightarrow> bool" where
  "deoptimizable R M \<longleftrightarrow> \<not> IsNative M \<and> \<not> IsProxyMethod R False M \<and> \<not> IsAbstract M"

definition Deoptimize :: "art_runtime \<Rightarrow> oref \<Rightarrow> art \<Rightarrow> art option" where
  "Deoptimize R m s =
     (if \<not> deoptimizable R (a_method s m) \<or> IsDeoptimized s m then None
      else let s1 = s\<lparr>a_inst := (a_inst s)\<lparr>deoptimized_methods := deoptimized_methods (a_inst s) @ [m]\<rparr>\<rparr>
           in if interpreter_stubs (a_inst s) then Some s1
              else let s2 = UpdateEntrypoints R m Instrumentation_entry_point s1
                   in Some (s2\<lparr>a_inst := (a_inst s2)\<lparr>stubs_installed := True\<rparr>\<rparr>))"

definition Undeoptimize :: "art_runtime \<Rightarrow> oref \<Rightarrow> art \<Rightarrow> art option" where
  "Undeoptimize R m s =
     (let M = a_method s m
      in if \<not> deoptimizable R M \<or> \<not> IsDeoptimized s m then None
         else let rest = remove1 m (deoptimized_methods (a_inst s));
                  s1 = s\<lparr>a_inst := (a_inst s)\<lparr>deoptimized_methods := rest\<rparr>\<rparr>
              in if interpreter_stubs (a_inst s) then Some s1
                 else do { code \<leftarrow> (if IsStatic M \<and> \<not> IsConstructor M \<and> \<not> k_initialized (rt_class R (declaring_class M))
                                     then Some Resolution_trampoline else GetQuickOatCodeFor R s1 M);
                           let s2 = UpdateEntrypoints R m code s1;
                           Some (if rest = [] then s2\<lparr>a_inst := (a_inst s2)\<lparr>stubs_installed := False\<rparr>\<rparr> else s2) })"

text \<open>The loop takes the first method until there is none; each turn removes the one it takes.\<close>

fun undeoptimize_all :: "art_runtime \<Rightarrow> oref list \<Rightarrow> art \<Rightarrow> art option" where
  "undeoptimize_all R [] s = Some s"
| "undeoptimize_all R (m # ms) s = Undeoptimize R m s \<bind> undeoptimize_all R ms"

section \<open>Levels of instrumentation\<close>

fun visit_classes :: "art_runtime \<Rightarrow> nat list \<Rightarrow> art \<Rightarrow> art option" where
  "visit_classes R [] s = Some s"
| "visit_classes R (c # cs) s = InstallStubsForClass R c s \<bind> visit_classes R cs"

definition level :: "bool \<Rightarrow> bool \<Rightarrow> nat" where
  "level entry_exit interpreter = (if interpreter then 2 else if entry_exit then 1 else 0)"

definition ConfigureStubs :: "art_runtime \<Rightarrow> bool \<Rightarrow> bool \<Rightarrow> art \<Rightarrow> art option" where
  "ConfigureStubs R require_entry_exit_stubs require_interpreter s0 =
     (let s = s0\<lparr>a_inst := (a_inst s0)\<lparr>interpret_only := require_interpreter \<or> forced_interpret_only (a_inst s0)\<rparr>\<rparr>;
          I = a_inst s;
          desired_level = level require_entry_exit_stubs require_interpreter;
          current_level = level (entry_exit_stubs I) (interpreter_stubs I)
      in if desired_level = current_level then Some s
         else if desired_level > 0
         then do { s' \<leftarrow> visit_classes R (rt_classes R)
                     (s\<lparr>a_inst := (if require_interpreter then I\<lparr>interpreter_stubs := True\<rparr> else I\<lparr>entry_exit_stubs := True\<rparr>)\<rparr>);
                   Some (s'\<lparr>a_inst := (a_inst s')\<lparr>stubs_installed := True\<rparr>\<rparr>) }
         else do { s' \<leftarrow> visit_classes R (rt_classes R) (s\<lparr>a_inst := I\<lparr>interpreter_stubs := False, entry_exit_stubs := False\<rparr>\<rparr>);
                   Some (if deoptimized_methods (a_inst s') = []
                         then s'\<lparr>a_inst := (a_inst s')\<lparr>stubs_installed := False\<rparr>\<rparr> else s') })"

definition DeoptimizeEverything :: "art_runtime \<Rightarrow> art \<Rightarrow> art option" where
  "DeoptimizeEverything R s = (if interpreter_stubs (a_inst s) then None else ConfigureStubs R False True s)"

definition UndeoptimizeEverything :: "art_runtime \<Rightarrow> art \<Rightarrow> art option" where
  "UndeoptimizeEverything R s = (if \<not> interpreter_stubs (a_inst s) then None else ConfigureStubs R False False s)"

definition EnableDeoptimization :: "art \<Rightarrow> art option" where
  "EnableDeoptimization s =
     (if deoptimized_methods (a_inst s) \<noteq> [] \<or> deoptimization_enabled (a_inst s) then None
      else Some (s\<lparr>a_inst := (a_inst s)\<lparr>deoptimization_enabled := True\<rparr>\<rparr>))"

definition DisableDeoptimization :: "art_runtime \<Rightarrow> art \<Rightarrow> art option" where
  "DisableDeoptimization R s =
     (if \<not> deoptimization_enabled (a_inst s) then None
      else do { s1 \<leftarrow> (if interpreter_stubs (a_inst s) then UndeoptimizeEverything R s else Some s);
                s2 \<leftarrow> undeoptimize_all R (deoptimized_methods (a_inst s1)) s1;
                Some (s2\<lparr>a_inst := (a_inst s2)\<lparr>deoptimization_enabled := False\<rparr>\<rparr>) })"

definition GetQuickCodeFor :: "art_runtime \<Rightarrow> art \<Rightarrow> art_method \<Rightarrow> quick_entry option" where
  "GetQuickCodeFor R s M =
     (if \<not> stubs_installed (a_inst s) \<and> entry_quick M \<notin> {Resolution_trampoline, To_interpreter_trampoline, To_interpreter_bridge}
      then Some (entry_quick M) else GetQuickOatCodeFor R s M)"

section \<open>The operations reach through hooks\<close>

lemma set_method_id [simp]: "set_method m (\<lambda>_. a_method s m) s = s"
  by (simp add: set_method_def)

definition new_code :: "art_runtime \<Rightarrow> art \<Rightarrow> oref \<Rightarrow> quick_entry \<Rightarrow> art_method \<Rightarrow> art_method" where
  "new_code R s m code M = M\<lparr>entry_quick := code,
     entry_interpreter :=
       (if m = rt_resolution_method R then entry_interpreter M
        else if bridges_to_interpreter R s M code then Interpreter_to_interpreter else Interpreter_to_compiled)\<rparr>"

lemma UpdateEntrypoints_eq: "UpdateEntrypoints R m code s = set_method m (\<lambda>_. new_code R s m code (a_method s m)) s"
  by (simp add: UpdateEntrypoints_def new_code_def set_method_def)

lemma new_code_same [simp]: "same_dex M (new_code R s m code M)" "same_kind M (new_code R s m code M)"
  by (simp_all add: new_code_def same_dex_def same_kind_def)

lemma UpdateEntrypoints_evolves: "\<not> hooked s m \<Longrightarrow> evolves s (UpdateEntrypoints R m code s)"
  by (simp add: UpdateEntrypoints_eq set_plain_evolves)

definition stubs_spec :: "art_runtime \<Rightarrow> art \<Rightarrow> oref \<Rightarrow> art_method \<Rightarrow> art_method option" where
  "stubs_spec R s m M =
     (if IsAbstract M \<or> IsProxyMethod R False M \<or>
         IsConstructor M \<and> k_descriptor (rt_class R (declaring_class M)) = ''Ljava/lang/reflect/Proxy;'' then Some M
      else map_option (\<lambda>code. new_code R s m code M) (stub_code R s m M))"

interpretation stubs: through_hook "\<lambda>s m. InstallStubsForMethod R m s" "stubs_spec R" for R
proof
  show "InstallStubsForMethod R m s = map_option (\<lambda>M'. set_method m (\<lambda>_. M') s) (stubs_spec R s m (a_method s m))"
    if "\<not> hooked s m" for s m
    using that by (simp add: InstallStubsForMethod_def stubs_spec_def hooked_def UpdateEntrypoints_eq Let_def option.map_comp comp_def)
  show "InstallStubsForMethod R m s = InstallStubsForMethod R (GetXposedOriginalMethod s m) s"
    if "hooked s m" "\<not> hooked s (GetXposedOriginalMethod s m)" for s m
    using that by (simp add: InstallStubsForMethod_def hooked_def)
  show "same_dex M M' \<and> same_kind M M'" if "stubs_spec R s m M = Some M'" for s m M M'
    using that by (auto simp: stubs_spec_def split: if_splits)
qed

definition fixup_spec :: "art_runtime \<Rightarrow> quick_entry \<Rightarrow> art \<Rightarrow> oref \<Rightarrow> art_method \<Rightarrow> art_method option" where
  "fixup_spec R quick_code s m M =
     (let code = (if NeedsInterpreter R s M quick_code
                  then (if quick_code = No_code \<and> IsNative M then Generic_jni_trampoline else To_interpreter_bridge) else quick_code);
          I = a_inst s
      in Some (new_code R s m
           (if \<not> stubs_installed I then code
            else if (interpreter_stubs I \<or> IsDeoptimized s m) \<and> \<not> IsNative M then To_interpreter_bridge
            else if code \<in> {Resolution_trampoline, To_interpreter_trampoline, To_interpreter_bridge} then code
            else if entry_exit_stubs I then Instrumentation_entry_point else code) M))"

interpretation fixing: through_hook "\<lambda>s m. Some (fixup_method R m code s)" "fixup_spec R code" for R code
proof
  show "Some (fixup_method R m code s) = map_option (\<lambda>M'. set_method m (\<lambda>_. M') s) (fixup_spec R code s m (a_method s m))"
    if "\<not> hooked s m" for s m
    using that by (simp add: fixup_method_def fixup_spec_def hooked_def UpdateMethodsCode_def UpdateEntrypoints_eq Let_def)
  show "Some (fixup_method R m code s) = Some (fixup_method R (GetXposedOriginalMethod s m) code s)"
    if "hooked s m" "\<not> hooked s (GetXposedOriginalMethod s m)" for s m
    using that by (simp add: fixup_method_def hooked_def)
  show "same_dex M M' \<and> same_kind M M'" if "fixup_spec R code s m M = Some M'" for s m M M'
    using that by (auto simp: fixup_spec_def Let_def)
qed

text \<open>The code that is looked up for a backup is that of the method it stands for.\<close>

lemma oat_code_of_backup:
  assumes "\<not> IsXposedOriginalMethod M" "\<not> IsXposedHookedMethod M"
    and "\<forall>v \<in> set (k_virtual (rt_class R (declaring_class M))). dex_method_index (a_method s' v) = dex_method_index (a_method s v)"
  shows "GetQuickOatCodeFor R s' (backup M) = GetQuickOatCodeFor R s M"
proof -
  have p: "position s' i vs = position s i vs" if "\<forall>v \<in> set vs. dex_method_index (a_method s' v) = dex_method_index (a_method s v)" for i vs
    using that by (induction vs) auto
  have d: "IsDirect True (backup M) = IsDirect True M"
  proof -
    have "(f OR kAccXposedOriginalMethod) AND K = f AND K" if "\<not> bit K 29" for f K :: u32
      by (rule bit_eqI) (use that in \<open>unfold bit_and_iff bit_of_flags, auto\<close>)
    from this [of "kAccStatic OR kAccPrivate OR kAccConstructor" "access_flags M"]
    have "access_flags (backup M) AND (kAccStatic OR kAccPrivate OR kAccConstructor) =
      access_flags M AND (kAccStatic OR kAccPrivate OR kAccConstructor)"
      by (simp add: backup_def)
    then show ?thesis by (simp add: IsDirect_def Let_def)
  qed
  have a: "IsAbstract (backup M) = IsAbstract M" "declaring_class (backup M) = declaring_class M"
    "method_index (backup M) = method_index M" "dex_method_index (backup M) = dex_method_index M"
    by (simp_all add: backup_def flag_bits)
  have "FindOatMethodFor R s' (backup M) = FindOatMethodFor R s M"
    by (simp add: FindOatMethodFor_def Let_def a d p [OF assms(3)])
  then show ?thesis by (simp add: GetQuickOatCodeFor_def IsProxyMethod_def a)
qed

section \<open>Hooks stay in place\<close>

lemma inst_irrelevant [simp]:
  "hooked (s\<lparr>a_inst := I\<rparr>) = hooked s" "original (s\<lparr>a_inst := I\<rparr>) = original s"
  "GetXposedHookInfo (s\<lparr>a_inst := I\<rparr>) = GetXposedHookInfo s"
  "GetXposedOriginalMethod (s\<lparr>a_inst := I\<rparr>) = GetXposedOriginalMethod s"
  by (simp_all add: hooked_def original_def GetXposedOriginalMethod_def GetXposedHookInfo_def fun_eq_iff)

lemma inst_wf [simp]: "hook_wf (s\<lparr>a_inst := I\<rparr>) = hook_wf s"
  by (simp add: hook_wf_def hooked_ok_def frame_ok_def)

lemma inst_evolves [simp]: "evolves s (t\<lparr>a_inst := I\<rparr>) = evolves s t" "evolves (s\<lparr>a_inst := I\<rparr>) t = evolves s t"
  by (simp_all add: evolves_def)

lemma evolves_members: "evolves s s' \<Longrightarrow> hook_wf s \<Longrightarrow> m \<in> a_methods s \<Longrightarrow> m \<in> a_methods s'"
  by (auto simp: evolves_def)

lemma evolves_wf: "evolves s s' \<Longrightarrow> hook_wf s \<Longrightarrow> hook_wf s'"
  by (simp add: evolves_def)

lemma install_all_evolves:
  "install_all R ms s = Some s' \<Longrightarrow> hook_wf s \<Longrightarrow> \<forall>m \<in> set ms. m \<in> a_methods s \<Longrightarrow> evolves s s'"
proof (induction ms arbitrary: s)
  case (Cons m ms)
  then obtain t where t: "InstallStubsForMethod R m s = Some t" "install_all R ms t = Some s'" by (auto simp: bind_eq_Some_conv)
  have e: "evolves s t" using stubs.op_evolves [OF _ t(1)] Cons.prems by auto
  then have "evolves t s'" using Cons t(2) by (auto intro!: Cons.IH intro: evolves_members evolves_wf)
  then show ?case by (rule evolves_trans [OF e])
qed simp

text \<open>Classes refer to methods of the heap that are no backups.\<close>

definition linked :: "art_runtime \<Rightarrow> art \<Rightarrow> bool" where
  "linked R s \<longleftrightarrow> (\<forall>c. finds_members R c s \<and> has_members R c s)"

lemma evolves_linked: "evolves s s' \<Longrightarrow> hook_wf s \<Longrightarrow> linked R s \<Longrightarrow> linked R s'"
  by (auto simp: linked_def finds_members_def has_members_def evolves_def subset_iff)

lemma linked_member:
  "linked R s \<Longrightarrow> m \<in> set (k_direct (rt_class R c)) \<Longrightarrow> m \<in> a_methods s"
  "linked R s \<Longrightarrow> m \<in> set (k_virtual (rt_class R c)) \<Longrightarrow> m \<in> a_methods s"
  "linked R s \<Longrightarrow> rt_find R c name sig = Some m \<Longrightarrow> m \<in> a_methods s"
  by (auto simp: linked_def has_members_def finds_members_def)

lemma inst_linked [simp]: "linked R (s\<lparr>a_inst := I\<rparr>) = linked R s"
  by (simp add: linked_def finds_members_def has_members_def)

lemma visit_classes_evolves:
  "visit_classes R cs s = Some s' \<Longrightarrow> hook_wf s \<Longrightarrow> linked R s \<Longrightarrow> evolves s s'"
proof (induction cs arbitrary: s)
  case (Cons c cs)
  then obtain t where t: "InstallStubsForClass R c s = Some t" "visit_classes R cs t = Some s'" by (auto simp: bind_eq_Some_conv)
  have e: "evolves s t"
    using t(1) Cons.prems
    by (auto simp: InstallStubsForClass_def linked_def has_members_def intro!: install_all_evolves [of R "k_direct (rt_class R c) @ k_virtual (rt_class R c)"])
  then have "evolves t s'" using Cons t(2) by (auto intro!: Cons.IH intro: evolves_linked evolves_wf)
  then show ?case by (rule evolves_trans [OF e])
qed simp

lemma ConfigureStubs_evolves:
  "ConfigureStubs R a b s = Some s' \<Longrightarrow> hook_wf s \<Longrightarrow> linked R s \<Longrightarrow> evolves s s'"
  by (auto simp: ConfigureStubs_def Let_def bind_eq_Some_conv split: if_splits dest!: visit_classes_evolves)

lemma fixup_direct_evolves:
  "hook_wf s \<Longrightarrow> \<forall>m \<in> set ms. m \<in> a_methods s \<Longrightarrow> evolves s (fixup_direct R oat i ms s)"
proof (induction ms arbitrary: s i)
  case (Cons m ms)
  let ?code = "case oat of None \<Rightarrow> No_code | Some codes \<Rightarrow> if i < length codes then codes ! i else No_code"
  let ?t = "if IsStatic (a_method s m) then fixup_method R m ?code s else s"
  have "evolves s (fixup_method R m ?code s)" by (rule fixing.op_evolves [OF _ refl]) (use Cons.prems in auto)
  then have e: "evolves s ?t" by simp
  then have "evolves ?t (fixup_direct R oat (Suc i) ms ?t)"
    using Cons.prems by (intro Cons.IH) (auto intro: evolves_members evolves_wf)
  from evolves_trans [OF e this] show ?case by simp
qed simp

lemma FixupStaticTrampolines_evolves:
  "hook_wf s \<Longrightarrow> linked R s \<Longrightarrow> evolves s (FixupStaticTrampolines R c s)"
  by (auto simp: FixupStaticTrampolines_def Let_def linked_def has_members_def intro!: fixup_direct_evolves)

lemma Deoptimize_evolves: "Deoptimize R m s = Some s' \<Longrightarrow> evolves s s'"
  by (auto simp: Deoptimize_def Let_def deoptimizable_def IsProxyMethod_def hooked_def split: if_splits
      intro!: UpdateEntrypoints_evolves [THEN evolves_trans [rotated]])

lemma Undeoptimize_evolves: "Undeoptimize R m s = Some s' \<Longrightarrow> evolves s s'"
  by (auto simp: Undeoptimize_def Let_def deoptimizable_def IsProxyMethod_def hooked_def bind_eq_Some_conv split: if_splits
      intro!: UpdateEntrypoints_evolves [THEN evolves_trans [rotated]])

lemma RegisterNatives_evolves:
  "RegisterNatives R c es s = Some (s', r) \<Longrightarrow> hook_wf s \<Longrightarrow> linked R s \<Longrightarrow> evolves s s'"
proof (induction R c es s rule: RegisterNatives.induct)
  case (2 R c name sig fnPtr es s)
  show ?case
  proof (cases "s' = s")
    case False
    then obtain m t where t: "m \<in> a_methods s" "RegisterNative m fnPtr (take 1 sig = ''!'') s = Some t"
      "RegisterNatives R c es t = Some (s', r)"
      and f: "fnPtr \<noteq> 0" "rt_find R c name (if take 1 sig = ''!'' then tl sig else sig) = Some m" "is_native_method s m"
      using 2(2) linked_member(3) [OF 2(4)]
      by (cases "rt_find R c name (if take 1 sig = ''!'' then tl sig else sig)")
        (simp_all add: Let_def bind_eq_Some_conv split: if_splits, blast+)
    have e: "evolves s t" by (rule registering.op_evolves [OF _ t(2)]) (rule t(1))
    have "evolves t s'" using 2(1) [OF refl refl f(1,2) _ t(2,3)] f(3) e 2(3,4) by (auto intro: evolves_linked evolves_wf)
    then show ?thesis by (rule evolves_trans [OF e])
  qed simp
qed auto

lemma unregister_all_evolves:
  "unregister_all R ms s = Some s' \<Longrightarrow> hook_wf s \<Longrightarrow> \<forall>m \<in> set ms. m \<in> a_methods s \<Longrightarrow> evolves s s'"
proof (induction ms arbitrary: s)
  case (Cons m ms)
  show ?case
  proof (cases "is_native_method s m")
    case True
    then obtain t where t: "UnregisterNative R m s = Some t" "unregister_all R ms t = Some s'"
      using Cons.prems by (auto simp: bind_eq_Some_conv)
    have e: "evolves s t" by (rule unregistering.op_evolves [OF _ t(1)]) (use Cons.prems in auto)
    then have "evolves t s'" using Cons t(2) by (auto intro!: Cons.IH intro: evolves_members evolves_wf)
    then show ?thesis by (rule evolves_trans [OF e])
  qed (use Cons in auto)
qed simp

lemma UnregisterNatives_evolves:
  assumes "UnregisterNatives R c s = Some (s', r)" "hook_wf s" "linked R s"
  shows "evolves s s'"
proof -
  obtain t where t: "unregister_all R (k_direct (rt_class R c)) s = Some t" "unregister_all R (k_virtual (rt_class R c)) t = Some s'"
    using assms(1) by (auto simp: UnregisterNatives_def bind_eq_Some_conv)
  have e: "evolves s t" by (rule unregister_all_evolves [OF t(1)]) (use assms(2,3) linked_member(1) in auto)
  have "evolves t s'"
    by (rule unregister_all_evolves [OF t(2)])
       (use assms(2,3) evolves_linked [OF e] evolves_wf [OF e] linked_member(2) in blast)+
  then show ?thesis by (rule evolves_trans [OF e])
qed

lemma call_wf:
  assumes "hook_wf s" "m \<in> a_methods s" "t < length (a_stacks s)"
  shows "evolves s (enter t m s)"
proof -
  have [simp]: "hooked (enter t m s) = hooked s" "original (enter t m s) = original s" "GetXposedHookInfo (enter t m s) = GetXposedHookInfo s"
    "GetXposedOriginalMethod (enter t m s) = GetXposedOriginalMethod s" "a_methods (enter t m s) = a_methods s"
    by (simp_all add: enter_def hooked_def original_def GetXposedOriginalMethod_def GetXposedHookInfo_def fun_eq_iff)
  have f: "frame_ok s (m, entry_quick (a_method s m))"
    using assms(1,2) by (auto simp: frame_ok_def hook_wf_def hooked_ok_def Let_def)
  have "set (a_stacks (enter t m s)) \<subseteq> insert ((m, entry_quick (a_method s m)) # a_stacks s ! t) (set (a_stacks s))"
    by (simp add: enter_def set_update_subset_insert)
  then have "\<forall>st \<in> set (a_stacks (enter t m s)). \<forall>g \<in> set st. frame_ok s g"
    using assms f nth_mem [OF assms(3)] by (fastforce simp: hook_wf_def)
  then have "hook_wf (enter t m s)"
    using assms(1) by (simp add: hook_wf_def hooked_ok_def frame_ok_def) (simp add: enter_def)
  then show ?thesis by (simp add: evolves_def)
qed

lemma return_wf:
  assumes "hook_wf s" "t < length (a_stacks s)"
  shows "evolves s (return_from t s)"
proof -
  have [simp]: "hooked (return_from t s) = hooked s" "original (return_from t s) = original s"
    "GetXposedHookInfo (return_from t s) = GetXposedHookInfo s"
    "GetXposedOriginalMethod (return_from t s) = GetXposedOriginalMethod s" "a_methods (return_from t s) = a_methods s"
    by (simp_all add: return_from_def hooked_def original_def GetXposedOriginalMethod_def GetXposedHookInfo_def fun_eq_iff)
  have tl: "set (tl (a_stacks s ! t)) \<subseteq> set (a_stacks s ! t)" by (cases "a_stacks s ! t") auto
  have "set (a_stacks (return_from t s)) \<subseteq> insert (tl (a_stacks s ! t)) (set (a_stacks s))"
    by (simp add: return_from_def set_update_subset_insert)
  then have "\<forall>st \<in> set (a_stacks (return_from t s)). \<forall>g \<in> set st. frame_ok s g"
    using assms nth_mem [OF assms(2)] tl by (fastforce simp: hook_wf_def)
  then have "hook_wf (return_from t s)"
    using assms(1) by (simp add: hook_wf_def hooked_ok_def frame_ok_def) (simp add: return_from_def)
  then show ?thesis by (simp add: evolves_def)
qed

section \<open>The transition system\<close>

inductive art_step :: "art_runtime \<Rightarrow> art \<Rightarrow> art \<Rightarrow> bool" for R where
  hook: "m \<in> a_methods s \<Longrightarrow> fresh_for N s \<Longrightarrow> EnableXposedHook N m i s = (s', e) \<Longrightarrow> art_step R s s'"
| register: "RegisterNatives R c es s = Some (s', r) \<Longrightarrow> art_step R s s'"
| unregister: "UnregisterNatives R c s = Some (s', r) \<Longrightarrow> art_step R s s'"
| initialized: "art_step R s (FixupStaticTrampolines R c s)"
| instrument: "ConfigureStubs R entry_exit interpreter s = Some s' \<Longrightarrow> art_step R s s'"
| deoptimize: "Deoptimize R m s = Some s' \<Longrightarrow> art_step R s s'"
| undeoptimize: "Undeoptimize R m s = Some s' \<Longrightarrow> art_step R s s'"
| call: "m \<in> a_methods s \<Longrightarrow> t < length (a_stacks s) \<Longrightarrow> art_step R s (enter t m s)"
| return: "t < length (a_stacks s) \<Longrightarrow> art_step R s (return_from t s)"

lemma art_step_evolves:
  assumes "art_step R s s'" "hook_wf s" "linked R s"
  shows "evolves s s'"
  using assms
proof cases
  case (hook m N i e)
  then show ?thesis
    using hook_evolves [of N m s i] by (auto simp: EnableXposedHook_cases can_hook_def split: if_splits)
qed (auto intro: RegisterNatives_evolves UnregisterNatives_evolves FixupStaticTrampolines_evolves ConfigureStubs_evolves
    Deoptimize_evolves Undeoptimize_evolves call_wf return_wf)

lemma art_steps_evolve:
  assumes "(art_step R)\<^sup>*\<^sup>* s s'" "hook_wf s" "linked R s"
  shows "evolves s s' \<and> hook_wf s' \<and> linked R s'"
  using assms(1)
proof induction
  case base
  then show ?case using assms by simp
next
  case (step t u)
  then have "evolves t u" by (auto intro: art_step_evolves)
  then show ?case using step.IH by (auto intro: evolves_trans evolves_linked evolves_wf)
qed

text \<open>
  C17 A hook stays in place.  From any well-formed state, whatever sequence of steps the runtime takes (hooking
  further methods, registering and unregistering native code, initialising classes, installing and removing
  instrumentation, deoptimizing methods, calls and returns of all threads), the state stays well-formed: every hooked
  method leads to the handler and to its own backup, which is the method it was, and no frame of a hooked method
  runs anything but the handler.  No hook is lost and no method changes its backup.
\<close>

theorem hooks_stay:
  assumes "(art_step R)\<^sup>*\<^sup>* s s'" "hook_wf s" "linked R s"
  shows "hook_wf s' \<and>
    (\<forall>m \<in> a_methods s. hooked s m \<longrightarrow> hooked s' m \<and> GetXposedOriginalMethod s' m = GetXposedOriginalMethod s m \<and>
       entry_quick (a_method s' m) = Proxy_invoke_handler)"
proof -
  have e: "evolves s s'" "hook_wf s'" using art_steps_evolve [OF assms] by auto
  then show ?thesis using assms(2) by (auto simp: evolves_def hook_wf_def hooked_ok_def Let_def)
qed

theorem hooks_stay_witness:
  "let s = fst (EnableXposedHook sample_fresh 1 0 sample_state); s' = enter 0 1 (FixupStaticTrampolines sample_runtime 0 s)
   in hook_wf s' \<and> hooked s' 1 \<and> GetXposedOriginalMethod s' 1 = 2 \<and> entry_quick (a_method s' 1) = Proxy_invoke_handler"
proof -
  have c: "can_hook sample_fresh 1 sample_state" using sample_wf by (simp add: can_hook_def) (simp add: samples)
  have s: "fst (EnableXposedHook sample_fresh 1 0 sample_state) = hook_state sample_fresh 1 0 sample_state"
    using c by (simp add: EnableXposedHook_cases can_hook_def)
  let ?s = "hook_state sample_fresh 1 0 sample_state"
  let ?f = "FixupStaticTrampolines sample_runtime 0 ?s"
  have w: "hook_wf ?s" by (rule hook_keeps_wf [OF sample_wf(1) c])
  have l: "linked sample_runtime sample_state"
    using sample_wf by (auto simp: linked_def finds_members_def has_members_def samples)
  have l: "linked sample_runtime ?s" by (rule evolves_linked [OF hook_evolves [OF c] sample_wf(1) l])
  have h: "hooked ?s 1" "GetXposedOriginalMethod ?s 1 = 2" "1 \<in> a_methods ?s"
    using new_hook_info [OF c] hook_flags [OF c] can_hookD [OF c] c
    by (simp_all add: hook_state_sel can_hook_def) (simp add: sample_fresh_def)
  have f: "?f = ?s" by (simp add: FixupStaticTrampolines_def samples)
  have "art_step sample_runtime ?s ?f" by (rule initialized)
  moreover have "art_step sample_runtime ?f (enter 0 1 ?f)"
    unfolding f using h(3) can_hookD [OF c] by (intro call) (simp_all add: hook_state_sel samples)
  ultimately have "(art_step sample_runtime)\<^sup>*\<^sup>* ?s (enter 0 1 ?f)" by simp
  from hooks_stay [OF this w l] show ?thesis using h s by (simp add: Let_def)
qed

section \<open>Deoptimized methods that are hooked\<close>

lemma Undeoptimize_hooked: "hooked s m \<Longrightarrow> Undeoptimize R m s = None"
  by (simp add: Undeoptimize_def deoptimizable_def IsProxyMethod_def hooked_def Let_def)

lemma UpdateEntrypoints_flags [simp]:
  "hooked (UpdateEntrypoints R x code s) = hooked s" "original (UpdateEntrypoints R x code s) = original s"
  "a_methods (UpdateEntrypoints R x code s) = a_methods s" "a_infos (UpdateEntrypoints R x code s) = a_infos s"
  "a_objects (UpdateEntrypoints R x code s) = a_objects s" "a_inst (UpdateEntrypoints R x code s) = a_inst s"
  by (simp_all add: UpdateEntrypoints_eq hooked_def original_def new_code_def fun_eq_iff flag_bits)

lemma Undeoptimize_keeps: "Undeoptimize R x s = Some s' \<Longrightarrow> hooked s' = hooked s"
  by (simp add: Undeoptimize_def Let_def bind_eq_Some_conv split: if_splits) auto

lemma undeoptimize_all_hooked: "m \<in> set ms \<Longrightarrow> hooked s m \<Longrightarrow> undeoptimize_all R ms s = None"
proof (induction ms arbitrary: s)
  case (Cons x ms)
  show ?case
  proof (cases "Undeoptimize R x s")
    case (Some t)
    then have "x \<noteq> m" "hooked t m" using Undeoptimize_hooked Cons.prems Undeoptimize_keeps [OF Some] by auto
    then show ?thesis using Some Cons by simp
  qed simp
qed simp

text \<open>
  C21 A method that the debugger has deoptimized and that is hooked afterwards cannot be undeoptimized any more: the
  check that it is no proxy method fails, as a hooked method counts as one.  Turning deoptimization off when the
  debugger detaches aborts the runtime.
\<close>

theorem hooked_deoptimized_aborts:
  assumes "Deoptimize R m s = Some s1" "m \<in> a_methods s" "\<not> original s m" "fresh_for N s" "\<not> interpreter_stubs (a_inst s)"
  shows "deoptimizable R (a_method s m) \<and>
    (let s2 = fst (EnableXposedHook N m i s1)
     in hooked s2 m \<and> IsDeoptimized s2 m \<and> Undeoptimize R m s2 = None \<and> DisableDeoptimization R s2 = None)"
proof -
  have d: "deoptimizable R (a_method s m)" using assms(1) by (auto simp: Deoptimize_def split: if_splits)
  then have h: "\<not> hooked s m" by (simp add: deoptimizable_def IsProxyMethod_def hooked_def)
  have s1: "hooked s1 = hooked s" "original s1 = original s" "m \<in> set (deoptimized_methods (a_inst s1))"
    "\<not> interpreter_stubs (a_inst s1)" "a_methods s1 = a_methods s" "fresh_for N s1"
    using assms by (auto simp: Deoptimize_def Let_def fresh_for_def split: if_splits)
  then have c: "can_hook N m s1" using assms h by (simp add: can_hook_def)
  let ?s2 = "hook_state N m i s1"
  have "fst (EnableXposedHook N m i s1) = ?s2" using c by (simp add: EnableXposedHook_cases can_hook_def)
  moreover have k: "hooked ?s2 m" "a_inst ?s2 = a_inst s1"
    using hook_flags(1) [OF c] hook_state_sel [OF can_hookD [OF c]] by simp_all
  moreover have "DisableDeoptimization R ?s2 = None"
    using undeoptimize_all_hooked [OF s1(3) k(1)] s1(4) k(2) by (simp add: DisableDeoptimization_def)
  ultimately show ?thesis using d s1(3) Undeoptimize_hooked [OF k(1)] by (simp add: IsDeoptimized_def Let_def)
qed

definition debugged_state :: art where
  "debugged_state = set_method 1 (\<lambda>M. M\<lparr>access_flags := 1\<rparr>) sample_state
     \<lparr>a_inst := (a_inst sample_state)\<lparr>deoptimization_enabled := True\<rparr>\<rparr>"

theorem hooked_deoptimized_aborts_witness:
  "Deoptimize sample_runtime 1 debugged_state \<noteq> None \<and>
    DisableDeoptimization sample_runtime (the (Deoptimize sample_runtime 1 debugged_state)) \<noteq> None \<and>
    DisableDeoptimization sample_runtime
      (fst (EnableXposedHook sample_fresh 1 0 (the (Deoptimize sample_runtime 1 debugged_state)))) = None"
proof -
  note defs = debugged_state_def set_method_def samples Deoptimize_def deoptimizable_def IsProxyMethod_def IsDeoptimized_def
    UpdateEntrypoints_def bridges_to_interpreter_def predicates has_flag_def
  obtain s1 where s1: "Deoptimize sample_runtime 1 debugged_state = Some s1" by (simp add: defs Let_def)
  have "\<not> Option.is_none (DisableDeoptimization sample_runtime (the (Deoptimize sample_runtime 1 debugged_state)))"
    by code_simp
  then have "DisableDeoptimization sample_runtime s1 \<noteq> None" using s1 by (simp add: Option.is_none_def)
  moreover have "\<not> original debugged_state 1" "fresh_for sample_fresh debugged_state" "1 \<in> a_methods debugged_state"
    "\<not> interpreter_stubs (a_inst debugged_state)"
    by (simp_all add: defs original_def fresh_for_def)
  ultimately show ?thesis using s1 hooked_deoptimized_aborts [OF s1, of sample_fresh 0] by (simp add: Let_def)
qed

end
