(* ===== verification/ArtHook.thy ===== *)
theory ArtHook
  imports Instrumentation
begin

text \<open>
  Calls of hooked methods: from the entry point of the method through the handler
  (\<open>entrypoints/quick/quick_trampoline_entrypoints.cc\<close>, \<open>entrypoints/entrypoint_utils.cc\<close>) to the Java callback,
  and from there through \<open>invokeOriginalMethodNative\<close> (\<open>src/Xposed-master/libxposed_art.cpp\<close>) and \<open>InvokeMethod\<close>
  (\<open>reflection.cc\<close>) back to the original code.

  The code of methods that are not hooked, what the Java callback does, class initialisation and allocation are
  arguments.  Code runs on the data of its method; it does not look at the flag that marks backups.
\<close>

section \<open>The surroundings of a call\<close>

record surroundings =
  e_heap :: heap
  e_class :: "oref \<Rightarrow> nat"
  e_instance :: "oref \<Rightarrow> nat \<Rightarrow> bool"
  e_initialize :: "nat \<Rightarrow> exn option"
  e_run :: "art_method \<Rightarrow> u32 list \<Rightarrow> exn + jvalue"
  e_proxy :: "oref \<Rightarrow> u32 list \<Rightarrow> exn + jvalue"
  e_new_array :: "nat \<Rightarrow> bool"
  e_sdk :: int
  e_stack_left :: bool
  e_caller :: "nat option"
  e_same_package :: "nat \<Rightarrow> nat \<Rightarrow> bool"
  e_assignable :: "nat \<Rightarrow> nat \<Rightarrow> bool"

text \<open>\<open>XposedBridge.handleHookedMethod\<close>: member, marker, additional info, receiver, arguments.\<close>

type_synonym java_handler = "oref \<Rightarrow> u32 \<Rightarrow> oref \<Rightarrow> oref \<Rightarrow> oref list option \<Rightarrow> exn + oref"

definition GetShorty :: "art_runtime \<Rightarrow> art_method \<Rightarrow> string" where
  "GetShorty R M = rt_shorty R (declaring_class M) (dex_method_index M)"

definition GetParameterTypeList :: "art_runtime \<Rightarrow> art_method \<Rightarrow> string list" where
  "GetParameterTypeList R M = rt_params R (declaring_class M) (dex_method_index M)"

definition GetReturnType :: "art_runtime \<Rightarrow> art_method \<Rightarrow> jtype" where
  "GetReturnType R M = rt_return R (declaring_class M) (dex_method_index M)"

fun GetPrimitiveType :: "jtype \<Rightarrow> Prim" where
  "GetPrimitiveType (Primitive_type p) = p"
| "GetPrimitiveType (Class_type _) = kPrimNot"

section \<open>From the entry point to the callback\<close>

text \<open>
  The arguments in the order of the signature, a pair of words for each wide one.  Which of them are in registers and which
  on the stack of the caller is a matter of the calling convention of the processor, below this list of words.
\<close>

fun visit_args :: "string \<Rightarrow> u32 list \<Rightarrow> jvalue list" where
  "visit_args [] ws = []"
| "visit_args (c # cs) ws =
     (case GetType c of
        kPrimLong \<Rightarrow> (ucast (ws ! 0) OR push_bit 32 (ucast (ws ! 1))) # visit_args cs (drop 2 ws)
      | kPrimDouble \<Rightarrow> (ucast (ws ! 0) OR push_bit 32 (ucast (ws ! 1))) # visit_args cs (drop 2 ws)
      | _ \<Rightarrow> ucast (ws ! 0) # visit_args cs (drop 1 ws))"

definition needs_array :: "surroundings \<Rightarrow> nat \<Rightarrow> bool" where
  "needs_array E n \<longleftrightarrow> n > 0 \<or> e_sdk E > 0 \<and> e_sdk E \<le> 21"

definition args_array :: "surroundings \<Rightarrow> string \<Rightarrow> jvalue list \<Rightarrow> exn + oref list option" where
  "args_array E shorty args =
     (if needs_array E (length args)
      then (if \<not> e_new_array E (length args) then Inl OutOfMemory
            else case box_args (e_heap E) (tl shorty) args of None \<Rightarrow> Inl OutOfMemory | Some os \<Rightarrow> Inr (Some os))
      else Inr None)"

definition InvokeXposedHandleHookedMethod ::
    "surroundings \<Rightarrow> art_runtime \<Rightarrow> java_handler \<Rightarrow> art \<Rightarrow> string \<Rightarrow> oref \<Rightarrow> oref \<Rightarrow> jvalue list \<Rightarrow> exn + jvalue" where
  "InvokeXposedHandleHookedMethod E R callback s shorty rcvr m args =
     (case args_array E shorty args of
        Inl e \<Rightarrow> Inl e
      | Inr args_jobj \<Rightarrow>
          let hookInfo = GetXposedHookInfo s m
          in case callback (reflectedMethod hookInfo) 1 (additionalInfo hookInfo) rcvr args_jobj of
               Inl e \<Rightarrow> Inl e
             | Inr result \<Rightarrow>
                 if hd shorty = CHR ''V'' \<or> hd shorty = CHR ''L'' \<and> result = 0 then Inr 0
                 else UnboxPrimitiveForResult (e_heap E) result (GetReturnType R (a_method s m)))"

definition artQuickProxyInvokeHandler ::
    "surroundings \<Rightarrow> art_runtime \<Rightarrow> java_handler \<Rightarrow> art \<Rightarrow> oref \<Rightarrow> u32 list \<Rightarrow> exn + jvalue" where
  "artQuickProxyInvokeHandler E R callback s m ws =
     (let M = a_method s m; is_static = IsStatic M; shorty = GetShorty R M;
          rcvr = (if is_static then 0 else ws ! 0);
          args = visit_args (tl shorty) (if is_static then ws else drop 1 ws)
      in if IsXposedHookedMethod M then map_sum id GetJ (InvokeXposedHandleHookedMethod E R callback s shorty rcvr m args)
         else e_proxy E m ws)"

text \<open>\<open>ArtMethod::Invoke\<close> in the started runtime, and what the entry points lead to.\<close>

definition Invoke :: "surroundings \<Rightarrow> art_runtime \<Rightarrow> java_handler \<Rightarrow> art \<Rightarrow> oref \<Rightarrow> u32 list \<Rightarrow> exn + jvalue" where
  "Invoke E R callback s m ws =
     (let M = a_method s m
      in if \<not> e_stack_left E then Inl StackOverflow
         else case entry_quick M of
                No_code \<Rightarrow> Inr (SetJ 0 0)
              | Proxy_invoke_handler \<Rightarrow> artQuickProxyInvokeHandler E R callback s m ws
              | _ \<Rightarrow> e_run E (unbackup M) ws)"

section \<open>From the callback to the original code\<close>

fun interface_methods :: "(nat \<times> oref list) list \<Rightarrow> nat \<Rightarrow> oref list option" where
  "interface_methods [] c = None"
| "interface_methods ((i, ms) # ts) c = (if i = c then Some ms else interface_methods ts c)"

definition FindVirtualMethodForInterface :: "art_runtime \<Rightarrow> nat \<Rightarrow> art_method \<Rightarrow> oref" where
  "FindVirtualMethodForInterface R c M =
     (case interface_methods (k_iftable (rt_class R c)) (declaring_class M) of
        None \<Rightarrow> 0
      | Some ms \<Rightarrow> if unat (method_index M) < length ms then ms ! unat (method_index M) else 0)"

definition FindVirtualMethodForVirtual :: "art_runtime \<Rightarrow> nat \<Rightarrow> art_method \<Rightarrow> oref" where
  "FindVirtualMethodForVirtual R c M =
     (let v = k_vtable (rt_class R c) in if unat (method_index M) < length v then v ! unat (method_index M) else 0)"

definition FindVirtualMethodForVirtualOrInterface :: "art_runtime \<Rightarrow> art \<Rightarrow> nat \<Rightarrow> oref \<Rightarrow> oref" where
  "FindVirtualMethodForVirtualOrInterface R s c m =
     (let M = a_method s m
      in if IsDirect False M then m
         else if k_interface (rt_class R (declaring_class M)) \<and> \<not> IsMiranda M then FindVirtualMethodForInterface R c M
         else FindVirtualMethodForVirtual R c M)"

definition VerifyObjectIsClass :: "surroundings \<Rightarrow> oref \<Rightarrow> nat \<Rightarrow> exn option" where
  "VerifyObjectIsClass E obj c =
     (if obj = 0 then Some NullPointer else if \<not> e_instance E obj c then Some IllegalArgument else None)"

definition VerifyAccess :: "surroundings \<Rightarrow> oref \<Rightarrow> nat \<Rightarrow> art_method \<Rightarrow> bool" where
  "VerifyAccess E obj c M =
     (if has_flag kAccPublic M then True
      else case e_caller E of
             None \<Rightarrow> False
           | Some caller \<Rightarrow>
               if caller = c then True
               else if has_flag kAccPrivate M then False
               else if has_flag kAccProtected M \<and> obj \<noteq> 0 \<and> \<not> e_instance E obj caller \<and> \<not> e_same_package E c caller then False
               else if has_flag kAccProtected M \<and> e_assignable E c caller then True
               else e_same_package E c caller)"

text \<open>A null result for a primitive type leaves the exception of \<open>valueOf\<close> pending.\<close>

definition box_result :: "surroundings \<Rightarrow> Prim \<Rightarrow> jvalue \<Rightarrow> exn + oref" where
  "box_result E p result =
     (let obj = BoxPrimitive (e_heap E) p result
      in if obj = 0 \<and> p \<noteq> kPrimNot \<and> p \<noteq> kPrimVoid then Inl OutOfMemory else Inr obj)"

definition InvokeMethod ::
    "surroundings \<Rightarrow> art_runtime \<Rightarrow> java_handler \<Rightarrow> art \<Rightarrow> oref \<Rightarrow> oref \<Rightarrow> oref list option \<Rightarrow> bool \<Rightarrow> exn + oref" where
  "InvokeMethod E R callback s javaMethod javaReceiver javaArgs accessible =
     (if \<not> e_stack_left E then Inl StackOverflow
      else
        let m0 = FromReflectedMethod s javaMethod; M0 = a_method s m0; c = declaring_class M0;
            receiver = (if IsStatic M0 then 0 else javaReceiver);
            m = (if IsStatic M0 then m0 else FindVirtualMethodForVirtualOrInterface R s (e_class E receiver) m0);
            M = a_method s m;
            objects = (case javaArgs of None \<Rightarrow> [] | Some os \<Rightarrow> os);
            classes = GetParameterTypeList R M
        in case (if k_initialized (rt_class R c) then None else e_initialize E c) of
             Some e \<Rightarrow> Inl e
           | None \<Rightarrow>
               case (if IsStatic M0 then None else VerifyObjectIsClass E receiver c) of
                 Some e \<Rightarrow> Inl e
               | None \<Rightarrow>
                   if length objects \<noteq> length classes then Inl IllegalArgument
                   else if \<not> accessible \<and> \<not> VerifyAccess E receiver c M then Inl IllegalAccess
                   else case BuildArgArrayFromObjectArray (e_heap E) (GetShorty R M) classes receiver objects of
                          Inl e \<Rightarrow> Inl e
                        | Inr ws \<Rightarrow>
                            (case Invoke E R callback s m ws of
                               Inl e \<Rightarrow> Inl (InvocationTarget e)
                             | Inr result \<Rightarrow> box_result E (GetPrimitiveType (GetReturnType R M)) result))"

section \<open>The natives of the framework\<close>

definition hookMethodNative :: "fresh \<Rightarrow> oref \<Rightarrow> oref \<Rightarrow> art \<Rightarrow> art \<times> exn option" where
  "hookMethodNative N javaReflectedMethod javaAdditionalInfo s =
     (if javaReflectedMethod = 0 then (s, Some IllegalArgument)
      else EnableXposedHook N (FromReflectedMethod s javaReflectedMethod) javaAdditionalInfo s)"

definition invokeOriginalMethodNative ::
    "surroundings \<Rightarrow> art_runtime \<Rightarrow> java_handler \<Rightarrow> art \<Rightarrow> oref \<Rightarrow> u32 \<Rightarrow> oref \<Rightarrow> oref list option \<Rightarrow> exn + oref" where
  "invokeOriginalMethodNative E R callback s javaMethod isResolved javaReceiver javaArgs =
     (let m = FromReflectedMethod s javaMethod;
          method = (if isResolved = 0 \<and> IsXposedHookedMethod (a_method s m) then reflectedMethod (GetXposedHookInfo s m) else javaMethod)
      in InvokeMethod E R callback s method javaReceiver javaArgs True)"

section \<open>Arguments in frames\<close>

text \<open>
  The words of a call fit the types of the method: small integers are extended to a word the way compiled code
  does it, references are null or of the class of the parameter.
\<close>

definition word_ok :: "heap \<Rightarrow> char \<Rightarrow> string \<Rightarrow> u32 \<Rightarrow> bool" where
  "word_ok H c cls w \<longleftrightarrow>
     shorty_char c \<and> (c = CHR ''Z'' \<longrightarrow> w = 0 \<or> w = 1) \<and>
     (c = CHR ''B'' \<longrightarrow> scast (ucast w :: byte) = w) \<and> (c = CHR ''S'' \<longrightarrow> scast (ucast w :: u16) = w) \<and>
     (c = CHR ''C'' \<longrightarrow> ucast (ucast w :: u16) = w) \<and> (c = CHR ''L'' \<longrightarrow> w = 0 \<or> h_instance H w cls)"

fun args_ok :: "heap \<Rightarrow> string \<Rightarrow> string list \<Rightarrow> u32 list \<Rightarrow> bool" where
  "args_ok H [] [] ws \<longleftrightarrow> ws = []"
| "args_ok H (c # cs) (cls # clss) (w # ws) \<longleftrightarrow>
     (if wide_char c then ws \<noteq> [] \<and> args_ok H cs clss (tl ws) else word_ok H c cls w \<and> args_ok H cs clss ws)"
| "args_ok H _ _ _ \<longleftrightarrow> False"

lemma split_join:
  "(ucast (ucast (l :: u32) OR push_bit 32 (ucast (h :: u32)) :: u64) :: u32) = l"
  "(ucast (drop_bit 32 (ucast l OR push_bit 32 (ucast h) :: u64)) :: u32) = h"
  by (rule bit_eqI; auto simp: bit_simps dest: bit_imp_le_length)+

lemma wide_join: "wide (ucast l OR push_bit 32 (ucast h)) = [l, h]"
  unfolding wide_def split_join ..

lemma narrow_again:
  "(ucast (ucast (w :: u32) :: u64) :: byte) = ucast w" "(ucast (ucast (w :: u32) :: u64) :: u16) = ucast w"
  by (rule bit_eqI; auto simp: bit_simps)+

lemma visited_narrow:
  assumes "word_ok H c cls w" "\<not> wide_char c"
  shows "jvalue_arg c (ucast w) = [w]" "typed_arg H c cls (ucast w)"
proof -
  have "shorty_char c" using assms(1) unfolding word_ok_def by blast
  then have c: "c \<in> {CHR ''Z'', CHR ''B'', CHR ''C'', CHR ''S'', CHR ''I'', CHR ''F'', CHR ''L''}"
    using assms(2) by (auto simp: shorty_char_def)
  have k: "c = CHR ''Z'' \<Longrightarrow> w = 0 \<or> w = 1" "c = CHR ''B'' \<Longrightarrow> scast (ucast w :: byte) = w"
    "c = CHR ''S'' \<Longrightarrow> scast (ucast w :: u16) = w" "c = CHR ''C'' \<Longrightarrow> ucast (ucast w :: u16) = w"
    using assms(1) unfolding word_ok_def by blast+
  from c show "jvalue_arg c (ucast w) = [w]"
  proof (elim insertE emptyE)
    assume c: "c = CHR ''Z''"
    then have "jvalue_arg c (ucast w) = [ucast (GetZ (ucast w))]" by (simp add: jvalue_arg_def)
    then show ?thesis using k(1) [OF c] by (auto simp: GetZ_def)
  next
    assume c: "c = CHR ''B''"
    then have "jvalue_arg c (ucast w) = [scast (GetB (ucast w))]" by (simp add: jvalue_arg_def)
    then show ?thesis using k(2) [OF c] by (simp only: GetB_def narrow_again)
  next
    assume c: "c = CHR ''C''"
    then have "jvalue_arg c (ucast w) = [ucast (GetC (ucast w))]" by (simp add: jvalue_arg_def)
    then show ?thesis using k(4) [OF c] by (simp only: GetC_def narrow_again)
  next
    assume c: "c = CHR ''S''"
    then have "jvalue_arg c (ucast w) = [scast (GetS (ucast w))]" by (simp add: jvalue_arg_def)
    then show ?thesis using k(3) [OF c] by (simp only: GetS_def narrow_again)
  qed (simp_all add: jvalue_arg_def GetI_def GetL_def narrow_word)
  show "typed_arg H c cls (ucast w)"
    using assms(1) unfolding word_ok_def typed_arg_def tidy_def GetI_def GetL_def narrow_word by blast
qed

lemma visited_args:
  "args_ok H cs clss ws \<Longrightarrow>
     concat (map2 jvalue_arg cs (visit_args cs ws)) = ws \<and> length (visit_args cs ws) = length cs \<and> length clss = length cs \<and>
     list_all2 (\<lambda>(c, cls) v. typed_arg H c cls v) (zip cs clss) (visit_args cs ws)"
proof (induction H cs clss ws rule: args_ok.induct)
  case (2 H c cs cls clss w ws)
  show ?case
  proof (cases "wide_char c")
    case True
    then obtain h ws' where ws: "ws = h # ws'" using 2(3) by (cases ws) auto
    have v: "visit_args (c # cs) (w # ws) = (ucast w OR push_bit 32 (ucast h)) # visit_args cs ws'"
      using True ws by (auto simp: GetType_def)
    have "jvalue_arg c (ucast w OR push_bit 32 (ucast h)) = [w, h]"
      using True by (auto simp: jvalue_arg_def GetJ_def wide_join)
    moreover have "typed_arg H c cls (ucast w OR push_bit 32 (ucast h))"
      using True by (auto simp: typed_arg_def tidy_def shorty_char_def)
    ultimately show ?thesis using 2(1) [OF True] 2(3) True ws unfolding v by simp
  next
    case False
    then have w: "word_ok H c cls w" and k: "args_ok H cs clss ws" using 2(3) by auto
    have "GetType c \<notin> {kPrimLong, kPrimDouble}" using False by (auto simp: GetType_def)
    then have v: "visit_args (c # cs) (w # ws) = ucast w # visit_args cs ws" by (cases "GetType c") auto
    show ?thesis using 2(2) [OF False k] visited_narrow [OF w False] unfolding v by simp
  qed
qed auto

section \<open>The way back\<close>

definition receiver_of :: "art_method \<Rightarrow> u32 list \<Rightarrow> oref" where
  "receiver_of M ws = (if IsStatic M then 0 else ws ! 0)"

definition arg_words :: "art_method \<Rightarrow> u32 list \<Rightarrow> u32 list" where
  "arg_words M ws = (if IsStatic M then ws else drop 1 ws)"

text \<open>The call fits the method, its class is or can be initialised, and there is memory for the boxes.\<close>

definition call_ok :: "surroundings \<Rightarrow> art_runtime \<Rightarrow> art_method \<Rightarrow> u32 list \<Rightarrow> oref list option \<Rightarrow> bool" where
  "call_ok E R M ws boxed \<longleftrightarrow>
     boxing_law (e_heap E) \<and> e_stack_left E \<and>
     (k_initialized (rt_class R (declaring_class M)) \<or> e_initialize E (declaring_class M) = None) \<and>
     GetShorty R M \<noteq> [] \<and>
     (\<not> IsStatic M \<longrightarrow> ws \<noteq> [] \<and> VerifyObjectIsClass E (hd ws) (declaring_class M) = None) \<and>
     args_ok (e_heap E) (tl (GetShorty R M)) (GetParameterTypeList R M) (arg_words M ws) \<and>
     args_array E (GetShorty R M) (visit_args (tl (GetShorty R M)) (arg_words M ws)) = Inr boxed"

definition unbox_result :: "surroundings \<Rightarrow> art_runtime \<Rightarrow> art_method \<Rightarrow> oref \<Rightarrow> exn + jvalue" where
  "unbox_result E R M result =
     (if hd (GetShorty R M) = CHR ''V'' \<or> hd (GetShorty R M) = CHR ''L'' \<and> result = 0 then Inr 0
      else UnboxPrimitiveForResult (e_heap E) result (GetReturnType R M))"

lemma hooked_call:
  assumes "hook_wf s" "m \<in> a_methods s" "hooked s m" "call_ok E R (a_method s m) ws boxed"
  shows "Invoke E R callback s m ws =
    (case callback (reflectedMethod (GetXposedHookInfo s m)) 1 (additionalInfo (GetXposedHookInfo s m))
            (receiver_of (a_method s m) ws) boxed of
       Inl e \<Rightarrow> Inl e
     | Inr result \<Rightarrow> unbox_result E R (a_method s m) result)"
proof -
  have h: "entry_quick (a_method s m) = Proxy_invoke_handler" "IsXposedHookedMethod (a_method s m)"
    using assms by (auto simp: hook_wf_def hooked_ok_def hooked_def Let_def)
  have "map_sum id GetJ r = r" for r :: "exn + jvalue" by (cases r) (simp_all add: GetJ_def)
  then show ?thesis
    using assms(4) h
    by (simp add: Invoke_def artQuickProxyInvokeHandler_def InvokeXposedHandleHookedMethod_def call_ok_def receiver_of_def
        arg_words_def unbox_result_def Let_def split: sum.split)
qed

lemma boxed_args:
  assumes "call_ok E R M ws boxed"
  shows "object_args (e_heap E) (tl (GetShorty R M)) (GetParameterTypeList R M) (case boxed of None \<Rightarrow> [] | Some os \<Rightarrow> os) =
      Inr (arg_words M ws) \<and>
    length (case boxed of None \<Rightarrow> [] | Some os \<Rightarrow> os) = length (GetParameterTypeList R M)"
proof -
  let ?cs = "tl (GetShorty R M)"
  note v = visited_args [of "e_heap E" ?cs "GetParameterTypeList R M" "arg_words M ws"]
  show ?thesis
  proof (cases boxed)
    case None
    then have "visit_args ?cs (arg_words M ws) = []"
      using assms by (auto simp: call_ok_def args_array_def needs_array_def split: if_splits option.splits)
    then show ?thesis using None v assms by (auto simp: call_ok_def)
  next
    case (Some os)
    then have b: "box_args (e_heap E) ?cs (visit_args ?cs (arg_words M ws)) = Some os"
      using assms by (auto simp: call_ok_def args_array_def split: if_splits option.splits)
    then show ?thesis
      using boxed_args_build [OF _ b] v assms Some by (auto simp: call_ok_def)
  qed
qed

text \<open>The backup is called directly, without a look at the vtable, with exactly the words of the hooked call.\<close>

lemma original_call:
  assumes "hook_wf s" "m \<in> a_methods s" "hooked s m" "call_ok E R (a_method s m) ws boxed"
  shows "invokeOriginalMethodNative E R callback s (reflectedMethod (GetXposedHookInfo s m)) 1 (receiver_of (a_method s m) ws) boxed =
    (case Invoke E R callback s (GetXposedOriginalMethod s m) ws of
       Inl e \<Rightarrow> Inl (InvocationTarget e)
     | Inr result \<Rightarrow> box_result E (GetPrimitiveType (GetReturnType R (a_method s m))) result)"
proof -
  let ?M = "a_method s m" and ?b = "GetXposedOriginalMethod s m"
  let ?B = "a_method s ?b"
  have ok: "hooked_ok s m" using assms by (simp add: hook_wf_def)
  have r: "FromReflectedMethod s (reflectedMethod (GetXposedHookInfo s m)) = ?b"
    using ok by (simp add: hooked_ok_def FromReflectedMethod_def Let_def)
  have B: "IsStatic ?B = IsStatic ?M" "declaring_class ?B = declaring_class ?M" "dex_method_index ?B = dex_method_index ?M"
    "IsXposedOriginalMethod ?B"
    using ok by (simp_all add: hooked_ok_def same_dex_def Let_def)
  then have g: "GetShorty R ?B = GetShorty R ?M" "GetParameterTypeList R ?B = GetParameterTypeList R ?M"
    "GetReturnType R ?B = GetReturnType R ?M"
    by (simp_all add: GetShorty_def GetParameterTypeList_def GetReturnType_def)
  have d: "IsDirect False ?B"
  proof -
    have "access_flags ?B AND (kAccStatic OR kAccPrivate OR kAccConstructor OR kAccXposedOriginalMethod) \<noteq> 0"
    proof
      assume "access_flags ?B AND (kAccStatic OR kAccPrivate OR kAccConstructor OR kAccXposedOriginalMethod) = 0"
      then have "\<not> bit (access_flags ?B AND (kAccStatic OR kAccPrivate OR kAccConstructor OR kAccXposedOriginalMethod)) 29" by simp
      then show False using B(4) unfolding bit_and_iff bit_or_iff bit_flag_constant by (simp add: flag_bits)
    qed
    then show ?thesis by (simp add: IsDirect_def Let_def)
  qed
  have w: "ws = (if receiver_of ?M ws \<noteq> 0 then [receiver_of ?M ws] else []) @ arg_words ?M ws"
    using assms(4) by (cases ws) (auto simp: call_ok_def receiver_of_def arg_words_def VerifyObjectIsClass_def split: if_splits)
  then have a: "BuildArgArrayFromObjectArray (e_heap E) (GetShorty R ?M) (GetParameterTypeList R ?M) (receiver_of ?M ws)
      (case boxed of None \<Rightarrow> [] | Some os \<Rightarrow> os) = Inr ws"
    using boxed_args [OF assms(4)] by (simp add: BuildArgArrayFromObjectArray_def)
  have rcv: "(if IsStatic ?M then 0 else receiver_of ?M ws) = receiver_of ?M ws" by (simp add: receiver_of_def)
  have verify: "VerifyObjectIsClass E (receiver_of ?M ws) (declaring_class ?M) = None" if "\<not> IsStatic ?M"
    using assms(4) that by (auto simp: call_ok_def receiver_of_def hd_conv_nth)
  have init: "k_initialized (rt_class R (declaring_class ?M)) \<or> e_initialize E (declaring_class ?M) = None" "e_stack_left E"
    using assms(4) by (auto simp: call_ok_def)
  have t: "FindVirtualMethodForVirtualOrInterface R s c ?b = ?b" for c
    using d by (simp add: FindVirtualMethodForVirtualOrInterface_def)
  show ?thesis
    using boxed_args [OF assms(4)] init rcv verify a
    by (cases "IsStatic ?M"; cases "k_initialized (rt_class R (declaring_class ?M))")
       (simp_all add: invokeOriginalMethodNative_def InvokeMethod_def Let_def r B(1,2) g t cong: sum.case_cong)
qed

section \<open>Results\<close>

text \<open>The result is of the type the method declares, and there is memory for its box.\<close>

definition result_ok :: "surroundings \<Rightarrow> art_runtime \<Rightarrow> art_method \<Rightarrow> jvalue \<Rightarrow> bool" where
  "result_ok E R M v \<longleftrightarrow>
     (case GetReturnType R M of
        Class_type cls \<Rightarrow> hd (GetShorty R M) = CHR ''L'' \<and> (GetL v = 0 \<or> h_instance (e_heap E) (GetL v) cls)
      | Primitive_type p \<Rightarrow>
          hd (GetShorty R M) \<noteq> CHR ''L'' \<and> GetType (hd (GetShorty R M)) = p \<and> p \<noteq> kPrimNot \<and>
          (p = kPrimBoolean \<longrightarrow> GetI v = 0 \<or> GetI v = 1) \<and> (p \<noteq> kPrimVoid \<longrightarrow> BoxPrimitive (e_heap E) p v \<noteq> 0))"

lemma boxed_result:
  assumes "boxing_law (e_heap E)" "result_ok E R M v"
  shows "\<exists>obj w. box_result E (GetPrimitiveType (GetReturnType R M)) v = Inr obj \<and> unbox_result E R M obj = Inr w \<and>
    same_value (GetPrimitiveType (GetReturnType R M)) w v"
proof (cases "GetReturnType R M")
  case (Class_type cls)
  then show ?thesis
    using assms(2)
    by (auto simp: result_ok_def box_result_def unbox_result_def BoxPrimitive_def UnboxPrimitiveForResult_def UnboxPrimitive_def
        same_value_def GetL_def SetL_def ucast_set_low)
next
  case (Primitive_type p)
  show ?thesis
  proof (cases "p = kPrimVoid")
    case True
    then have "hd (GetShorty R M) = CHR ''V''"
      using assms(2) Primitive_type by (auto simp: result_ok_def GetType_def split: if_splits)
    then show ?thesis using True Primitive_type by (simp add: box_result_def unbox_result_def BoxPrimitive_def same_value_def)
  next
    case False
    then have p: "boxable p" "BoxPrimitive (e_heap E) p v \<noteq> 0" "hd (GetShorty R M) \<noteq> CHR ''L''" "hd (GetShorty R M) \<noteq> CHR ''V''"
      "p = kPrimBoolean \<Longrightarrow> GetI v = 0 \<or> GetI v = 1"
      using assms(2) Primitive_type by (auto simp: result_ok_def boxable_def GetType_def)
    show ?thesis
      using unbox_box [OF assms(1) p(1,2)] canonical_same_value [of p v] p Primitive_type
      by (auto simp: box_result_def unbox_result_def)
  qed
qed

end
