(* ===== verification/XposedBridge.thy ===== *)
theory XposedBridge
  imports ArtHook
begin

text \<open>
  The Java side of the hooks (\<open>src/XposedBridge-art/src/de/robv/android/xposed\<close>: \<open>XposedBridge.java\<close>,
  \<open>XC_MethodHook.java\<close>, \<open>XC_MethodReplacement.java\<close>, \<open>callbacks/XCallback.java\<close>): the sorted sets of callbacks, the
  registration of callbacks, and \<open>handleHookedMethod\<close>, which runs them around the original method.

  A callback is its priority, its identity hash code and what it does to the parameter object before and after
  the call; it may throw.  Callbacks are compared by identity.  \<open>Arrays.sort\<close> is a stable insertion sort, which
  gives the result of any stable sort as long as the comparison is consistent; where differences of priorities overflow, the
  library may give another order for three or more elements, or reject the comparison with an exception.
\<close>

section \<open>The parameter object\<close>

record param =
  p_method :: oref
  p_this :: oref
  p_args :: "oref list option"
  p_result :: oref
  p_throwable :: "exn option"
  p_returnEarly :: bool

definition setResult :: "oref \<Rightarrow> param \<Rightarrow> param" where
  "setResult r p = p\<lparr>p_result := r, p_throwable := None, p_returnEarly := True\<rparr>"

definition setThrowable :: "exn option \<Rightarrow> param \<Rightarrow> param" where
  "setThrowable t p = p\<lparr>p_throwable := t, p_result := 0, p_returnEarly := True\<rparr>"

definition hasThrowable :: "param \<Rightarrow> bool" where
  "hasThrowable p \<longleftrightarrow> p_throwable p \<noteq> None"

definition getResultOrThrowable :: "param \<Rightarrow> exn + oref" where
  "getResultOrThrowable p = (case p_throwable p of Some t \<Rightarrow> Inl t | None \<Rightarrow> Inr (p_result p))"

section \<open>Callbacks\<close>

type_synonym action = "param \<Rightarrow> param \<times> exn option"

record callback =
  cb_id :: nat
  cb_priority :: u32
  cb_hash :: u32
  cb_before :: action
  cb_after :: action

abbreviation (input) PRIORITY_DEFAULT :: u32 where "PRIORITY_DEFAULT \<equiv> 50"
abbreviation (input) PRIORITY_LOWEST :: u32 where "PRIORITY_LOWEST \<equiv> - 10000"
abbreviation (input) PRIORITY_HIGHEST :: u32 where "PRIORITY_HIGHEST \<equiv> 10000"

definition compareTo :: "callback \<Rightarrow> callback \<Rightarrow> u32" where
  "compareTo this other =
     (if cb_id this = cb_id other then 0
      else if cb_priority other \<noteq> cb_priority this then cb_priority other - cb_priority this
      else if sint (cb_hash this) < sint (cb_hash other) then - 1 else 1)"

text \<open>A replacement: its own code in place of the method.\<close>

definition replacement_before :: "(param \<Rightarrow> exn + oref) \<Rightarrow> action" where
  "replacement_before replaceHookedMethod p =
     (case replaceHookedMethod p of Inr result \<Rightarrow> (setResult result p, None) | Inl t \<Rightarrow> (setThrowable (Some t) p, None))"

definition replacement :: "nat \<Rightarrow> u32 \<Rightarrow> u32 \<Rightarrow> (param \<Rightarrow> exn + oref) \<Rightarrow> callback" where
  "replacement i h priority replaceHookedMethod =
     \<lparr>cb_id = i, cb_priority = priority, cb_hash = h, cb_before = replacement_before replaceHookedMethod, cb_after = (\<lambda>p. (p, None))\<rparr>"

definition DO_NOTHING :: "nat \<Rightarrow> u32 \<Rightarrow> callback" where
  "DO_NOTHING i h = replacement i h (PRIORITY_HIGHEST * 2) (\<lambda>_. Inr 0)"

definition returnConstant :: "nat \<Rightarrow> u32 \<Rightarrow> u32 \<Rightarrow> oref \<Rightarrow> callback" where
  "returnConstant i h priority result = replacement i h priority (\<lambda>_. Inr result)"

section \<open>Sorted sets of callbacks\<close>

fun sort_insert :: "callback \<Rightarrow> callback list \<Rightarrow> callback list" where
  "sort_insert x [] = [x]"
| "sort_insert x (y # ys) = (if sint (compareTo x y) < 0 then x # y # ys else y # sort_insert x ys)"

definition arrays_sort :: "callback list \<Rightarrow> callback list" where
  "arrays_sort xs = foldl (\<lambda>acc x. sort_insert x acc) [] xs"

fun indexOf :: "callback \<Rightarrow> callback list \<Rightarrow> nat option" where
  "indexOf e [] = None"
| "indexOf e (x # xs) = (if cb_id e = cb_id x then Some 0 else map_option Suc (indexOf e xs))"

definition set_add :: "callback \<Rightarrow> callback list \<Rightarrow> callback list \<times> bool" where
  "set_add e elements =
     (case indexOf e elements of Some _ \<Rightarrow> (elements, False) | None \<Rightarrow> (arrays_sort (elements @ [e]), True))"

definition set_remove :: "callback \<Rightarrow> callback list \<Rightarrow> callback list \<times> bool" where
  "set_remove e elements =
     (case indexOf e elements of
        None \<Rightarrow> (elements, False)
      | Some index \<Rightarrow> (take index elements @ drop (index + 1) elements, True))"

text \<open>\<open>XCallback.callAll\<close>: what a callback throws is logged and otherwise ignored.\<close>

fun callAll :: "callback list \<Rightarrow> param \<Rightarrow> param" where
  "callAll [] p = p"
| "callAll (c # cs) p = callAll cs (fst (cb_before c p))"

section \<open>The handler\<close>

type_synonym native = "oref \<Rightarrow> u32 \<Rightarrow> oref \<Rightarrow> oref list option \<Rightarrow> exn + oref"

text \<open>The callbacks before the call; the second component are those that have been called.\<close>

fun run_before :: "callback list \<Rightarrow> param \<Rightarrow> param \<times> callback list" where
  "run_before [] p = (p, [])"
| "run_before (c # cs) p =
     (case cb_before c p of
        (p', Some t) \<Rightarrow> let (q, called) = run_before cs ((setResult 0 p')\<lparr>p_returnEarly := False\<rparr>) in (q, c # called)
      | (p', None) \<Rightarrow>
          if p_returnEarly p' then (p', [c])
          else let (q, called) = run_before cs p' in (q, c # called))"

fun run_after :: "callback list \<Rightarrow> param \<Rightarrow> param" where
  "run_after [] p = p"
| "run_after (c # cs) p =
     (case cb_after c p of
        (p', None) \<Rightarrow> run_after cs p'
      | (p', Some t) \<Rightarrow>
          run_after cs (if p_throwable p = None then setResult (p_result p) p' else setThrowable (p_throwable p) p'))"

text \<open>An \<open>InvocationTargetException\<close> is replaced by its cause; other exceptions pass.\<close>

definition unwrap :: "exn + oref \<Rightarrow> exn + oref" where
  "unwrap r = (case r of Inl (InvocationTarget e) \<Rightarrow> Inl e | _ \<Rightarrow> r)"

definition call_original :: "native \<Rightarrow> oref \<Rightarrow> u32 \<Rightarrow> param \<Rightarrow> exn + param" where
  "call_original invokeOriginal method originalMethodId p =
     (if p_returnEarly p then Inr p
      else case invokeOriginal method originalMethodId (p_this p) (p_args p) of
             Inr result \<Rightarrow> Inr (setResult result p)
           | Inl (InvocationTarget e) \<Rightarrow> Inr (setThrowable (Some e) p)
           | Inl e \<Rightarrow> Inl e)"

definition handleHookedMethod :: "bool \<Rightarrow> (oref \<Rightarrow> callback list) \<Rightarrow> native \<Rightarrow> java_handler" where
  "handleHookedMethod disableHooks snapshot invokeOriginal method originalMethodId infoObj thisObject args =
     (let callbacksSnapshot = snapshot infoObj
      in if disableHooks \<or> callbacksSnapshot = [] then unwrap (invokeOriginal method originalMethodId thisObject args)
         else
           let param = \<lparr>p_method = method, p_this = thisObject, p_args = args, p_result = 0, p_throwable = None, p_returnEarly = False\<rparr>;
               (p, called) = run_before callbacksSnapshot param
           in case call_original invokeOriginal method originalMethodId p of
                Inl e \<Rightarrow> Inl e
              | Inr p' \<Rightarrow> getResultOrThrowable (run_after (rev called) p'))"

section \<open>Registration\<close>

text \<open>
  The methods with their sets of callbacks (by the address of the method: members are equal when they stand
  for the same method), the sets that the additional infos refer to, and the runtime.
\<close>

record bridge =
  b_callbacks :: "oref \<rightharpoonup> callback list"
  b_info :: "oref \<Rightarrow> oref"
  b_art :: art

datatype member_kind = Method_object | Constructor_object | Other_object

record member =
  mb_object :: oref
  mb_kind :: member_kind
  mb_interface :: bool
  mb_abstract :: bool

definition snapshot :: "bridge \<Rightarrow> oref \<Rightarrow> callback list" where
  "snapshot b info = (case b_callbacks b (b_info b info) of None \<Rightarrow> [] | Some cs \<Rightarrow> cs)"

definition hookMethod :: "fresh \<Rightarrow> oref \<Rightarrow> member \<Rightarrow> callback \<Rightarrow> bridge \<Rightarrow> bridge \<times> exn option" where
  "hookMethod N new_info target callback b =
     (if mb_kind target = Other_object \<or> mb_interface target \<or> mb_abstract target then (b, Some IllegalArgument)
      else
        let m = FromReflectedMethod (b_art b) (mb_object target)
        in case b_callbacks b m of
             Some callbacks \<Rightarrow> (b\<lparr>b_callbacks := (b_callbacks b)(m \<mapsto> fst (set_add callback callbacks))\<rparr>, None)
           | None \<Rightarrow>
               let (s, e) = hookMethodNative N (mb_object target) new_info (b_art b)
               in (b\<lparr>b_callbacks := (b_callbacks b)(m \<mapsto> fst (set_add callback [])), b_info := (b_info b)(new_info := m), b_art := s\<rparr>, e))"

definition unhookMethod :: "member \<Rightarrow> callback \<Rightarrow> bridge \<Rightarrow> bridge" where
  "unhookMethod target callback b =
     (let m = FromReflectedMethod (b_art b) (mb_object target)
      in case b_callbacks b m of
           None \<Rightarrow> b
         | Some callbacks \<Rightarrow> b\<lparr>b_callbacks := (b_callbacks b)(m \<mapsto> fst (set_remove callback callbacks))\<rparr>)"

definition invokeOriginalMethod :: "native \<Rightarrow> member \<Rightarrow> oref \<Rightarrow> oref list option \<Rightarrow> exn + oref" where
  "invokeOriginalMethod invokeOriginal method thisObject args =
     (if mb_kind method = Other_object then Inl IllegalArgument
      else invokeOriginal (mb_object method) 0 thisObject (case args of None \<Rightarrow> Some [] | Some as \<Rightarrow> Some as))"

section \<open>Callbacks that do nothing\<close>

text \<open>
  A callback that does not interfere: it may read everything, change its own state, and even throw; it neither
  ends the call early nor changes receiver and arguments, and leaves the outcome as it is unless it throws.
\<close>

definition harmless :: "callback \<Rightarrow> bool" where
  "harmless c \<longleftrightarrow>
     (\<forall>p. case cb_before c p of (p', t) \<Rightarrow>
        p_this p' = p_this p \<and> p_args p' = p_args p \<and> (t = None \<longrightarrow> p_returnEarly p' = p_returnEarly p)) \<and>
     (\<forall>p. case cb_after c p of (p', t) \<Rightarrow> t = None \<longrightarrow> p_result p' = p_result p \<and> p_throwable p' = p_throwable p)"

lemma run_before_harmless:
  assumes "\<forall>c \<in> set cs. harmless c" "\<not> p_returnEarly p"
  shows "\<exists>q. run_before cs p = (q, cs) \<and> p_this q = p_this p \<and> p_args q = p_args p \<and> \<not> p_returnEarly q"
  using assms
proof (induction cs arbitrary: p)
  case (Cons c cs)
  obtain p' t where b: "cb_before c p = (p', t)" by fastforce
  have h: "p_this p' = p_this p" "p_args p' = p_args p" "t = None \<Longrightarrow> \<not> p_returnEarly p'"
    using Cons.prems b by (auto simp: harmless_def split: prod.splits)
  let ?q = "if t = None then p' else (setResult 0 p')\<lparr>p_returnEarly := False\<rparr>"
  have q: "p_this ?q = p_this p" "p_args ?q = p_args p" "\<not> p_returnEarly ?q" using h by (auto simp: setResult_def)
  obtain r where r: "run_before cs ?q = (r, cs)" "p_this r = p_this p" "p_args r = p_args p" "\<not> p_returnEarly r"
    using Cons.IH [of ?q] Cons.prems q by auto
  then show ?case using b h by (cases t) auto
qed simp

lemma run_after_harmless:
  assumes "\<forall>c \<in> set cs. harmless c"
  shows "getResultOrThrowable (run_after cs p) = getResultOrThrowable p"
  using assms
proof (induction cs arbitrary: p)
  case (Cons c cs)
  obtain p' t where b: "cb_after c p = (p', t)" by fastforce
  have "t = None \<Longrightarrow> p_result p' = p_result p \<and> p_throwable p' = p_throwable p"
    using Cons.prems b by (auto simp: harmless_def split: prod.splits)
  then show ?case
    using Cons b by (cases t) (auto simp: getResultOrThrowable_def setResult_def setThrowable_def split: option.splits)
qed simp

lemma handle_harmless:
  assumes "\<forall>c \<in> set (getSnapshot i). harmless c"
  shows "handleHookedMethod disableHooks getSnapshot invokeOriginal method k i this args = unwrap (invokeOriginal method k this args)"
proof (cases "disableHooks \<or> getSnapshot i = []")
  case False
  let ?p = "\<lparr>p_method = method, p_this = this, p_args = args, p_result = 0, p_throwable = None, p_returnEarly = False\<rparr>"
  obtain q where q: "run_before (getSnapshot i) ?p = (q, getSnapshot i)" "p_this q = this" "p_args q = args" "\<not> p_returnEarly q"
    using run_before_harmless [OF assms, of ?p] by auto
  have a: "getResultOrThrowable (run_after (rev (getSnapshot i)) r) = getResultOrThrowable r" for r
    by (rule run_after_harmless) (use assms in simp)
  have "call_original invokeOriginal method k q =
    (case unwrap (invokeOriginal method k this args) of
       Inr r \<Rightarrow> Inr (setResult r q)
     | Inl e \<Rightarrow> (case invokeOriginal method k this args of Inl (InvocationTarget _) \<Rightarrow> Inr (setThrowable (Some e) q) | _ \<Rightarrow> Inl e))"
    using q by (auto simp: call_original_def unwrap_def split: sum.splits exn.splits)
  then show ?thesis
    using False q a
    by (auto simp: handleHookedMethod_def Let_def unwrap_def getResultOrThrowable_def setResult_def setThrowable_def
        split: sum.splits exn.splits)
qed (simp add: handleHookedMethod_def Let_def)

section \<open>Hooking is transparent\<close>

definition same_outcome :: "Prim \<Rightarrow> exn + jvalue \<Rightarrow> exn + jvalue \<Rightarrow> bool" where
  "same_outcome p r r' \<longleftrightarrow>
     (case (r, r') of (Inl e, Inl e') \<Rightarrow> e = e' | (Inr v, Inr v') \<Rightarrow> same_value p v v' | _ \<Rightarrow> False)"

lemma to_handler_proto [simp]:
  "GetShorty R (to_handler i M) = GetShorty R M" "GetParameterTypeList R (to_handler i M) = GetParameterTypeList R M"
  "GetReturnType R (to_handler i M) = GetReturnType R M" "declaring_class (to_handler i M) = declaring_class M"
  by (simp_all add: GetShorty_def GetParameterTypeList_def GetReturnType_def to_handler_def)

lemma call_ok_to_handler [simp]: "call_ok E R (to_handler i M) ws boxed = call_ok E R M ws boxed"
  by (simp add: call_ok_def arg_words_def)

text \<open>
  C16 Hooking a method changes nothing but that the callbacks are run.  If the callbacks do not interfere, a call
  of the method after \<open>hookMethodNative\<close> has the outcome of the same call before it: the same result, or the same
  exception.  The arguments are boxed on the way to the callbacks and unboxed on the way to the backup, the result
  is boxed and unboxed on the way back, and the original code is run exactly on the words of the call, for every
  signature, for static, virtual and interface methods alike.
\<close>

theorem hooking_is_transparent:
  assumes wf: "hook_wf s" and hook: "can_hook N m s" "FromReflectedMethod s jm = m" "jm \<noteq> 0"
    and code: "entry_quick (a_method s m) \<noteq> No_code" "entry_quick (a_method s m) \<noteq> Proxy_invoke_handler"
    and call: "call_ok E R (a_method s m) ws boxed"
    and result: "\<And>v. e_run E (a_method s m) ws = Inr v \<Longrightarrow> result_ok E R (a_method s m) v"
    and callbacks: "\<forall>c \<in> set (getSnapshot i). harmless c"
  shows "let s' = fst (hookMethodNative N jm i s);
             handler = handleHookedMethod disableHooks getSnapshot (invokeOriginalMethodNative E R h s')
         in same_outcome (GetPrimitiveType (GetReturnType R (a_method s m))) (Invoke E R handler s' m ws) (Invoke E R h' s m ws)"
proof -
  let ?M = "a_method s m"
  let ?s = "hook_state N m i s"
  let ?h = "handleHookedMethod disableHooks getSnapshot (invokeOriginalMethodNative E R h ?s)"
  have n: "n_backup N \<noteq> m" by (rule can_hookD [OF hook(1)])
  have s: "fst (hookMethodNative N jm i s) = ?s"
    using hook by (simp add: hookMethodNative_def EnableXposedHook_cases can_hook_def)
  have o: "\<not> IsXposedOriginalMethod ?M" and l: "e_stack_left E" and b: "boxing_law (e_heap E)"
    using hook(1) call by (auto simp: can_hook_def original_def call_ok_def)
  have w: "hook_wf ?s" "m \<in> a_methods ?s" "hooked ?s m" "call_ok E R (a_method ?s m) ws boxed"
    using hook_keeps_wf [OF wf hook(1)] hook_flags [OF hook(1)] hook(1) call n by (auto simp: hook_state_sel can_hook_def)
  have plain: "Invoke E R h' s m ws = e_run E ?M ws"
    using code l o by (cases "entry_quick ?M") (simp_all add: Invoke_def)
  have e: "entry_quick (backup ?M) = entry_quick ?M" by (simp add: backup_def)
  have orig: "Invoke E R h ?s (n_backup N) ws = e_run E ?M ws"
    using code l o n e by (cases "entry_quick ?M") (simp_all add: Invoke_def hook_state_sel)
  have hooked: "Invoke E R ?h ?s m ws =
    (case e_run E ?M ws of
       Inl e \<Rightarrow> Inl e
     | Inr v \<Rightarrow> (case box_result E (GetPrimitiveType (GetReturnType R ?M)) v of
                   Inl e \<Rightarrow> Inl e | Inr obj \<Rightarrow> unbox_result E R ?M obj))"
    using hooked_call [OF w, of ?h] original_call [OF w, of h] n
    by (auto simp: handle_harmless [where getSnapshot = getSnapshot, OF callbacks] new_hook_info [OF hook(1)] orig hook_state_sel
        unwrap_def unbox_result_def box_result_def Let_def split: sum.splits)
  show ?thesis
  proof (cases "e_run E ?M ws")
    case (Inl e)
    then show ?thesis using plain hooked s by (simp add: same_outcome_def Let_def)
  next
    case (Inr v)
    then show ?thesis
      using plain hooked s boxed_result [OF b result [OF Inr]] by (auto simp: same_outcome_def Let_def)
  qed
qed

text \<open>A static method that adds one to its argument, called with 5, and callbacks that throw.\<close>

definition adding_runtime :: art_runtime where
  "adding_runtime = sample_runtime\<lparr>rt_shorty := (\<lambda>_ _. ''II''), rt_params := (\<lambda>_ _. [''I''])\<rparr>"

definition adding_state :: art where
  "adding_state = set_method 1 (\<lambda>M. M\<lparr>access_flags := 9\<rparr>) sample_state"

definition boxes :: heap where
  "boxes = \<lparr>h_class = (\<lambda>_. box_class kPrimInt), h_field = (\<lambda>x. if x = 100 then 5 else 6), h_instance = (\<lambda>_ _. True),
     h_valueOf = (\<lambda>p ws. if p = kPrimInt \<and> ws = [5] then 100 else if p = kPrimInt \<and> ws = [6] then 101 else 0),
     h_i2f = (\<lambda>_. 0), h_i2d = (\<lambda>_. 0), h_f2d = (\<lambda>_. 0)\<rparr>"

definition adding :: surroundings where
  "adding = \<lparr>e_heap = boxes, e_class = (\<lambda>_. 0), e_instance = (\<lambda>_ _. True), e_initialize = (\<lambda>_. None),
     e_run = (\<lambda>M ws. Inr (ucast (ws ! 0 + 1))), e_proxy = (\<lambda>_ _. Inr 0), e_new_array = (\<lambda>_. True), e_sdk = 22, e_stack_left = True,
     e_caller = None, e_same_package = (\<lambda>_ _. False), e_assignable = (\<lambda>_ _. False)\<rparr>"

definition thrower :: callback where
  "thrower = \<lparr>cb_id = 0, cb_priority = 50, cb_hash = 7, cb_before = (\<lambda>p. (setResult 77 p, Some (Thrown 1))),
     cb_after = (\<lambda>p. (setResult 78 p, Some (Thrown 2)))\<rparr>"

lemma harmless_thrower: "harmless thrower"
  by (simp add: harmless_def thrower_def setResult_def)

theorem hooking_is_transparent_witness:
  "let s' = fst (hookMethodNative sample_fresh 3 9 adding_state);
       handler = handleHookedMethod False (\<lambda>_. [thrower]) (invokeOriginalMethodNative adding adding_runtime undefined s')
   in same_outcome kPrimInt (Invoke adding adding_runtime handler s' 1 [5]) (Inr 6)"
proof -
  have f: "\<not> hooked adding_state x" "\<not> original adding_state x" for x
    by (simp_all add: hooked_def original_def predicates has_flag_def adding_state_def samples)
  have "hook_wf adding_state"
    using f by (simp add: hook_wf_def frame_ok_def) (simp add: adding_state_def samples)
  moreover have "can_hook sample_fresh 1 adding_state"
    using f by (simp add: can_hook_def fresh_for_def) (simp add: adding_state_def samples)
  moreover have "FromReflectedMethod adding_state 3 = 1" "entry_quick (a_method adding_state 1) \<noteq> No_code"
    "entry_quick (a_method adding_state 1) \<noteq> Proxy_invoke_handler"
    by (simp_all add: FromReflectedMethod_def adding_state_def samples)
  moreover have r: "GetReturnType adding_runtime (a_method adding_state 1) = Primitive_type kPrimInt"
    "GetShorty adding_runtime (a_method adding_state 1) = ''II''" "GetParameterTypeList adding_runtime (a_method adding_state 1) = [''I'']"
    by (simp_all add: GetReturnType_def GetShorty_def GetParameterTypeList_def adding_runtime_def samples)
  moreover have "call_ok adding adding_runtime (a_method adding_state 1) [5] (Some [100])"
  proof -
    have st: "IsStatic (a_method adding_state 1)" by (simp add: IsStatic_def has_flag_def adding_state_def)
    have law: "boxing_law boxes" by (auto simp: boxing_law_def boxes_def)
    show ?thesis
      using st law
      by (simp add: call_ok_def r arg_words_def adding_def args_array_def needs_array_def BoxPrimitive_def GetType_def GetI_def
          word_ok_def shorty_char_def boxes_def)
  qed
  moreover have "result_ok adding adding_runtime (a_method adding_state 1) v" if "e_run adding (a_method adding_state 1) [5] = Inr v" for v
    using that by (auto simp: result_ok_def r adding_def GetType_def BoxPrimitive_def boxes_def GetI_def)
  moreover have "e_run adding (a_method adding_state 1) [5] = Inr 6" "e_stack_left adding" by (simp_all add: adding_def)
  ultimately show ?thesis
    using hooking_is_transparent [where N = sample_fresh and m = 1 and jm = 3 and s = adding_state and E = adding and R = adding_runtime
        and ws = "[5]" and boxed = "Some [100]" and getSnapshot = "\<lambda>_. [thrower]" and i = 9 and disableHooks = False and h = undefined
        and h' = undefined] harmless_thrower f
    by (cases "entry_quick (a_method adding_state 1)")
       (simp_all add: Let_def Invoke_def [of adding adding_runtime undefined adding_state] original_def)
qed

section \<open>The order of callbacks\<close>

abbreviation prio :: "callback \<Rightarrow> int" where
  "prio c \<equiv> sint (cb_priority c)"

text \<open>
  Priorities whose differences do not overflow.  Those between the documented \<open>PRIORITY_LOWEST\<close> and
  \<open>PRIORITY_HIGHEST\<close> are comparable.
\<close>

definition comparable :: "callback set \<Rightarrow> bool" where
  "comparable R \<longleftrightarrow> (\<forall>x \<in> R. \<forall>y \<in> R. prio x - prio y < 2 ^ 31)"

definition ordered :: "callback list \<Rightarrow> bool" where
  "ordered cs \<longleftrightarrow> sorted_wrt (\<lambda>a b. prio a \<ge> prio b) cs \<and> distinct (map cb_id cs)"

lemma sint_minus: "sint (a - b) = sint a - sint b"
  if "- (2 ^ 31) \<le> sint a - sint b" "sint a - sint b < 2 ^ 31" for a b :: u32
  using that by (simp add: sint_word_ariths signed_take_bit_int_eq_self)

lemma comparable_documented: "\<forall>c \<in> R. sint PRIORITY_LOWEST \<le> prio c \<and> prio c \<le> sint (PRIORITY_HIGHEST * 2) \<Longrightarrow> comparable R"
proof -
  assume a: "\<forall>c \<in> R. sint PRIORITY_LOWEST \<le> prio c \<and> prio c \<le> sint (PRIORITY_HIGHEST * 2)"
  have "sint PRIORITY_LOWEST = - 10000" "sint (PRIORITY_HIGHEST * 2) = 20000" by code_simp+
  with a have b: "- 10000 \<le> prio c" "prio c \<le> 20000" if "c \<in> R" for c using that by auto
  show ?thesis unfolding comparable_def
  proof (intro ballI)
    fix x y
    assume "x \<in> R" "y \<in> R"
    then show "prio x - prio y < 2 ^ 31" using b [of x] b [of y] by simp
  qed
qed

lemma compareTo_comparable:
  assumes "comparable {x, y}" "cb_id x \<noteq> cb_id y"
  shows "sint (compareTo x y) < 0 \<Longrightarrow> prio x \<ge> prio y" "\<not> sint (compareTo x y) < 0 \<Longrightarrow> prio y \<ge> prio x"
proof -
  have d: "sint (cb_priority y - cb_priority x) = prio y - prio x"
    by (rule sint_minus) (use assms in \<open>simp_all add: comparable_def\<close>)
  show "sint (compareTo x y) < 0 \<Longrightarrow> prio x \<ge> prio y"
    using assms(2) by (auto simp: compareTo_def d split: if_splits)
  show "\<not> sint (compareTo x y) < 0 \<Longrightarrow> prio y \<ge> prio x"
    using assms(2) by (auto simp: compareTo_def d split: if_splits)
qed

lemma set_sort_insert [simp]: "set (sort_insert x ys) = insert x (set ys)"
  by (induction ys) auto

lemma sort_insert_ordered:
  "ordered ys \<Longrightarrow> comparable (insert x (set ys)) \<Longrightarrow> cb_id x \<notin> cb_id ` set ys \<Longrightarrow> ordered (sort_insert x ys)"
proof (induction ys)
  case (Cons y ys)
  have "comparable {x, y}" "comparable (insert x (set ys))" using Cons.prems(2) by (simp_all add: comparable_def)
  note k = this and c = compareTo_comparable [OF this(1)]
  show ?case
  proof (cases "sint (compareTo x y) < 0")
    case True
    then have "prio x \<ge> prio y" using c Cons.prems by auto
    then show ?thesis using True Cons.prems by (auto simp: ordered_def intro: order_trans)
  next
    case False
    then have "prio y \<ge> prio x" using c Cons.prems by auto
    then show ?thesis using False Cons.IH [OF _ k(2)] Cons.prems by (auto simp: ordered_def)
  qed
qed (simp add: ordered_def)

lemma foldl_sort_insert:
  assumes "ordered acc" "comparable (set acc \<union> set xs)" "distinct (map cb_id (acc @ xs))"
  shows "ordered (foldl (\<lambda>acc x. sort_insert x acc) acc xs) \<and> set (foldl (\<lambda>acc x. sort_insert x acc) acc xs) = set acc \<union> set xs"
  using assms
proof (induction xs arbitrary: acc)
  case (Cons x xs)
  have i: "ordered (sort_insert x acc)" by (rule sort_insert_ordered) (use Cons.prems in \<open>auto simp: comparable_def\<close>)
  moreover have "distinct (map cb_id (sort_insert x acc @ xs))"
    using Cons.prems(3) i by (auto simp: ordered_def)
  ultimately show ?case using Cons.IH [of "sort_insert x acc"] Cons.prems(2) by auto
qed simp

lemma arrays_sort_ordered:
  "comparable (set xs) \<Longrightarrow> distinct (map cb_id xs) \<Longrightarrow> ordered (arrays_sort xs) \<and> set (arrays_sort xs) = set xs"
  using foldl_sort_insert [of "[]" xs] by (simp add: arrays_sort_def ordered_def)

lemma indexOf_None: "indexOf e xs = None \<longleftrightarrow> cb_id e \<notin> cb_id ` set xs"
  by (induction xs) auto

lemma indexOf_Some: "indexOf e xs = Some i \<Longrightarrow> i < length xs \<and> cb_id (xs ! i) = cb_id e"
  by (induction xs arbitrary: i) (auto split: if_splits)

lemma set_add_ordered:
  assumes "ordered cs" "comparable (insert e (set cs))"
  shows "ordered (fst (set_add e cs))" "set (fst (set_add e cs)) \<subseteq> insert e (set cs)"
proof -
  have "ordered (fst (set_add e cs)) \<and> set (fst (set_add e cs)) \<subseteq> insert e (set cs)"
  proof (cases "indexOf e cs")
    case None
    then have "distinct (map cb_id (cs @ [e]))" using assms(1) by (auto simp: indexOf_None ordered_def)
    then show ?thesis using arrays_sort_ordered [of "cs @ [e]"] None assms by (auto simp: set_add_def)
  qed (use assms in \<open>auto simp: set_add_def\<close>)
  then show "ordered (fst (set_add e cs))" "set (fst (set_add e cs)) \<subseteq> insert e (set cs)" by auto
qed

lemma set_remove_ordered:
  assumes "ordered cs"
  shows "ordered (fst (set_remove e cs))" "set (fst (set_remove e cs)) \<subseteq> set cs"
proof -
  have "ordered (fst (set_remove e cs)) \<and> set (fst (set_remove e cs)) \<subseteq> set cs"
  proof (cases "indexOf e cs")
    case (Some i)
    note i = indexOf_Some [OF Some]
    let ?A = "take i cs" and ?B = "drop (Suc i) cs"
    have "ordered (?A @ cs ! i # ?B)" using assms i by (simp add: id_take_nth_drop [symmetric])
    then have "ordered (?A @ ?B)" by (simp add: ordered_def sorted_wrt_append)
    moreover have "fst (set_remove e cs) = ?A @ ?B" using Some by (simp add: set_remove_def)
    ultimately show ?thesis using set_take_subset [of i cs] set_drop_subset [of "Suc i" cs] by simp
  qed (use assms in \<open>simp add: set_remove_def\<close>)
  then show "ordered (fst (set_remove e cs))" "set (fst (set_remove e cs)) \<subseteq> set cs" by auto
qed

text \<open>Registrations of callbacks of \<open>R\<close> and removals, in any order.\<close>

inductive bridge_step :: "callback set \<Rightarrow> bridge \<Rightarrow> bridge \<Rightarrow> bool" for R where
  hook_step: "c \<in> R \<Longrightarrow> hookMethod N i target c b = (b', e) \<Longrightarrow> bridge_step R b b'"
| unhook_step: "bridge_step R b (unhookMethod target c b)"

definition sets_ok :: "callback set \<Rightarrow> bridge \<Rightarrow> bool" where
  "sets_ok R b \<longleftrightarrow> (\<forall>m cs. b_callbacks b m = Some cs \<longrightarrow> ordered cs \<and> set cs \<subseteq> R)"

lemma hookMethod_sets:
  assumes "hookMethod N i target c b = (b', e)"
  obtains "b_callbacks b' = b_callbacks b"
    | m cs where "b_callbacks b' = (b_callbacks b)(m \<mapsto> fst (set_add c cs))" "b_callbacks b m = Some cs \<or> cs = []"
proof (cases "mb_kind target = Other_object \<or> mb_interface target \<or> mb_abstract target")
  case True
  then show thesis using assms that(1) by (simp add: hookMethod_def)
next
  case False
  let ?m = "FromReflectedMethod (b_art b) (mb_object target)"
  show thesis
    using assms False that(2) [of ?m "[]"] that(2) [of ?m "the (b_callbacks b ?m)"]
    by (cases "b_callbacks b ?m") (simp_all add: hookMethod_def Let_def split: prod.splits, auto)
qed

lemma sets_ok_update:
  "sets_ok R b \<Longrightarrow> b_callbacks b' = (b_callbacks b)(m \<mapsto> cs) \<Longrightarrow> ordered cs \<Longrightarrow> set cs \<subseteq> R \<Longrightarrow> sets_ok R b'"
  by (simp add: sets_ok_def)

lemma bridge_step_ok:
  assumes "bridge_step R b b'" "comparable R" "sets_ok R b"
  shows "sets_ok R b'"
  using assms(1)
proof cases
  case (hook_step c N i target e)
  from hook_step(2) show ?thesis
  proof (cases rule: hookMethod_sets)
    case 1
    then show ?thesis using assms(3) by (simp add: sets_ok_def)
  next
    case (2 m cs)
    have cs: "ordered cs" "insert c (set cs) \<subseteq> R" using 2(2) assms(3) hook_step(1) by (auto simp: sets_ok_def ordered_def)
    then have "comparable (insert c (set cs))" using assms(2) unfolding comparable_def by blast
    then show ?thesis using sets_ok_update [OF assms(3) 2(1)] set_add_ordered [of cs c] cs by blast
  qed
next
  case (unhook_step target c)
  let ?m = "FromReflectedMethod (b_art b) (mb_object target)"
  show ?thesis
  proof (cases "b_callbacks b ?m")
    case None
    then show ?thesis using unhook_step assms(3) by (simp add: unhookMethod_def Let_def)
  next
    case (Some cs)
    then have "ordered cs \<and> set cs \<subseteq> R" using assms(3) by (simp add: sets_ok_def)
    moreover have "b_callbacks b' = (b_callbacks b)(?m \<mapsto> fst (set_remove c cs))"
      using unhook_step Some by (simp add: unhookMethod_def Let_def)
    ultimately show ?thesis using sets_ok_update [OF assms(3)] set_remove_ordered [of cs c] by blast
  qed
qed

lemma bridge_steps_ok: "(bridge_step R)\<^sup>*\<^sup>* b b' \<Longrightarrow> comparable R \<Longrightarrow> sets_ok R b \<Longrightarrow> sets_ok R b'"
  by (induction rule: rtranclp_induct) (auto intro: bridge_step_ok)

text \<open>
  C19 If the priorities of all callbacks that are ever registered differ by less than \<open>2 ^ 31\<close>, as the documented ones do, then in
  whatever order callbacks are registered and removed, the list of every hooked method has only registered
  callbacks, none of them twice, in descending order of their priorities.  Without the condition the order
  fails: \<open>distant_priorities_swapped\<close> below.
\<close>

theorem callbacks_in_order:
  assumes "\<forall>x \<in> R. \<forall>y \<in> R. prio x - prio y < 2 ^ 31"
    and "(bridge_step R)\<^sup>*\<^sup>* b b'" "b_callbacks b = Map.empty" "b_callbacks b' m = Some cs"
  shows "set cs \<subseteq> R \<and> distinct (map cb_id cs) \<and> sorted_wrt (\<lambda>x y. prio x \<ge> prio y) cs"
proof -
  have "sets_ok R b" using assms(3) by (simp add: sets_ok_def)
  from bridge_steps_ok [OF assms(2) _ this] assms(1,4) show ?thesis by (auto simp: sets_ok_def ordered_def comparable_def)
qed

definition quiet :: "nat \<Rightarrow> u32 \<Rightarrow> callback" where
  "quiet i priority = \<lparr>cb_id = i, cb_priority = priority, cb_hash = 0, cb_before = (\<lambda>p. (p, None)), cb_after = (\<lambda>p. (p, None))\<rparr>"

definition sample_bridge :: bridge where
  "sample_bridge = \<lparr>b_callbacks = Map.empty, b_info = (\<lambda>_. 0), b_art = adding_state\<rparr>"

definition sample_member :: member where
  "sample_member = \<lparr>mb_object = 3, mb_kind = Method_object, mb_interface = False, mb_abstract = False\<rparr>"

lemma hookMethod_again:
  assumes "FromReflectedMethod (b_art b) (mb_object target) = m" "b_callbacks b m = Some cs"
    and "mb_kind target \<noteq> Other_object" "\<not> mb_interface target" "\<not> mb_abstract target"
  shows "b_callbacks (fst (hookMethod N i target c b)) m = Some (fst (set_add c cs))"
  using assms by (simp add: hookMethod_def Let_def)

theorem callbacks_in_order_witness:
  "let b = fst (hookMethod sample_fresh 9 sample_member (quiet 1 50) sample_bridge);
       b' = fst (hookMethod sample_fresh 9 sample_member (quiet 2 100) b)
   in \<exists>cs. b_callbacks b' 1 = Some cs \<and> length cs = 2 \<and> sorted_wrt (\<lambda>x y. prio x \<ge> prio y) cs \<and> prio (cs ! 0) = 100"
proof -
  let ?b = "fst (hookMethod sample_fresh 9 sample_member (quiet 1 50) sample_bridge)"
  let ?b' = "fst (hookMethod sample_fresh 9 sample_member (quiet 2 100) ?b)"
  let ?R = "{quiet 1 50, quiet 2 100}"
  have r: "\<forall>x \<in> ?R. \<forall>y \<in> ?R. prio x - prio y < 2 ^ 31" by (simp add: quiet_def)
  have "bridge_step ?R sample_bridge ?b" "bridge_step ?R ?b ?b'"
    by (rule hook_step [OF _ prod.collapse [symmetric]], simp)+
  then have s: "(bridge_step ?R)\<^sup>*\<^sup>* sample_bridge ?b'" by simp
  have e: "b_callbacks sample_bridge = Map.empty" by (simp add: sample_bridge_def)
  have c: "b_callbacks ?b' 1 = Some [quiet 2 100, quiet 1 50]"
  proof -
    note defs = hookMethod_def hookMethodNative_def EnableXposedHook_def FromReflectedMethod_def sample_bridge_def sample_member_def
      adding_state_def samples set_add_def arrays_sort_def compareTo_def quiet_def Let_def
    have a: "b_callbacks ?b 1 = Some [quiet 1 50]" "artMethod (a_reflected (b_art ?b) 3) = 1"
      by (simp_all add: defs predicates has_flag_def hook_switch_def hook_stacks_def hook_prepare_def)
    have o: "fst (set_add (quiet 2 100) [quiet 1 50]) = [quiet 2 100, quiet 1 50]"
      by (simp add: set_add_def arrays_sort_def compareTo_def quiet_def)
    show ?thesis
      unfolding o [symmetric] by (rule hookMethod_again) (use a in \<open>simp_all add: FromReflectedMethod_def sample_member_def\<close>)
  qed
  note o = callbacks_in_order [OF r s e c]
  show ?thesis
    unfolding Let_def
  proof (intro exI conjI)
    show "b_callbacks ?b' 1 = Some [quiet 2 100, quiet 1 50]" by (rule c)
    show "sorted_wrt (\<lambda>x y. prio x \<ge> prio y) [quiet 2 100, quiet 1 50]" using o by blast
    show "prio ([quiet 2 100, quiet 1 50] ! 0) = 100" by (simp add: quiet_def)
  qed simp
qed

lemma signed_wrap:
  "2147483648 \<le> d \<Longrightarrow> d < 4294967296 \<Longrightarrow> signed_take_bit 31 d = d - 4294967296"
  "d < - 2147483648 \<Longrightarrow> - 4294967296 < d \<Longrightarrow> signed_take_bit 31 d = d + 4294967296"
  for d :: int
proof -
  have e: "signed_take_bit 31 d = (d + 2147483648) mod 4294967296 - 2147483648"
    by (simp add: signed_take_bit_eq_take_bit_shift take_bit_eq_mod)
  show "signed_take_bit 31 d = d - 4294967296" if "2147483648 \<le> d" "d < 4294967296"
  proof -
    have "(d + 2147483648) mod 4294967296 = (d + 2147483648 - 4294967296) mod 4294967296" by (rule minus_mod_self2 [symmetric])
    also have "\<dots> = d + 2147483648 - 4294967296" by (rule mod_pos_pos_trivial) (use that in simp_all)
    finally show ?thesis using e by simp
  qed
  show "signed_take_bit 31 d = d + 4294967296" if "d < - 2147483648" "- 4294967296 < d"
  proof -
    have "(d + 2147483648) mod 4294967296 = (d + 2147483648 + 4294967296) mod 4294967296" by (rule mod_add_self2 [symmetric])
    also have "\<dots> = d + 2147483648 + 4294967296" by (rule mod_pos_pos_trivial) (use that in simp_all)
    finally show ?thesis using e by simp
  qed
qed

text \<open>
  The comparison of priorities overflows: of two callbacks whose priorities are more than \<open>2 ^ 31\<close> apart, the one
  with the lower priority is called first.
\<close>

theorem distant_priorities_swapped:
  assumes "prio b - prio a > 2 ^ 31" "cb_id a \<noteq> cb_id b"
  shows "fst (set_add b [a]) = [a, b] \<and> fst (set_add a [b]) = [a, b]"
proof -
  have r: "sint (x :: u32) < 2 ^ 31" "- (2 ^ 31) \<le> sint x" for x
    using sint_lt [of x] sint_ge [of x] by simp_all
  have ne: "cb_priority b \<noteq> cb_priority a" using assms(1) by auto
  have w: "sint (cb_priority b - cb_priority a) = prio b - prio a - 2 ^ 32"
    "sint (cb_priority a - cb_priority b) = prio a - prio b + 2 ^ 32"
    using r [of "cb_priority a"] r [of "cb_priority b"] assms(1)
    by (simp_all add: sint_word_ariths signed_wrap)
  have "sint (compareTo b a) \<ge> 0" "sint (compareTo a b) < 0"
    using w ne assms(2) r [of "cb_priority a"] r [of "cb_priority b"] assms(1) by (simp_all add: compareTo_def)
  then show ?thesis using assms(2) by (auto simp: set_add_def arrays_sort_def)
qed

theorem distant_priorities_swapped_witness:
  "fst (set_add (quiet 1 0x7FFFFFFF) [quiet 2 (- 2)]) = [quiet 2 (- 2), quiet 1 0x7FFFFFFF]"
proof -
  have "prio (quiet 1 0x7FFFFFFF) - prio (quiet 2 (- 2)) > 2 ^ 31" by code_simp
  moreover have "cb_id (quiet 2 (- 2)) \<noteq> cb_id (quiet 1 0x7FFFFFFF)" by (simp add: quiet_def)
  ultimately show ?thesis using distant_priorities_swapped by blast
qed

end
