(* ===== verification/Spec2Isabelle.thy ===== *)
theory Spec2Isabelle
  imports Prelude Ptrace Xloader Xloaderd XloaderJava DynXloaderService Jni Client Safemode Membased XposedCommon Membased_Sync Xposed Process Logcat Binder Services Startup AppMain Boxing ArtMethod Instrumentation ArtHook XposedBridge
begin

text \<open>
  A verification development of the dynamic loader: a Java service that decides which modules go into which
  processes, a native daemon that injects a client library into a running Android process, the client library, and
  the Xposed framework whose hooks the loaded modules use (its start-up code and services in native code, its patches
  of the Android runtime, its Java side).

  \<^bold>\<open>The parts and how they interact.\<close>  The service \<open>DynXloaderService\<close> keeps a list of modules, which its
  callers change and which is stored in the preferences; when the start of a process is announced it waits for the
  process and sends a command to the daemon.  The daemon \<open>xloaderd\<close> takes commands over a socket and runs the loader,
  which attaches to a process with ptrace, maps memory there, makes it load the client library and calls the
  library's entry point with a parameter block.  The client loads a native or a Java module into the process.  The
  second half is \<open>app_process\<close>: it detects safe mode, starts the log daemon and the services that read files for
  others, and starts the Java runtime with the framework's class.  In the runtime a hooked method is led to a
  handler, which calls the Java side; that runs the callbacks of the modules around the original method.

  \<^bold>\<open>Theories, in the order of the code.\<close>

  \<^item> \<open>Prelude\<close>: machine types, C strings, decimal and hexadecimal numbers, byte layout of words; the collections of
    rewrite rules for them.

  \<^item> \<open>Ptrace\<close> (\<open>src/xloaderFramework/xloaderd/xloader.c\<close>, \<open>ptrace_*\<close>): the traced process as a record of memory,
    registers and scripted stops; data transfer by words and remote calls of the ARM build.  Transfers change and read
    exactly the requested bytes; a remote call is set up as the procedure call standard asks.

  \<^item> \<open>Xloader\<close> (same file; \<open>find_pid_of\<close>, \<open>get_module_base\<close>, \<open>trace_remote_process\<close>, \<open>xload\<close>, \<open>main\<close>): the scans of
    \<open>/proc\<close>, the parameter block, the injection.  The lemmas describe every call that is made in the target and
    show that registers are restored and the target is detached on every path, and that the loader returns.

  \<^item> \<open>Xloaderd\<close> (\<open>xloaderd.c\<close>): transfers in arbitrary fragments, tokenizer, dispatch, the connection loop.  The loop
    refines a list of commands to a list of replies; the places where it overruns its buffer are theorems too.

  \<^item> \<open>XloaderJava\<close> (\<open>src/DynXloaderService/src/com/tencent/qrom/dynxloader/Xloader.java\<close>): the Java client of the socket,
    with connections and streams that may fail at every call.  A transaction returns -1 or the reply to its own
    command; composed with the daemon, the calls run the loader on exactly their arguments.

  \<^item> \<open>DynXloaderService\<close> (the other classes of that package): requests with their permission check, preferences, the
    messages of the handler with their delays, broadcasts, the extraction of the jars, and the library for clients.
    Its operations and restarts are a transition system; the invariant ties the list of modules to the preferences
    and every command to an authorised request.

  \<^item> \<open>Jni\<close>, \<open>Client\<close> (\<open>src/xloaderFramework/libclient/client.c\<close>): the JNI environment as scripted answers with the
    pending exception and a trace; the entry point and the loading of native and Java modules.

  \<^item> \<open>Safemode\<close> (\<open>src/Xposed-master/xposed_safemode.cpp\<close>): input devices, key events, the two phases of the detection.

  \<^item> \<open>Membased\<close>, \<open>Membased_Sync\<close> (\<open>xposed_service.cpp\<close>): the file service over shared memory; its operations as
    functions of the shared record, and the protocol of mutex and condition variable as a step relation for any number
    of threads, with an invariant for all schedules, termination for one client and a deadlock for two.

  \<^item> \<open>XposedCommon\<close> (\<open>libxposed_common.cpp\<close>, \<open>libxposed_art.cpp\<close>): the part of the native library that both runtimes
    share, over the JNI environment of \<open>Jni\<close>: start-up without pending exceptions, the rewriting of references in
    binary XML, and the Java methods of the memory-based service.  What a runtime adds, logging included, is the locale
    \<open>runtime_library\<close>, interpreted by the library for the Android runtime.  Logging a null exception is a crash.

  \<^item> \<open>Xposed\<close>, \<open>Process\<close>, \<open>Logcat\<close>, \<open>Binder\<close>, \<open>Services\<close>, \<open>Startup\<close>, \<open>AppMain\<close> (\<open>xposed.cpp\<close>, \<open>xposed_logcat.cpp\<close>,
    \<open>xposed_service.cpp\<close>, \<open>app_main.cpp\<close>, \<open>app_main2.cpp\<close>): start-up.  Code that makes system calls is in a state monad
    over a process with a trace of its events, forks included; \<open>Process\<close> has a program logic for it (triples, what
    precedes an event, what a process never does).  The locales of \<open>Startup\<close> describe code that leaves parts of the
    process alone.  The theorems say what precedes the start of services and of the runtime on every path, what
    the binder proxy gives for each operation, who is refused, and what ends up in the log file.

  \<^item> \<open>Boxing\<close> (\<open>src/android_art-xposed-lollipop-mr1/runtime\<close>: \<open>jvalue.h\<close>, \<open>primitive.h\<close>, \<open>reflection.cc\<close>,
    \<open>reflection-inl.h\<close>): values, boxes, conversions and argument arrays.  Boxing and unboxing are inverse on
    arguments and results; arrays are large enough; exactly the widening conversions are made.

  \<^item> \<open>ArtMethod\<close> (\<open>mirror/art_method.h\<close>, \<open>art_method.cc\<close>, \<open>jni_internal.cc\<close>): methods, the hook, native registration.  The
    state has all methods, hook infos and stacks.  \<open>hook_wf\<close> is its invariant, \<open>view\<close> the method as if it were not
    hooked; the locales \<open>through_hook\<close> and \<open>blind_op\<close> are the contract of operations that must reach through a hook,
    and are interpreted by registration here and by the code of \<open>Instrumentation\<close>.

  \<^item> \<open>Instrumentation\<close> (\<open>instrumentation.cc\<close>, \<open>class_linker.cc\<close>): entry points, stubs, deoptimized methods.  All operations
    are steps of one transition system with \<open>hook_wf\<close> as its invariant.

  \<^item> \<open>ArtHook\<close> (\<open>quick_trampoline_entrypoints.cc\<close>, \<open>entrypoint_utils.cc\<close>, \<open>reflection.cc\<close>, \<open>src/Xposed-master/libxposed_art.cpp\<close>):
    a call from the entry point of a hooked method to the callback, and from there to the backup.

  \<^item> \<open>XposedBridge\<close> (\<open>src/XposedBridge-art\<close>, Java): callbacks, their sorted sets, registration, the handler.  With
    callbacks that do not interfere, hooking a method is transparent; callbacks are in order as long as the differences
    of their priorities do not overflow.

  \<^item> This theory: from the announcement of a process, through the service, its client of the socket and the daemon,
    to the run of the loader.

  \<^bold>\<open>Conventions.\<close>  C structures are records, enumerations datatypes, machine integers words of their width, errors
  values of option or sum types.  The environment (system calls, the other side of a socket, the traced process, JNI,
  the code of Java methods, allocation) is an argument or a script in the state; theorems hold for every script.
  Hypotheses on such arguments state their documented behaviour (\<open>boxing_law\<close> for \<open>valueOf\<close>, \<open>fresh_for\<close> for
  allocation, the item order of parcels) and every theorem with hypotheses has an instance that meets them.

  \<^bold>\<open>Loops and bounds.\<close>  Loops over finite input are structural recursion.  The waits for the traced process, the
  accept loop, and registration on a hooked method are partial functions with the value \<open>None\<close> when they do not
  return; that they return is proved where the code promises it (\<open>xload_returns\<close>, \<open>single_client_completes\<close>,
  \<open>registering_ignores_hooks\<close>).  There is no fuel.

  \<^bold>\<open>Not modelled.\<close>  The sample applications and the convenience classes of the framework; concurrent requests to the
  Java service, whose list of modules is shared between threads without a lock (requests are handled one by one); the
  Android start-up hooks and resource hooks of the framework, which work on platform classes that are not in the
  sources; the renamed copy of the framework under \<open>src/bridge\<close>; the library for the Dalvik runtime, which works on structures
  of a virtual machine that is not in the sources; and the rest of the
  Android runtime (compiler, verifier, collector, interpreter, debugger), a project of its own into which the hooks
  are patched.  Log output is left out throughout.  Smaller abstractions: a client of \<open>Membased_Sync\<close> makes one exchange,
  without the further calls of \<open>readFile\<close> and the wait for the start of the server; argument arrays have no padding for the
  portable compiler; arguments of a call are a list of words, whatever registers they are in; \<open>EnableXposedHook\<close> is one step
  of the transition system of \<open>Instrumentation\<close>, and its parts are taken up by \<open>hook_race\<close>; \<open>Arrays.sort\<close> is a stable
  insertion sort.
\<close>

section \<open>From the announcement of a process to its injection\<close>

lemma started_process_first_check:
  assumes "find_module pkg proc (mModuleList s) = Inr (Some m)" "mi_modulePath m = Some (c # path)"
    and "sv_queue s = []" "mPendingModuleList s = []" "queryAllRunningAppInfo am (mi_processName m)"
    and "xload_call (mi_pkgName m) (mi_processName m) (mi_modulePath m) (mXtracer s) = Some (ret, x)"
  shows "\<exists>s1 s2. onReceive (Some ACTION_AMS_START_PROCESS) pkg proc s = (Inr (), s1) \<and> deliver am s1 = (Inr (), s2) \<and>
    mXtracer s2 = x \<and> sv_sent s2 = sv_sent s @ [m]"
  using assms
  by (simp add: onReceive_def java_equals_def sendEmptyMessageDelayed_def deliver_def sendCmdToXlodaerProcess_def
      preloadDex_def getDexPath_def)

text \<open>
  C8 From the broadcast to the injection.  When the start of a process is announced for which a module is registered
  and the process is there at the first look, the service's Java code writes one command to the daemon's socket;
  the daemon that reads it runs the loader exactly once, for exactly this package, process and module.
\<close>

theorem started_process_is_injected:
  assumes "find_module (Some p) (Some q) (mModuleList s) = Inr (Some \<lparr>mi_pkgName = Some p, mi_processName = Some q, mi_modulePath = Some m\<rparr>)"
    and "word p" "word q" "word m" "length (p @ q @ m) \<le> 1004"
    and "sv_queue s = []" "mPendingModuleList s = []" "queryAllRunningAppInfo am (Some q)"
    and "xload E p (Some q) m = Some (ret, E')"
    and "s_in d = frame (unwords [''xload'', p, q, m])" "s_out d = []" "smooth (s_rd d)" "EIO \<notin> set (s_wr d)" "length b = BUFFER_MAX"
  shows "\<exists>d' b'. serve E d b = Inr (E', d', b') \<and>
    (\<forall>x c. open_link x c \<and> lc_out c = [] \<and> lc_in c = s_out d' \<longrightarrow>
      (\<exists>s1 s2 c'. onReceive (Some ACTION_AMS_START_PROCESS) (Some p) (Some q) (s\<lparr>mXtracer := x\<rparr>) = (Inr (), s1) \<and> deliver am s1 = (Inr (), s2) \<and>
        mSocket (mXtracer s2) = Some c' \<and> lc_out c' = s_in d))"
proof -
  have words: "list_all (\<lambda>(p, q, m). word p \<and> word q \<and> word m \<and> length (p @ q @ m) \<le> 1004) [(p, q, m)]"
    using assms(2-5) by simp
  have runs: "loader_runs E [(p, q, m)] = Some ([ret], E')" using assms(9) by simp
  have sent: "s_in d = concat (map (\<lambda>call. frame (unwords (xload_words call))) [(p, q, m)])"
    using assms(10) by (simp add: xload_words_def)
  from calls_run_loader [OF _ words runs sent assms(11-14)] obtain d' b' where d: "serve E d b = Inr (E', d', b')" and
    c: "\<forall>x c. open_link x c \<and> lc_out c = [] \<and> lc_in c = s_out d' \<longrightarrow>
      (\<exists>x' c'. xload_calls [(p, q, m)] x = Some ([ret], x') \<and> mSocket x' = Some c' \<and> lc_out c' = s_in d \<and> lc_in c' = [])"
    by blast
  have "\<exists>s1 s2 c'. onReceive (Some ACTION_AMS_START_PROCESS) (Some p) (Some q) (s\<lparr>mXtracer := x\<rparr>) = (Inr (), s1) \<and>
      deliver am s1 = (Inr (), s2) \<and> mSocket (mXtracer s2) = Some c' \<and> lc_out c' = s_in d"
    if l: "open_link x c" "lc_out c = []" "lc_in c = s_out d'" for x c
  proof -
    from c l obtain x' c' where x: "xload_call (Some p) (Some q) (Some m) x = Some (ret, x')"
        "mSocket x' = Some c'" "lc_out c' = s_in d"
      by (fastforce simp: bind_eq_Some_conv)
    obtain a as where m: "m = a # as" using assms(4) by (cases m) (auto simp: word_def)
    let ?s = "s\<lparr>mXtracer := x\<rparr>"
    have f: "find_module (Some p) (Some q) (mModuleList ?s) = Inr (Some \<lparr>mi_pkgName = Some p, mi_processName = Some q, mi_modulePath = Some m\<rparr>)"
      using assms(1) by simp
    have "sv_queue ?s = []" "mPendingModuleList ?s = []" using assms(6,7) by simp_all
    from started_process_first_check [OF f _ this, of a as am ret x'] x m assms(8) show ?thesis by fastforce
  qed
  with d show ?thesis by blast
qed


theorem started_process_is_injected_witness:
  "\<exists>d' b'. serve ((demo_env [])\<lparr>e_proc := None\<rparr>)
       \<lparr>s_in = frame ''xload com.app com.app:ui /data/m.apk'', s_out = [], s_rd = [], s_wr = []\<rparr> (replicate BUFFER_MAX NUL) =
       Inr ((demo_env [])\<lparr>e_proc := None\<rparr>, d', b') \<and>
    (\<exists>s1 s2 c'. onReceive (Some ACTION_AMS_START_PROCESS) (Some ''com.app'') (Some ''com.app:ui'')
        (demo_service\<lparr>mXtracer := \<lparr>mSocketAddr = ''xloaderd'', mSocket = None, buf = replicate 1024 0, buflen = 0,
           x_connects = [Some \<lparr>lc_all = s_out d', lc_in = s_out d', lc_out = [], lc_rd = [], lc_wr = []\<rparr>], x_closed = []\<rparr>\<rparr>) = (Inr (), s1) \<and>
      deliver \<lparr>runningServices = None, runningAppProcesses = Some [''com.app:ui'']\<rparr> s1 = (Inr (), s2) \<and>
      mSocket (mXtracer s2) = Some c' \<and> lc_out c' = frame ''xload com.app com.app:ui /data/m.apk'')"
proof -
  let ?E = "(demo_env [])\<lparr>e_proc := None\<rparr>"
    and ?d = "\<lparr>s_in = frame ''xload com.app com.app:ui /data/m.apk'', s_out = [], s_rd = [], s_wr = []\<rparr>"
  have f: "find_module (Some ''com.app'') (Some ''com.app:ui'') (mModuleList demo_service) =
      Inr (Some \<lparr>mi_pkgName = Some ''com.app'', mi_processName = Some ''com.app:ui'', mi_modulePath = Some ''/data/m.apk''\<rparr>)"
    by (simp add: java_equals_def demo_module_def)
  have x: "xload ?E ''com.app'' (Some ''com.app:ui'') ''/data/m.apk'' = Some (ERROR_XLOADER_PROCESS_NOT_FOUND, ?E)"
    by (simp add: xload_def demo_env_def find_pid_of_def)
  have w: "word ''com.app''" "word ''com.app:ui''" "word ''/data/m.apk''" by (simp_all add: word_def isspace_def)
  have q: "queryAllRunningAppInfo \<lparr>runningServices = None, runningAppProcesses = Some [''com.app:ui'']\<rparr> (Some ''com.app:ui'')"
    by (simp add: query_iff)
  have d: "s_in ?d = frame (unwords [''xload'', ''com.app'', ''com.app:ui'', ''/data/m.apk''])" by simp
  have "open_link \<lparr>mSocketAddr = ''xloaderd'', mSocket = None, buf = replicate 1024 0, buflen = 0,
      x_connects = [Some \<lparr>lc_all = bs, lc_in = bs, lc_out = [], lc_rd = [], lc_wr = []\<rparr>], x_closed = []\<rparr>
      \<lparr>lc_all = bs, lc_in = bs, lc_out = [], lc_rd = [], lc_wr = []\<rparr>" for bs
    by (simp add: open_link_def)
  moreover have "lc_out \<lparr>lc_all = bs, lc_in = bs, lc_out = [], lc_rd = [], lc_wr = []\<rparr> = []"
      "lc_in \<lparr>lc_all = bs, lc_in = bs, lc_out = [], lc_rd = [], lc_wr = []\<rparr> = bs" for bs by simp_all
  moreover have "smooth (s_rd ?d)" "EIO \<notin> set (s_wr ?d)" "s_out ?d = []" by (simp_all add: smooth_def)
  moreover have "sv_queue demo_service = []" "mPendingModuleList demo_service = []" by simp_all
  moreover have "length (''com.app'' @ ''com.app:ui'' @ ''/data/m.apk'') \<le> 1004" "length (replicate BUFFER_MAX NUL) = BUFFER_MAX" by simp_all
  ultimately show ?thesis
    using started_process_is_injected [OF f w _ _ _ q x d, of "replicate BUFFER_MAX NUL"] unfolding sock.simps by blast
qed

end
